(* ===== verification/Prelude.thy ===== *)
theory Prelude
  imports Main "HOL-Library.Word" "HOL-Library.Monad_Syntax"
begin

text \<open>
  Shared vocabulary of the development: the C integer types at their width, the error codes the
  sources return, \<open>memcpy\<close> on byte arrays, list segments over a heap of singly linked nodes and
  the generic lemmas the component theories rest on.

  Conventions used everywhere.  A partial operation of C (dereferencing \<open>NULL\<close> or freed memory,
  copying past the end of an array) is a value of type \<open>'a option\<close>, where \<open>None\<close> stands for
  undefined behaviour.  A pointer is a \<open>nat option\<close>, where \<open>None\<close> is \<open>NULL\<close>.  A signed C integer
  is an \<open>int\<close>, wrapped by \<open>to_i16\<close> and its companions wherever the source converts; an unsigned
  one is a word.
\<close>

unbundle bit_operations_syntax

named_theorems heap_simps \<open>rewriting facts about list segments and heap updates\<close>
named_theorems width_simps \<open>reading fixed-width values as numbers\<close>

subsection \<open>Machine types\<close>

type_synonym u8 = "8 word"
type_synonym u16 = "16 word"
type_synonym u32 = "32 word"
type_synonym u64 = "64 word"
type_synonym ptr = "nat option"

definition to_i8 :: "int \<Rightarrow> int" where
  "to_i8 x = signed_take_bit 7 x"

definition to_i16 :: "int \<Rightarrow> int" where
  "to_i16 x = signed_take_bit 15 x"

definition to_i32 :: "int \<Rightarrow> int" where
  "to_i32 x = signed_take_bit 31 x"

definition to_i64 :: "int \<Rightarrow> int" where
  "to_i64 x = signed_take_bit 63 x"

definition in_i16 :: "int \<Rightarrow> bool" where
  "in_i16 x \<longleftrightarrow> - 32768 \<le> x \<and> x \<le> 32767"

lemma to_i16_range: "in_i16 (to_i16 x)"
  using signed_take_bit_int_greater_eq_minus_exp [of 15 x] signed_take_bit_int_less_exp [of 15 x]
  by (simp add: in_i16_def to_i16_def)

lemma to_i16_id [width_simps]: "in_i16 x \<Longrightarrow> to_i16 x = x"
  by (simp add: in_i16_def to_i16_def signed_take_bit_int_eq_self)

lemma to_i32_id [width_simps]: "- 2147483648 \<le> x \<Longrightarrow> x \<le> 2147483647 \<Longrightarrow> to_i32 x = x"
  by (simp add: to_i32_def signed_take_bit_int_eq_self)

lemma to_i64_id [width_simps]: "- (2 ^ 63) \<le> x \<Longrightarrow> x < 2 ^ 63 \<Longrightarrow> to_i64 x = x"
  by (simp add: to_i64_def signed_take_bit_int_eq_self)

subsection \<open>Error codes of \<open>errno.h\<close>\<close>

definition EINTR :: int where "EINTR = 4"
definition EAGAIN :: int where "EAGAIN = 11"
definition EWOULDBLOCK :: int where "EWOULDBLOCK = 11"
definition ENOMEM :: int where "ENOMEM = 12"

lemmas errno_defs = EINTR_def EAGAIN_def EWOULDBLOCK_def ENOMEM_def

subsection \<open>Copying bytes\<close>

text \<open>\<open>memcpy (dst, src, n)\<close>: undefined when either array is shorter than \<open>n\<close>.\<close>

definition memcpy :: "'a list \<Rightarrow> 'a list \<Rightarrow> nat \<Rightarrow> 'a list option" where
  "memcpy dst src n =
     (if n \<le> length dst \<and> n \<le> length src then Some (take n src @ drop n dst) else None)"

lemma memcpy_all: "length src \<le> length dst \<Longrightarrow>
    memcpy dst src (length src) = Some (src @ drop (length src) dst)"
  by (simp add: memcpy_def)

lemma memcpy_SomeD:
  assumes "memcpy dst src n = Some dst'"
  shows "n \<le> length dst" and "n \<le> length src" and "length dst' = length dst"
    and "take n dst' = take n src"
  using assms by (auto simp: memcpy_def split: if_splits)

subsection \<open>List segments over a heap of linked nodes\<close>

text \<open>
  \<open>lseg nx p as q\<close>: following the link function \<open>nx\<close> from pointer \<open>p\<close> visits exactly the
  addresses \<open>as\<close> and ends at \<open>q\<close>.  The link function is partial: \<open>None\<close> at an address that is
  not allocated.
\<close>

primrec lseg :: "(nat \<Rightarrow> ptr option) \<Rightarrow> ptr \<Rightarrow> nat list \<Rightarrow> ptr \<Rightarrow> bool" where
  "lseg nx p [] q \<longleftrightarrow> p = q"
| "lseg nx p (a # as) q \<longleftrightarrow> p = Some a \<and> (\<exists>p'. nx a = Some p' \<and> lseg nx p' as q)"

abbreviation chain :: "(nat \<Rightarrow> ptr option) \<Rightarrow> ptr \<Rightarrow> nat list \<Rightarrow> bool" where
  "chain nx p as \<equiv> lseg nx p as None"

definition last_ptr :: "nat list \<Rightarrow> ptr" where
  "last_ptr as = (if as = [] then None else Some (last as))"

lemma last_ptr_simps [simp]:
  "last_ptr [] = None" "last_ptr (as @ [a]) = Some a" "last_ptr as = None \<longleftrightarrow> as = []"
  by (simp_all add: last_ptr_def)

lemma lseg_append [heap_simps]:
  "lseg nx p (as @ bs) q \<longleftrightarrow> (\<exists>m. lseg nx p as m \<and> lseg nx m bs q)"
  by (induction as arbitrary: p) auto

lemma lseg_frame: "(\<And>a. a \<in> set as \<Longrightarrow> nx' a = nx a) \<Longrightarrow> lseg nx' p as q = lseg nx p as q"
  by (induction as arbitrary: p) auto

lemma lseg_upd_other [heap_simps]:
  "a \<notin> set as \<Longrightarrow> lseg (nx(a := v)) p as q = lseg nx p as q"
  by (rule lseg_frame) auto

lemma chain_None [simp]: "chain nx None as \<longleftrightarrow> as = []"
  by (cases as) auto

lemma chain_Some: "chain nx (Some a) as \<longleftrightarrow>
    (\<exists>bs p. as = a # bs \<and> nx a = Some p \<and> chain nx p bs)"
  by (cases as) auto

text \<open>Appending one node at the end of a chain: its last link is redirected, the new one ends it.\<close>

lemma chain_snoc:
  assumes "chain nx p as" "distinct as" "b \<notin> set as" "as \<noteq> []"
  shows "chain (nx(last as := Some (Some b), b := Some None)) p (as @ [b])"
proof -
  from \<open>as \<noteq> []\<close> obtain xs x where xs: "as = xs @ [x]" by (metis rev_exhaust)
  with assms show ?thesis by (auto simp: lseg_append lseg_upd_other)
qed

end
