(* ===== verification/Queue.thy ===== *)
theory Queue
  imports Prelude
begin

text \<open>
  The bounded block queue of \<open>src/src/queue.c\<close>, modelled on an explicit heap: queue nodes, their
  byte buffers and the queue header are separate allocations, reached through pointers exactly as
  in the source.  Every function of the file is one definition; a \<open>None\<close> result is undefined
  behaviour (a \<open>NULL\<close> or dangling dereference, a copy past the end of a buffer, a double free).
  A critical section between \<open>pthread_mutex_lock\<close> and \<open>pthread_mutex_unlock\<close> (or
  \<open>pthread_cond_wait\<close>, which releases the mutex) is one atomic definition.
\<close>

subsection \<open>State\<close>

record queue_node =
  nd_buffer :: ptr
  nd_len :: nat
  nd_next :: ptr

record queue_t =
  first_free_node :: ptr
  last_free_node :: ptr
  first_filled_node :: ptr
  last_filled_node :: ptr
  detached_node :: ptr
  poison_pill :: int

text \<open>
  The part of the process heap the queue owns.  \<open>brk\<close> numbers the calls of \<open>malloc\<close>; call \<open>k\<close>
  yields the fresh address \<open>k\<close>.  The C allocator is a parameter: \<open>alloc_ok k\<close> says whether call
  \<open>k\<close> succeeds, \<open>junk k i\<close> is the indeterminate byte \<open>i\<close> of the block it returns.
\<close>

record heap =
  nodes :: "nat \<rightharpoonup> queue_node"
  bufs :: "nat \<rightharpoonup> u8 list"
  queues :: "nat \<rightharpoonup> queue_t"
  brk :: nat

record allocator =
  alloc_ok :: "nat \<Rightarrow> bool"
  junk :: "nat \<Rightarrow> nat \<Rightarrow> u8"

subsection \<open>Heap primitives\<close>

definition malloc_node :: "allocator \<Rightarrow> heap \<Rightarrow> ptr \<times> heap" where
  "malloc_node A h =
     (let k = brk h; h' = h\<lparr>brk := Suc k\<rparr>
      in if alloc_ok A k
         then (Some k, h'\<lparr>nodes := (nodes h')(k \<mapsto> \<lparr>nd_buffer = None, nd_len = 0, nd_next = None\<rparr>)\<rparr>)
         else (None, h'))"

definition malloc_buf :: "allocator \<Rightarrow> nat \<Rightarrow> heap \<Rightarrow> ptr \<times> heap" where
  "malloc_buf A n h =
     (let k = brk h; h' = h\<lparr>brk := Suc k\<rparr>
      in if alloc_ok A k
         then (Some k, h'\<lparr>bufs := (bufs h')(k \<mapsto> map (junk A k) [0..<n])\<rparr>)
         else (None, h'))"

definition malloc_queue :: "allocator \<Rightarrow> heap \<Rightarrow> ptr \<times> heap" where
  "malloc_queue A h =
     (let k = brk h; h' = h\<lparr>brk := Suc k\<rparr>
      in if alloc_ok A k
         then (Some k, h'\<lparr>queues := (queues h')(k \<mapsto>
                 \<lparr>first_free_node = None, last_free_node = None, first_filled_node = None,
                  last_filled_node = None, detached_node = None, poison_pill = 0\<rparr>)\<rparr>)
         else (None, h'))"

definition free_node :: "ptr \<Rightarrow> heap \<Rightarrow> heap option" where
  "free_node p h =
     (case p of None \<Rightarrow> Some h
      | Some a \<Rightarrow> (if nodes h a = None then None else Some (h\<lparr>nodes := (nodes h)(a := None)\<rparr>)))"

definition free_buf :: "ptr \<Rightarrow> heap \<Rightarrow> heap option" where
  "free_buf p h =
     (case p of None \<Rightarrow> Some h
      | Some a \<Rightarrow> (if bufs h a = None then None else Some (h\<lparr>bufs := (bufs h)(a := None)\<rparr>)))"

definition free_queue :: "ptr \<Rightarrow> heap \<Rightarrow> heap option" where
  "free_queue p h =
     (case p of None \<Rightarrow> Some h
      | Some a \<Rightarrow> (if queues h a = None then None else Some (h\<lparr>queues := (queues h)(a := None)\<rparr>)))"

definition read_node :: "ptr \<Rightarrow> heap \<Rightarrow> queue_node option" where
  "read_node p h = (case p of None \<Rightarrow> None | Some a \<Rightarrow> nodes h a)"

definition write_node :: "ptr \<Rightarrow> (queue_node \<Rightarrow> queue_node) \<Rightarrow> heap \<Rightarrow> heap option" where
  "write_node p f h =
     (case p of None \<Rightarrow> None
      | Some a \<Rightarrow> (case nodes h a of None \<Rightarrow> None
                   | Some n \<Rightarrow> Some (h\<lparr>nodes := (nodes h)(a \<mapsto> f n)\<rparr>)))"

definition write_queue :: "nat \<Rightarrow> queue_t \<Rightarrow> heap \<Rightarrow> heap" where
  "write_queue q Q h = h\<lparr>queues := (queues h)(q \<mapsto> Q)\<rparr>"

text \<open>\<open>memcpy (to_fill->buffer, buffer, len)\<close>\<close>

definition copy_to_buf :: "ptr \<Rightarrow> u8 list \<Rightarrow> nat \<Rightarrow> heap \<Rightarrow> heap option" where
  "copy_to_buf p src len h =
     (case p of None \<Rightarrow> None
      | Some b \<Rightarrow> do {
          dst \<leftarrow> bufs h b;
          dst' \<leftarrow> memcpy dst src len;
          Some (h\<lparr>bufs := (bufs h)(b \<mapsto> dst')\<rparr>) })"

subsection \<open>Operations\<close>

partial_function (option) destroy_nodes :: "ptr \<Rightarrow> heap \<Rightarrow> heap option" where
  "destroy_nodes cur h =
     (case cur of None \<Rightarrow> Some h
      | Some a \<Rightarrow>
          Option.bind (nodes h a) (\<lambda>n.
          Option.bind (free_buf (nd_buffer n) h) (\<lambda>h1.
          Option.bind (free_node (Some a) h1) (\<lambda>h2.
          destroy_nodes (nd_next n) h2))))"

text \<open>
  The loop of \<open>create_queue\<close>: \<open>n\<close> iterations are left, the local
  \<open>first_node\<close> and \<open>last_node\<close>.  \<open>Inl\<close> is the early return with its error code.
\<close>

fun create_nodes :: "allocator \<Rightarrow> nat \<Rightarrow> nat \<Rightarrow> ptr \<Rightarrow> ptr \<Rightarrow> heap
    \<Rightarrow> ((int + ptr \<times> ptr) \<times> heap) option" where
  "create_nodes A buffer_size 0 first_node last_node h = Some (Inr (first_node, last_node), h)"
| "create_nodes A buffer_size (Suc n) first_node last_node h =
     (case malloc_node A h of
        (None, h1) \<Rightarrow> do {
          h2 \<leftarrow> destroy_nodes first_node h1;
          Some (Inl (- ENOMEM), h2) }
      | (Some cur, h1) \<Rightarrow>
         (case malloc_buf A buffer_size h1 of (buf, h2) \<Rightarrow> do {
            h3 \<leftarrow> write_node (Some cur) (\<lambda>_. \<lparr>nd_buffer = buf, nd_len = 0, nd_next = None\<rparr>) h2;
            if buf = None then do {
              h4 \<leftarrow> destroy_nodes first_node h3;
              h5 \<leftarrow> free_node (Some cur) h4;
              Some (Inl (- ENOMEM), h5) }
            else if last_node = None then create_nodes A buffer_size n (Some cur) (Some cur) h3
            else do {
              h4 \<leftarrow> write_node last_node (nd_next_update (\<lambda>_. Some cur)) h3;
              create_nodes A buffer_size n first_node (Some cur) h4 } }))"

text \<open>The result is the return code and the out-parameter \<open>queue\<close> (\<open>None\<close> when not written).\<close>

definition create_queue :: "allocator \<Rightarrow> u32 \<Rightarrow> int \<Rightarrow> heap \<Rightarrow> ((int \<times> ptr) \<times> heap) option" where
  "create_queue A buffer_size queue_size h =
     (case malloc_queue A h of
        (None, h1) \<Rightarrow> Some ((- ENOMEM, None), h1)
      | (Some result, h1) \<Rightarrow>
         (case create_nodes A (unat buffer_size) (nat queue_size) None None h1 of
            None \<Rightarrow> None
          | Some (Inl code, h2) \<Rightarrow> do {
              h3 \<leftarrow> free_queue (Some result) h2;
              Some ((code, None), h3) }
          | Some (Inr (first_node, last_node), h2) \<Rightarrow>
              Some ((0, Some result),
                write_queue result
                  \<lparr>first_free_node = first_node, last_free_node = last_node,
                   first_filled_node = None, last_filled_node = None,
                   detached_node = None, poison_pill = 0\<rparr> h2)))"

text \<open>
  The block of \<open>queue_put\<close> that moves the first free node to the end of the filled list; the
  result is the node to fill, the new header and the heap.
\<close>

definition pick_node :: "queue_t \<Rightarrow> heap \<Rightarrow> (ptr \<times> queue_t \<times> heap) option" where
  "pick_node Q h =
     (case first_free_node Q of
        None \<Rightarrow> Some (last_filled_node Q, Q, h)
      | Some a \<Rightarrow> do {
          n \<leftarrow> nodes h a;
          let Q1 = Q\<lparr>first_free_node := nd_next n\<rparr>;
          h1 \<leftarrow> write_node (Some a) (nd_next_update (\<lambda>_. None)) h;
          let Q2 = (if first_free_node Q1 = None then Q1\<lparr>last_free_node := None\<rparr> else Q1);
          (Q3, h2) \<leftarrow>
            (if last_filled_node Q2 = None
             then Some (Q2\<lparr>first_filled_node := Some a\<rparr>, h1)
             else do {
               h2 \<leftarrow> write_node (last_filled_node Q2) (nd_next_update (\<lambda>_. Some a)) h1;
               Some (Q2, h2) });
          Some (Some a, Q3\<lparr>last_filled_node := Some a\<rparr>, h2) })"

definition queue_put :: "u8 list \<Rightarrow> nat \<Rightarrow> nat \<Rightarrow> heap \<Rightarrow> heap option" where
  "queue_put buffer len q h = do {
     Q \<leftarrow> queues h q;
     (to_fill, Q1, h1) \<leftarrow> pick_node Q h;
     n \<leftarrow> read_node to_fill h1;
     h2 \<leftarrow> copy_to_buf (nd_buffer n) buffer len h1;
     h3 \<leftarrow> write_node to_fill (nd_len_update (\<lambda>_. len)) h2;
     Some (write_queue q Q1 h3) }"

text \<open>
  One pass of \<open>take_buffer_for_processing\<close> through the mutex, from the moment the mutex is held
  (on entry or on waking from \<open>pthread_cond_wait\<close>) until it is released: the poisoned and empty
  queue answers the \<open>NULL\<close> buffer, the empty one waits, any other hands out its first filled node.
\<close>

datatype take_result = Must_wait | Null_buffer | Buffer nat nat

definition take_buffer_for_processing :: "nat \<Rightarrow> heap \<Rightarrow> (take_result \<times> heap) option" where
  "take_buffer_for_processing q h = do {
     Q \<leftarrow> queues h q;
     if poison_pill Q = 1 \<and> first_filled_node Q = None then Some (Null_buffer, h)
     else if first_filled_node Q = None then Some (Must_wait, h)
     else do {
       n \<leftarrow> read_node (first_filled_node Q) h;
       let Q1 = Q\<lparr>detached_node := first_filled_node Q, first_filled_node := nd_next n\<rparr>;
       h1 \<leftarrow> write_node (detached_node Q1) (nd_next_update (\<lambda>_. None)) h;
       let Q2 = (if first_filled_node Q1 = None then Q1\<lparr>last_filled_node := None\<rparr> else Q1);
       d \<leftarrow> read_node (detached_node Q2) h1;
       b \<leftarrow> nd_buffer d;
       Some (Buffer b (nd_len d), write_queue q Q2 h1) } }"

definition complete_buffer_processing :: "nat \<Rightarrow> heap \<Rightarrow> heap option" where
  "complete_buffer_processing q h = do {
     Q \<leftarrow> queues h q;
     (Q1, h1) \<leftarrow>
       (if last_free_node Q = None
        then Some (Q\<lparr>first_free_node := detached_node Q\<rparr>, h)
        else do {
          h1 \<leftarrow> write_node (last_free_node Q) (nd_next_update (\<lambda>_. detached_node Q)) h;
          Some (Q, h1) });
     Some (write_queue q (Q1\<lparr>last_free_node := detached_node Q1, detached_node := None\<rparr>) h1) }"

definition interrupt_waiting_the_data :: "ptr \<Rightarrow> heap \<Rightarrow> heap option" where
  "interrupt_waiting_the_data p h =
     (case p of None \<Rightarrow> Some h
      | Some q \<Rightarrow> do {
          Q \<leftarrow> queues h q;
          Some (write_queue q (Q\<lparr>poison_pill := 1\<rparr>) h) })"

definition destroy_queue :: "nat \<Rightarrow> heap \<Rightarrow> heap option" where
  "destroy_queue q h = do {
     Q \<leftarrow> queues h q;
     h1 \<leftarrow> destroy_nodes (first_free_node Q) h;
     h2 \<leftarrow> destroy_nodes (first_filled_node Q) h1;
     h4 \<leftarrow> (if detached_node Q \<noteq> None then do {
              d \<leftarrow> read_node (detached_node Q) h2;
              h3 \<leftarrow> free_buf (nd_buffer d) h2;
              free_node (detached_node Q) h3 }
           else Some h2);
     free_queue (Some q) h4 }"

end
