(* ===== verification/Queue_Refinement.thy ===== *)
theory Queue_Refinement
  imports Queue
begin

text \<open>
  What the queue of \<open>queue.c\<close> promises, and that the pointer code keeps the promise.  The abstract
  queue is a number of free blocks, the list of filled blocks in order, the block handed to the
  consumer and the poison flag.  \<open>queue_rel\<close> relates it to the heap; every operation of the source
  preserves the representation and simulates its abstract counterpart.
\<close>

subsection \<open>Representation\<close>

definition links :: "heap \<Rightarrow> nat \<Rightarrow> ptr option" where
  "links h a = map_option nd_next (nodes h a)"

definition buf_of :: "heap \<Rightarrow> nat \<Rightarrow> ptr" where
  "buf_of h a = (case nodes h a of None \<Rightarrow> None | Some n \<Rightarrow> nd_buffer n)"

definition content :: "heap \<Rightarrow> nat \<Rightarrow> u8 list" where
  "content h a =
     (case nodes h a of None \<Rightarrow> []
      | Some n \<Rightarrow> (case nd_buffer n of None \<Rightarrow> []
         | Some b \<Rightarrow> (case bufs h b of None \<Rightarrow> [] | Some bs \<Rightarrow> take (nd_len n) bs)))"

definition node_ok :: "nat \<Rightarrow> heap \<Rightarrow> nat \<Rightarrow> bool" where
  "node_ok c h a \<longleftrightarrow>
     (\<exists>n b bs. nodes h a = Some n \<and> nd_buffer n = Some b \<and> bufs h b = Some bs \<and>
        length bs = c \<and> nd_len n \<le> c)"

definition nodes_ok :: "nat \<Rightarrow> heap \<Rightarrow> nat list \<Rightarrow> bool" where
  "nodes_ok c h as \<longleftrightarrow> distinct as \<and> (\<forall>a \<in> set as. node_ok c h a) \<and> inj_on (buf_of h) (set as)"

definition queue_rep :: "nat \<Rightarrow> heap \<Rightarrow> queue_t \<Rightarrow> nat list \<Rightarrow> nat list \<Rightarrow> nat list \<Rightarrow> bool" where
  "queue_rep c h Q fs gs ds \<longleftrightarrow>
     chain (links h) (first_free_node Q) fs \<and> last_free_node Q = last_ptr fs \<and>
     chain (links h) (first_filled_node Q) gs \<and> last_filled_node Q = last_ptr gs \<and>
     chain (links h) (detached_node Q) ds \<and> length ds \<le> 1 \<and>
     nodes_ok c h (fs @ gs @ ds)"

lemma node_okE:
  assumes "node_ok c h a"
  obtains n b bs where "nodes h a = Some n" "nd_buffer n = Some b" "bufs h b = Some bs"
    "length bs = c" "nd_len n \<le> c" "buf_of h a = Some b" "links h a = Some (nd_next n)"
    "content h a = take (nd_len n) bs"
  using assms by (auto simp: node_ok_def buf_of_def links_def content_def)

text \<open>The heap without the nodes \<open>as\<close> and their buffers.\<close>

definition erase :: "nat list \<Rightarrow> heap \<Rightarrow> heap" where
  "erase as h = h\<lparr>nodes := nodes h |` (- set as),
     bufs := bufs h |` (- {b. \<exists>a \<in> set as. buf_of h a = Some b})\<rparr>"

lemma erase_simps [simp]:
  "queues (erase as h) = queues h" "brk (erase as h) = brk h"
  "nodes (erase as h) = nodes h |` (- set as)"
  "bufs (erase as h) = bufs h |` (- {b. \<exists>a \<in> set as. buf_of h a = Some b})"
  by (simp_all add: erase_def)

lemma restrict_UNIV [simp]: "m |` UNIV = m"
  by (simp add: restrict_map_def)

lemma erase_Nil [simp]: "erase [] h = h"
  by (simp add: erase_def)

text \<open>The blocks of the heap that do not belong to the nodes \<open>as\<close>.\<close>

definition others :: "nat list \<Rightarrow> heap \<Rightarrow> (nat \<rightharpoonup> queue_node) \<times> (nat \<rightharpoonup> u8 list)" where
  "others as h = (nodes (erase as h), bufs (erase as h))"

subsection \<open>Two heap transformers\<close>

text \<open>
  All writes of the queue are of two kinds: redirecting a node's link and filling a node's buffer.
\<close>

definition set_next :: "nat \<Rightarrow> ptr \<Rightarrow> heap \<Rightarrow> heap" where
  "set_next a p h = h\<lparr>nodes := (nodes h)(a := map_option (nd_next_update (\<lambda>_. p)) (nodes h a))\<rparr>"

lemma write_next_eq [heap_simps]:
  "nodes h a = Some n \<Longrightarrow> write_node (Some a) (nd_next_update (\<lambda>_. p)) h = Some (set_next a p h)"
  by (simp add: write_node_def set_next_def)

lemma set_next_simps [simp]:
  "bufs (set_next a p h) = bufs h" "queues (set_next a p h) = queues h" "brk (set_next a p h) = brk h"
  by (simp_all add: set_next_def)

lemma buf_of_set_next [simp]: "buf_of (set_next a p h) = buf_of h"
  by (rule ext) (simp add: buf_of_def set_next_def split: option.splits)

lemma content_set_next [simp]: "content (set_next a p h) = content h"
  by (rule ext) (simp add: content_def set_next_def split: option.splits)

lemma node_ok_set_next [simp]: "node_ok c (set_next a p h) = node_ok c h"
  by (rule ext) (auto simp: node_ok_def set_next_def)

lemma nodes_ok_set_next [simp]: "nodes_ok c (set_next a p h) as = nodes_ok c h as"
  by (simp add: nodes_ok_def)

lemma links_set_next: "node_ok c h a \<Longrightarrow> links (set_next a p h) = (links h)(a := Some p)"
  by (rule ext) (auto simp: links_def set_next_def node_ok_def)

lemma others_set_next: "a \<in> set as \<Longrightarrow> others as (set_next a p h) = others as h"
  by (auto simp: others_def restrict_map_def fun_eq_iff) (auto simp: set_next_def)

lemma others_cong: "set as = set bs \<Longrightarrow> others as h = others bs h"
  by (simp add: others_def)

definition fill :: "nat \<Rightarrow> u8 list \<Rightarrow> heap \<Rightarrow> heap" where
  "fill a xs h =
     (case nodes h a of None \<Rightarrow> h
      | Some n \<Rightarrow> h\<lparr>nodes := (nodes h)(a \<mapsto> n\<lparr>nd_len := length xs\<rparr>),
          bufs := (bufs h)(the (nd_buffer n) \<mapsto>
                     xs @ drop (length xs) (the (bufs h (the (nd_buffer n)))))\<rparr>)"

lemma fill_simps [simp]:
  "queues (fill a xs h) = queues h" "brk (fill a xs h) = brk h"
  "links (fill a xs h) = links h" "buf_of (fill a xs h) = buf_of h"
  by (auto simp: fill_def links_def buf_of_def fun_eq_iff split: option.splits)

lemma put_fill_eq:
  assumes "node_ok c h a" "length xs \<le> c"
  shows "\<exists>n. read_node (Some a) h = Some n \<and>
    (\<exists>h'. copy_to_buf (nd_buffer n) xs (length xs) h = Some h' \<and>
      write_node (Some a) (nd_len_update (\<lambda>_. length xs)) h' = Some (fill a xs h))"
  using assms
  by (auto elim!: node_okE simp: read_node_def copy_to_buf_def memcpy_def write_node_def fill_def)

lemma others_fill: "node_ok c h a \<Longrightarrow> a \<in> set as \<Longrightarrow> others as (fill a xs h) = others as h"
  by (auto simp: others_def restrict_map_def fun_eq_iff elim!: node_okE) (auto simp: fill_def)

lemma node_ok_fill: "node_ok c h a \<Longrightarrow> length xs \<le> c \<Longrightarrow> node_ok c h x \<Longrightarrow> node_ok c (fill a xs h) x"
  by (auto simp: node_ok_def fill_def)

lemma nodes_ok_fill:
  assumes "nodes_ok c h as" "a \<in> set as" "length xs \<le> c"
  shows "nodes_ok c (fill a xs h) as"
  using assms node_ok_fill by (auto simp: nodes_ok_def)

lemma content_fill_same: "node_ok c h a \<Longrightarrow> length xs \<le> c \<Longrightarrow> content (fill a xs h) a = xs"
  by (auto simp: content_def fill_def node_ok_def)

lemma content_fill_other:
  assumes "nodes_ok c h as" "a \<in> set as" "x \<in> set as" "x \<noteq> a"
  shows "content (fill a xs h) x = content h x"
proof -
  from assms have "buf_of h x \<noteq> buf_of h a" by (auto simp: nodes_ok_def inj_on_def)
  with assms show ?thesis
    by (auto simp: nodes_ok_def content_def fill_def node_ok_def buf_of_def split: option.splits)
qed

subsection \<open>Moving nodes between the lists\<close>

lemma queue_rep_ok:
  assumes "queue_rep c h Q fs gs ds" "a \<in> set fs \<union> set gs \<union> set ds"
  shows "node_ok c h a"
  using assms by (auto simp: queue_rep_def nodes_ok_def)

lemma chain_cons_next:
  assumes "chain (links h) p (a # as)" "node_ok c h a"
  shows "\<exists>n. nodes h a = Some n \<and> p = Some a \<and> chain (links h) (nd_next n) as"
  using assms by (auto simp: node_ok_def links_def)

lemma chain_next_None_iff:
  "chain nx p as \<Longrightarrow> p = None \<longleftrightarrow> as = []"
  by (cases as) auto

lemma last_ptr_Cons: "last_ptr (a # as) = (if as = [] then Some a else last_ptr as)"
  by (simp add: last_ptr_def)

text \<open>\<open>pick_node\<close> on a queue with a free block: the block becomes the last filled one.\<close>

lemma pick_node_free:
  assumes rep: "queue_rep c h Q (a # fs) gs ds"
  shows "\<exists>Q1 h1. pick_node Q h = Some (Some a, Q1, h1) \<and> queue_rep c h1 Q1 fs (gs @ [a]) ds \<and>
    content h1 = content h \<and> poison_pill Q1 = poison_pill Q \<and> queues h1 = queues h \<and>
    bufs h1 = bufs h \<and> buf_of h1 = buf_of h \<and>
    (\<forall>as. set (a # gs) \<subseteq> set as \<longrightarrow> others as h1 = others as h)"
proof -
  have ok: "nodes_ok c h ((a # fs) @ gs @ ds)" using rep by (simp add: queue_rep_def)
  then have ok': "nodes_ok c h (fs @ (gs @ [a]) @ ds)"
    by (auto simp: nodes_ok_def inj_on_def)
  from rep have na: "node_ok c h a" by (rule queue_rep_ok) simp
  then obtain n where n: "nodes h a = Some n" "first_free_node Q = Some a"
    "chain (links h) (nd_next n) fs"
    using chain_cons_next [of h _ a fs c] rep by (auto simp: queue_rep_def)
  from ok have out: "a \<notin> set fs" "a \<notin> set gs" "a \<notin> set ds" "distinct gs"
    by (auto simp: nodes_ok_def)
  define h1 where "h1 = set_next a None h"
  have l1: "links h1 = (links h)(a := Some None)"
    unfolding h1_def by (rule links_set_next [OF na])
  have last_gs: "gs \<noteq> [] \<Longrightarrow> set gs \<subseteq> X \<Longrightarrow> last gs \<in> X" for X by auto
  show ?thesis
  proof (cases "gs = []")
    case True
    with rep n out ok' l1 show ?thesis
      by (auto simp: pick_node_def Let_def write_next_eq queue_rep_def lseg_upd_other
          last_ptr_Cons chain_next_None_iff h1_def others_set_next split: if_splits)
  next
    case False
    let ?l = "last gs"
    have lg: "?l \<in> set gs" using False by simp
    have nl: "node_ok c h1 ?l" using queue_rep_ok [OF rep] lg by (simp add: h1_def)
    then obtain nl' where nl': "nodes h1 ?l = Some nl'" by (auto simp: node_ok_def)
    define h2 where "h2 = set_next ?l (Some a) h1"
    have l2: "links h2 = (links h)(?l := Some (Some a), a := Some None)"
      unfolding h2_def using links_set_next [OF nl] l1 lg out by (auto simp: fun_upd_twist)
    have "chain (links h2) (first_filled_node Q) (gs @ [a])"
      unfolding l2 using rep out False by (intro chain_snoc) (auto simp: queue_rep_def)
    moreover have "?l \<notin> set fs" "?l \<notin> set ds" using lg ok by (auto simp: nodes_ok_def)
    then have "chain (links h2) (nd_next n) fs" "chain (links h2) (detached_node Q) ds"
      using n rep out unfolding l2 by (simp_all add: queue_rep_def lseg_upd_other)
    ultimately show ?thesis
      using rep n False ok' nl'
      by (auto simp: pick_node_def Let_def write_next_eq queue_rep_def last_ptr_def
          chain_next_None_iff h1_def h2_def others_set_next last_gs split: if_splits)
  qed
qed

text \<open>\<open>pick_node\<close> on a full queue: the last filled block is overwritten in place.\<close>

lemma pick_node_full:
  assumes "queue_rep c h Q [] (gs @ [a]) ds"
  shows "pick_node Q h = Some (Some a, Q, h)"
  using assms by (auto simp: pick_node_def queue_rep_def)

subsection \<open>The abstract queue\<close>

record frames =
  fq_free :: nat
  fq_filled :: "u8 list list"
  fq_held :: "u8 list option"
  fq_poison :: bool

datatype spec_answer = Wait | Nothing | Block "u8 list"

definition spec_put :: "u8 list \<Rightarrow> frames \<Rightarrow> frames option" where
  "spec_put xs S =
     (if 0 < fq_free S then Some (S\<lparr>fq_free := fq_free S - 1, fq_filled := fq_filled S @ [xs]\<rparr>)
      else if fq_filled S = [] then None
      else Some (S\<lparr>fq_filled := butlast (fq_filled S) @ [xs]\<rparr>))"

definition spec_take :: "frames \<Rightarrow> spec_answer \<times> frames" where
  "spec_take S =
     (case fq_filled S of
        [] \<Rightarrow> (if fq_poison S then Nothing else Wait, S)
      | x # xs \<Rightarrow> (Block x, S\<lparr>fq_filled := xs, fq_held := Some x\<rparr>))"

definition spec_complete :: "frames \<Rightarrow> frames" where
  "spec_complete S = S\<lparr>fq_free := Suc (fq_free S), fq_held := None\<rparr>"

definition spec_interrupt :: "frames \<Rightarrow> frames" where
  "spec_interrupt S = S\<lparr>fq_poison := True\<rparr>"

definition queue_abs :: "heap \<Rightarrow> queue_t \<Rightarrow> nat list \<Rightarrow> nat list \<Rightarrow> nat list \<Rightarrow> frames" where
  "queue_abs h Q fs gs ds =
     \<lparr>fq_free = length fs, fq_filled = map (content h) gs,
      fq_held = map_option (content h) (last_ptr ds),
      fq_poison = (poison_pill Q = 1)\<rparr>"

definition queue_rel :: "nat \<Rightarrow> nat \<Rightarrow> heap \<Rightarrow> frames \<Rightarrow> bool" where
  "queue_rel c q h S \<longleftrightarrow>
     (\<exists>Q fs gs ds. queues h q = Some Q \<and> queue_rep c h Q fs gs ds \<and> S = queue_abs h Q fs gs ds)"

lemma queue_relE:
  assumes "queue_rel c q h S"
  obtains Q fs gs ds where "queues h q = Some Q" "queue_rep c h Q fs gs ds" "S = queue_abs h Q fs gs ds"
  using assms by (auto simp: queue_rel_def)

lemma queue_abs_simps [simp]:
  "fq_free (queue_abs h Q fs gs ds) = length fs"
  "fq_filled (queue_abs h Q fs gs ds) = map (content h) gs"
  "fq_held (queue_abs h Q fs gs ds) = map_option (content h) (last_ptr ds)"
  "fq_poison (queue_abs h Q fs gs ds) = (poison_pill Q = 1)"
  by (simp_all add: queue_abs_def)

lemma rep_write_queue [simp]:
  "links (write_queue q Q h) = links h" "buf_of (write_queue q Q h) = buf_of h"
  "content (write_queue q Q h) = content h" "nodes_ok c (write_queue q Q h) = nodes_ok c h"
  "queues (write_queue q Q h) q = Some Q" "bufs (write_queue q Q h) = bufs h"
  "nodes (write_queue q Q h) = nodes h" "queues (write_queue q Q h) = (queues h)(q \<mapsto> Q)"
  "others as (write_queue q Q h) = others as h"
  by (auto simp: write_queue_def links_def others_def buf_of_def content_def nodes_ok_def node_ok_def fun_eq_iff
      inj_on_def split: option.splits)

lemma queue_rep_write_queue [simp]: "queue_rep c (write_queue q Q' h) Q = queue_rep c h Q"
  by (simp add: queue_rep_def fun_eq_iff)

lemma queue_abs_write_queue [simp]: "queue_abs (write_queue q Q' h) = queue_abs h"
  by (simp add: queue_abs_def fun_eq_iff)

lemma queue_rel_here:
  assumes "queues h q = Some Q" "queue_rep c h Q fs gs ds" "S = queue_abs h Q fs gs ds"
  shows "queue_rel c q h S"
  using assms by (auto simp: queue_rel_def)

lemma queue_relI:
  assumes "queue_rep c h Q fs gs ds" "S = queue_abs h Q fs gs ds"
  shows "queue_rel c q (write_queue q Q h) S"
  unfolding queue_rel_def using assms
  by (intro exI [of _ Q] exI [of _ fs] exI [of _ gs] exI [of _ ds]) simp

lemma queue_rep_fill:
  assumes "queue_rep c h Q fs gs ds" "a \<in> set gs" "length xs \<le> c"
  shows "queue_rep c (fill a xs h) Q fs gs ds"
  using assms by (auto simp: queue_rep_def intro!: nodes_ok_fill)

text \<open>Filling the last filled block changes that block only.\<close>

lemma queue_abs_fill_last:
  assumes "queue_rep c h Q fs (gs @ [a]) ds" "length xs \<le> c"
  shows "queue_abs (fill a xs h) Q fs (gs @ [a]) ds =
    (queue_abs h Q fs (gs @ [a]) ds)\<lparr>fq_filled := map (content h) gs @ [xs]\<rparr>"
proof -
  have ok: "nodes_ok c h (fs @ (gs @ [a]) @ ds)" using assms by (simp add: queue_rep_def)
  then have na: "node_ok c h a" by (simp add: nodes_ok_def)
  have "\<And>x. x \<in> set gs \<union> set ds \<Longrightarrow> content (fill a xs h) x = content h x"
    using ok by (intro content_fill_other [OF ok]) (auto simp: nodes_ok_def)
  then show ?thesis
    using content_fill_same [OF na assms(2)]
    by (auto simp: queue_abs_def last_ptr_def)
qed

lemma bufs_fill_other:
  assumes "nodes_ok c h as" "a \<in> set as" "d \<in> set as" "d \<noteq> a" "buf_of h d = Some b"
  shows "bufs (fill a xs h) b = bufs h b"
proof -
  from assms have "buf_of h a \<noteq> Some b" "node_ok c h a" by (auto simp: nodes_ok_def inj_on_def)
  then show ?thesis by (auto elim!: node_okE simp: fill_def)
qed

text \<open>
  The effect of \<open>queue_put\<close> on the three lists.  The detached block, the one the consumer is
  reading outside the mutex, keeps its place and all its bytes.
\<close>

definition put_lists :: "nat list \<Rightarrow> nat list \<Rightarrow> nat list \<times> nat list" where
  "put_lists fs gs = (case fs of [] \<Rightarrow> ([], gs) | a # fs' \<Rightarrow> (fs', gs @ [a]))"

definition put_contents :: "u8 list \<Rightarrow> nat list \<Rightarrow> u8 list list \<Rightarrow> u8 list list" where
  "put_contents xs fs cs = (if fs = [] then butlast cs else cs) @ [xs]"

lemma queue_put_from_pick:
  assumes Q: "queues h q = Some Q" and pick: "pick_node Q h = Some (Some a, Q1, h1)"
    and rep: "queue_rep c h1 Q1 fs (gs @ [a]) ds" and len: "length xs \<le> c"
  shows "\<exists>h'. queue_put xs (length xs) q h = Some h' \<and> queues h' = (queues h1)(q \<mapsto> Q1) \<and>
    (\<forall>as. a \<in> set as \<longrightarrow> others as h' = others as h1) \<and>
    queue_rep c h' Q1 fs (gs @ [a]) ds \<and> buf_of h' = buf_of h1 \<and>
    map (content h') (gs @ [a]) = map (content h1) gs @ [xs] \<and>
    map (content h') ds = map (content h1) ds \<and>
    (\<forall>d b. d \<in> set ds \<and> buf_of h1 d = Some b \<longrightarrow> bufs h' b = bufs h1 b)"
proof -
  have na: "node_ok c h1 a" using queue_rep_ok [OF rep] by simp
  have ok: "nodes_ok c h1 (fs @ (gs @ [a]) @ ds)" using rep by (simp add: queue_rep_def)
  then have out: "a \<notin> set gs" "a \<notin> set ds" by (auto simp: nodes_ok_def)
  have same: "content (fill a xs h1) x = content h1 x" if "x \<in> set gs \<union> set ds" for x
    using out that by (intro content_fill_other [OF ok]) auto
  have bytes: "bufs (fill a xs h1) b = bufs h1 b" if "d \<in> set ds" "buf_of h1 d = Some b" for d b
    using out that by (intro bufs_fill_other [OF ok, where d = d]) auto
  from put_fill_eq [OF na len]
  have "queue_put xs (length xs) q h = Some (write_queue q Q1 (fill a xs h1))"
    using Q pick by (auto simp: queue_put_def)
  moreover have "queue_rep c (fill a xs h1) Q1 fs (gs @ [a]) ds"
    using rep len by (intro queue_rep_fill) auto
  ultimately show ?thesis
    using same bytes content_fill_same [OF na len] others_fill [OF na] by auto
qed

lemma queue_put_rep:
  assumes Q: "queues h q = Some Q" and rep: "queue_rep c h Q fs gs ds" and len: "length xs \<le> c"
    and room: "fs \<noteq> [] \<or> gs \<noteq> []"
  shows "\<exists>h' Q'. queue_put xs (length xs) q h = Some h' \<and> queues h' = (queues h)(q \<mapsto> Q') \<and>
    (\<forall>as. set fs \<union> set gs \<subseteq> set as \<longrightarrow> others as h' = others as h) \<and>
    (case put_lists fs gs of (fs', gs') \<Rightarrow> queue_rep c h' Q' fs' gs' ds \<and>
       map (content h') gs' = put_contents xs fs (map (content h) gs)) \<and>
    poison_pill Q' = poison_pill Q \<and> map (content h') ds = map (content h) ds \<and>
    buf_of h' = buf_of h \<and> (\<forall>d b. d \<in> set ds \<and> buf_of h d = Some b \<longrightarrow> bufs h' b = bufs h b)"
proof (cases fs)
  case (Cons a fs')
  from pick_node_free [OF rep [unfolded Cons]] obtain Q1 h1 where
    "pick_node Q h = Some (Some a, Q1, h1)" "queue_rep c h1 Q1 fs' (gs @ [a]) ds"
    and c1: "content h1 = content h" "poison_pill Q1 = poison_pill Q" "bufs h1 = bufs h"
      "buf_of h1 = buf_of h" "queues h1 = queues h"
      "\<forall>as. set (a # gs) \<subseteq> set as \<longrightarrow> others as h1 = others as h" by auto
  from queue_put_from_pick [OF Q this(1,2) len] c1 Cons show ?thesis
    by (auto simp: put_lists_def put_contents_def)
next
  case Nil
  with room obtain gs' a where gs: "gs = gs' @ [a]" by (metis rev_exhaust)
  from rep Nil gs have rep': "queue_rep c h Q [] (gs' @ [a]) ds" by simp
  from queue_put_from_pick [OF Q pick_node_full [OF rep'] rep' len] Nil gs show ?thesis
    by (auto simp: put_lists_def put_contents_def)
qed

lemma queue_put_sim:
  assumes rel: "queue_rel c q h S" and len: "length xs \<le> c" and put: "spec_put xs S = Some S'"
  shows "\<exists>h'. queue_put xs (length xs) q h = Some h' \<and> queue_rel c q h' S'"
proof -
  from rel obtain Q fs gs ds where Q: "queues h q = Some Q" and rep: "queue_rep c h Q fs gs ds"
    and S: "S = queue_abs h Q fs gs ds" by (rule queue_relE)
  from put S have room: "fs \<noteq> [] \<or> gs \<noteq> []" by (auto simp: spec_put_def)
  obtain fs' gs' where pl: "put_lists fs gs = (fs', gs')" by (cases "put_lists fs gs")
  from queue_put_rep [OF Q rep len room] pl obtain h' Q' where h': "queue_put xs (length xs) q h = Some h'"
    "queues h' = (queues h)(q \<mapsto> Q')" "queue_rep c h' Q' fs' gs' ds" "poison_pill Q' = poison_pill Q"
    "map (content h') gs' = put_contents xs fs (map (content h) gs)"
    "map (content h') ds = map (content h) ds" by auto
  have "map_option (content h') (last_ptr ds) = map_option (content h) (last_ptr ds)"
    using h'(6) by (cases "ds = []") (auto simp: last_ptr_def)
  then have "S' = queue_abs h' Q' fs' gs' ds"
    using put S pl h'(4,5)
    by (cases fs) (auto simp: spec_put_def queue_abs_def put_lists_def put_contents_def map_butlast
        split: if_splits)
  with h' queue_rel_here [of h' q Q'] show ?thesis by auto
qed

text \<open>With no free block and nothing filled, \<open>last_filled_node\<close> is \<open>NULL\<close> and is dereferenced.\<close>

lemma queue_put_exhausted:
  assumes "queue_rel c q h S" "fq_free S = 0" "fq_filled S = []"
  shows "queue_put xs n q h = None"
  using assms
  by (auto elim!: queue_relE simp: queue_put_def pick_node_def queue_rep_def read_node_def split: option.splits)

fun answer_rel :: "heap \<Rightarrow> take_result \<Rightarrow> spec_answer \<Rightarrow> bool" where
  "answer_rel h Must_wait Wait = True"
| "answer_rel h Null_buffer Nothing = True"
| "answer_rel h (Buffer b n) (Block xs) =
     (n = length xs \<and> (case bufs h b of None \<Rightarrow> False | Some bs \<Rightarrow> take n bs = xs))"
| "answer_rel h _ _ = False"

lemma take_filled:
  assumes Q: "queues h q = Some Q" and rep: "queue_rep c h Q fs (a # gs) []"
  shows "\<exists>b h' Q'. take_buffer_for_processing q h = Some (Buffer b (length (content h a)), h') \<and>
    queues h' = (queues h)(q \<mapsto> Q') \<and> queue_rep c h' Q' fs gs [a] \<and> content h' = content h \<and>
    (\<forall>as. a \<in> set as \<longrightarrow> others as h' = others as h) \<and>
    poison_pill Q' = poison_pill Q \<and> buf_of h' a = Some b \<and> bufs h' = bufs h"
proof -
  have na: "node_ok c h a" using queue_rep_ok [OF rep] by simp
  then obtain n b bs where n: "nodes h a = Some n" "nd_buffer n = Some b" "bufs h b = Some bs"
    "length bs = c" "nd_len n \<le> c" "buf_of h a = Some b" "content h a = take (nd_len n) bs"
    by (auto elim: node_okE)
  from rep na n have ch: "first_filled_node Q = Some a" "chain (links h) (nd_next n) gs"
    using chain_cons_next [of h _ a gs c] by (auto simp: queue_rep_def)
  have ok: "nodes_ok c h (fs @ gs @ [a])"
    using rep by (auto simp: queue_rep_def nodes_ok_def inj_on_def)
  then have out: "a \<notin> set fs" "a \<notin> set gs" by (auto simp: nodes_ok_def)
  define Q' where "Q' = Q\<lparr>detached_node := Some a, first_filled_node := nd_next n,
    last_filled_node := (if nd_next n = None then None else last_filled_node Q)\<rparr>"
  let ?h = "write_queue q Q' (set_next a None h)"
  have "take_buffer_for_processing q h = Some (Buffer b (length (content h a)), ?h)"
    using Q ch n by (simp add: take_buffer_for_processing_def read_node_def write_next_eq Let_def
        Q'_def set_next_def)
  moreover have "queue_rep c ?h Q' fs gs [a]"
    using rep ch out ok links_set_next [OF na]
    by (auto simp: queue_rep_def Q'_def lseg_upd_other chain_next_None_iff last_ptr_Cons)
  ultimately show ?thesis
    using n by (intro exI [of _ b] exI [of _ ?h] exI [of _ Q'])
      (simp add: Q'_def others_set_next)
qed

lemma take_sim:
  assumes rel: "queue_rel c q h S" and idle: "fq_held S = None" and spec: "spec_take S = (ans, S')"
  shows "\<exists>r h'. take_buffer_for_processing q h = Some (r, h') \<and> answer_rel h' r ans \<and> queue_rel c q h' S'"
proof -
  from rel obtain Q fs gs ds where Q: "queues h q = Some Q" and rep: "queue_rep c h Q fs gs ds"
    and S: "S = queue_abs h Q fs gs ds" by (rule queue_relE)
  from idle S have ds: "ds = []" by simp
  show ?thesis
  proof (cases gs)
    case Nil
    with rep have "first_filled_node Q = None" by (simp add: queue_rep_def)
    with Q S Nil spec rel show ?thesis
      by (auto simp: take_buffer_for_processing_def spec_take_def split: if_splits)
  next
    case (Cons a gs')
    from take_filled [OF Q rep [unfolded Cons ds]] obtain b h' Q' where
      t: "take_buffer_for_processing q h = Some (Buffer b (length (content h a)), h')"
      and Q': "queues h' q = Some Q'" and rep': "queue_rep c h' Q' fs gs' [a]"
      and eq: "content h' = content h" "poison_pill Q' = poison_pill Q" "buf_of h' a = Some b" by auto
    have "node_ok c h' a" using queue_rep_ok [OF rep'] by simp
    with eq have "answer_rel h' (Buffer b (length (content h a))) (Block (content h a))"
      by (auto elim!: node_okE)
    moreover have "ans = Block (content h a)" and "S' = queue_abs h' Q' fs gs' [a]"
      using spec S Cons eq by (auto simp: spec_take_def queue_abs_def last_ptr_def)
    moreover from this(2) have "queue_rel c q h' S'" by (rule queue_rel_here [OF Q' rep'])
    ultimately show ?thesis using t by blast
  qed
qed

lemma complete_rep:
  assumes Q: "queues h q = Some Q" and rep: "queue_rep c h Q fs gs [d]"
  shows "\<exists>h' Q'. complete_buffer_processing q h = Some h' \<and> queues h' = (queues h)(q \<mapsto> Q') \<and>
    (\<forall>as. set fs \<subseteq> set as \<longrightarrow> others as h' = others as h) \<and>
    queue_rep c h' Q' (fs @ [d]) gs [] \<and> content h' = content h \<and> poison_pill Q' = poison_pill Q"
proof -
  have ok: "nodes_ok c h ((fs @ [d]) @ gs @ [])"
    using rep by (auto simp: queue_rep_def nodes_ok_def inj_on_def)
  then have out: "d \<notin> set fs" "d \<notin> set gs" "distinct fs" by (auto simp: nodes_ok_def)
  from rep have d: "detached_node Q = Some d" "links h d = Some None" by (auto simp: queue_rep_def)
  show ?thesis
  proof (cases "fs = []")
    case True
    with Q d rep ok show ?thesis
      by (auto simp: complete_buffer_processing_def queue_rep_def last_ptr_def)
  next
    case False
    have nl: "node_ok c h (last fs)" using queue_rep_ok [OF rep] False by simp
    then obtain nl' where nl': "nodes h (last fs) = Some nl'" by (auto simp: node_ok_def)
    define h1 where "h1 = set_next (last fs) (Some d) h"
    have "last fs \<noteq> d" using False out by (metis last_in_set)
    then have l1: "links h1 = (links h)(last fs := Some (Some d), d := Some None)"
      unfolding h1_def links_set_next [OF nl] using d by (auto simp: fun_eq_iff)
    have "chain (links h1) (first_free_node Q) (fs @ [d])"
      unfolding l1 using rep out False by (intro chain_snoc) (auto simp: queue_rep_def)
    moreover have "last fs \<notin> set gs"
      using ok last_in_set [OF False] by (auto simp: nodes_ok_def disjoint_iff)
    then have "chain (links h1) (first_filled_node Q) gs"
      unfolding l1 using rep out by (simp add: queue_rep_def lseg_upd_other)
    ultimately show ?thesis
      using Q d rep ok False nl' 
      by (auto simp: complete_buffer_processing_def queue_rep_def last_ptr_def write_next_eq h1_def
          others_set_next subset_iff)
  qed
qed

lemma complete_sim:
  assumes rel: "queue_rel c q h S" and held: "fq_held S \<noteq> None"
  shows "\<exists>h'. complete_buffer_processing q h = Some h' \<and> queue_rel c q h' (spec_complete S)"
proof -
  from rel obtain Q fs gs ds where Q: "queues h q = Some Q" and rep: "queue_rep c h Q fs gs ds"
    and S: "S = queue_abs h Q fs gs ds" by (rule queue_relE)
  from held S rep obtain d where ds: "ds = [d]"
    by (cases ds) (auto simp: queue_rep_def)
  from complete_rep [OF Q rep [unfolded ds]] obtain h' Q' where
    c: "complete_buffer_processing q h = Some h'" and Q': "queues h' q = Some Q'"
    and rep': "queue_rep c h' Q' (fs @ [d]) gs []"
    and eq: "content h' = content h" "poison_pill Q' = poison_pill Q" by auto
  have "queue_rel c q h' (spec_complete S)"
    by (rule queue_rel_here [OF Q' rep']) (simp add: S ds eq queue_abs_def spec_complete_def)
  with c show ?thesis by blast
qed

lemma interrupt_sim:
  assumes "queue_rel c q h S"
  shows "\<exists>h'. interrupt_waiting_the_data (Some q) h = Some h' \<and> queue_rel c q h' (spec_interrupt S)"
  using assms
  by (auto elim!: queue_relE intro!: queue_relI simp: interrupt_waiting_the_data_def spec_interrupt_def
      queue_rep_def queue_abs_def)

end
