(* ===== verification/Queue_Lifecycle.thy ===== *)
theory Queue_Lifecycle
  imports Queue_Refinement
begin

text \<open>
  Creation and destruction of the queue: \<open>create_queue\<close> under any behaviour of the allocator, and
  \<open>destroy_queue\<close>, which gives back every block exactly once.
\<close>

subsection \<open>Releasing a list of nodes\<close>

lemma buf_of_erase: "x \<notin> set as \<Longrightarrow> buf_of (erase as h) x = buf_of h x"
  by (simp add: erase_def buf_of_def)

lemma links_erase: "x \<notin> set as \<Longrightarrow> links (erase as h) x = links h x"
  by (simp add: erase_def links_def)

lemma erase_append:
  assumes "distinct (as @ bs)"
  shows "erase bs (erase as h) = erase (as @ bs) h"
proof -
  have "\<And>b. (\<exists>a \<in> set bs. buf_of (erase as h) a = Some b) \<longleftrightarrow> (\<exists>a \<in> set bs. buf_of h a = Some b)"
    using assms buf_of_erase by (metis disjoint_iff distinct_append)
  moreover have "- set as \<inter> - set bs = - (set as \<union> set bs)" by auto
  ultimately show ?thesis
    by (intro heap.equality) (auto simp: restrict_map_def fun_eq_iff)
qed

lemma nodes_ok_erase:
  assumes "nodes_ok c h (as @ bs)"
  shows "nodes_ok c (erase as h) bs"
proof -
  have out: "\<And>x. x \<in> set bs \<Longrightarrow> x \<notin> set as" using assms by (auto simp: nodes_ok_def)
  have "node_ok c (erase as h) x" if x: "x \<in> set bs" for x
  proof -
    have "node_ok c h x" using assms x by (simp add: nodes_ok_def)
    then obtain n b bs' where n: "nodes h x = Some n" "nd_buffer n = Some b" "bufs h b = Some bs'"
      "length bs' = c" "nd_len n \<le> c" "buf_of h x = Some b" by (rule node_okE)
    have "buf_of h a \<noteq> Some b" if "a \<in> set as" for a
    proof
      assume "buf_of h a = Some b"
      with n have "buf_of h a = buf_of h x" by simp
      moreover have "inj_on (buf_of h) (set (as @ bs))" using assms by (simp add: nodes_ok_def)
      ultimately have "a = x" using that x by (auto dest: inj_onD)
      with out [OF x] that show False by simp
    qed
    with n out x show ?thesis by (auto simp: node_ok_def erase_def)
  qed
  moreover have "inj_on (buf_of (erase as h)) (set bs)"
    using assms out buf_of_erase by (auto simp: nodes_ok_def inj_on_def)
  ultimately show ?thesis using assms by (auto simp: nodes_ok_def)
qed

lemma chain_erase: "distinct (as @ bs) \<Longrightarrow> chain (links (erase as h)) p bs = chain (links h) p bs"
  by (rule lseg_frame) (auto intro!: links_erase)

lemma free_one_node:
  assumes "node_ok c h a"
  shows "\<exists>n h1. nodes h a = Some n \<and> links h a = Some (nd_next n) \<and>
    free_buf (nd_buffer n) h = Some h1 \<and> free_node (Some a) h1 = Some (erase [a] h)"
proof -
  from assms obtain n b bs where n: "nodes h a = Some n" "nd_buffer n = Some b" "bufs h b = Some bs"
    "buf_of h a = Some b" "links h a = Some (nd_next n)" by (rule node_okE)
  let ?h1 = "h\<lparr>bufs := (bufs h)(b := None)\<rparr>"
  have "?h1\<lparr>nodes := (nodes ?h1)(a := None)\<rparr> = erase [a] h"
    using n by (intro heap.equality) (auto simp: restrict_map_def fun_eq_iff)
  with n show ?thesis by (simp add: free_buf_def free_node_def)
qed

lemma destroy_nodes_erase:
  assumes "chain (links h) p as" "nodes_ok c h as"
  shows "destroy_nodes p h = Some (erase as h)"
  using assms
proof (induction as arbitrary: p h)
  case Nil
  then show ?case by (simp add: destroy_nodes.simps)
next
  case (Cons a as)
  have "node_ok c h a" using Cons.prems by (simp add: nodes_ok_def)
  from free_one_node [OF this] obtain n h1 where n: "nodes h a = Some n" "links h a = Some (nd_next n)"
    "free_buf (nd_buffer n) h = Some h1" "free_node (Some a) h1 = Some (erase [a] h)" by blast
  have d: "distinct ([a] @ as)" using Cons.prems by (simp add: nodes_ok_def)
  have "destroy_nodes (nd_next n) (erase [a] h) = Some (erase as (erase [a] h))"
  proof (rule Cons.IH)
    show "chain (links (erase [a] h)) (nd_next n) as"
      using Cons.prems n chain_erase [OF d] by auto
    show "nodes_ok c (erase [a] h) as"
      using nodes_ok_erase [of c h "[a]" as] Cons.prems by simp
  qed
  with Cons.prems n erase_append [OF d] show ?case
    by (simp add: destroy_nodes.simps [of "Some a"])
qed

subsection \<open>Creation\<close>

definition fresh_heap :: "heap \<Rightarrow> bool" where
  "fresh_heap h \<longleftrightarrow>
     (\<forall>a \<in> dom (nodes h) \<union> dom (bufs h) \<union> dom (queues h). a < brk h) \<and>
     (\<forall>a b. buf_of h a = Some b \<longrightarrow> b < brk h)"

definition partial_rep :: "nat \<Rightarrow> heap \<Rightarrow> ptr \<Rightarrow> ptr \<Rightarrow> nat list \<Rightarrow> bool" where
  "partial_rep c h first_node last_node as \<longleftrightarrow>
     chain (links h) first_node as \<and> last_node = last_ptr as \<and> nodes_ok c h as \<and>
     (\<forall>a \<in> set as. content h a = []) \<and> fresh_heap h"

definition with_node :: "nat \<Rightarrow> nat \<Rightarrow> u8 list \<Rightarrow> heap \<Rightarrow> heap" where
  "with_node k b bs h = h\<lparr>nodes := (nodes h)(k \<mapsto> \<lparr>nd_buffer = Some b, nd_len = 0, nd_next = None\<rparr>),
     bufs := (bufs h)(b \<mapsto> bs), brk := Suc b\<rparr>"

lemma with_node_simps [simp]: "queues (with_node k b bs h) = queues h" "brk (with_node k b bs h) = Suc b"
  by (simp_all add: with_node_def)

lemma links_with_node: "links (with_node k b bs h) = (links h)(k := Some None)"
  by (simp add: with_node_def links_def fun_eq_iff)

lemma buf_of_with_node: "buf_of (with_node k b bs h) = (buf_of h)(k := Some b)"
  by (simp add: with_node_def buf_of_def fun_eq_iff)

text \<open>
  A node that has just been allocated, with its buffer, is disjoint from everything before it, so
  linking it at the end of the list keeps the partial representation and the other blocks.
\<close>

lemma fresh_heapD:
  assumes "fresh_heap h"
  shows "nodes h (brk h) = None" "bufs h (Suc (brk h)) = None" "buf_of h a \<noteq> Some (Suc (brk h))"
    "brk h \<notin> dom (nodes h)"
proof -
  have 1: "\<And>a. a \<in> dom (nodes h) \<Longrightarrow> a < brk h" "\<And>a. a \<in> dom (bufs h) \<Longrightarrow> a < brk h"
    using assms by (simp_all add: fresh_heap_def)
  show "nodes h (brk h) = None" "brk h \<notin> dom (nodes h)" using 1(1) [of "brk h"] by blast+
  show "bufs h (Suc (brk h)) = None" using 1(2) [of "Suc (brk h)"] by fastforce
  show "buf_of h a \<noteq> Some (Suc (brk h))" using assms by (auto simp: fresh_heap_def dest!: spec)
qed

lemma nodes_ok_in_heap: "nodes_ok c h as \<Longrightarrow> a \<in> set as \<Longrightarrow> a \<in> dom (nodes h)"
  by (auto simp: nodes_ok_def node_ok_def)

lemma fresh_with_node:
  assumes "fresh_heap h"
  shows "fresh_heap (with_node (brk h) (Suc (brk h)) bs h)"
  using assms unfolding fresh_heap_def buf_of_with_node
  by (auto simp: with_node_def less_Suc_eq dest!: spec)

lemma nodes_ok_with_node:
  assumes ok: "nodes_ok c h as" and fresh: "fresh_heap h" and len: "length bs = c"
  shows "nodes_ok c (with_node (brk h) (Suc (brk h)) bs h) (as @ [brk h])"
proof -
  note new = fresh_heapD [OF fresh]
  have k: "brk h \<notin> set as" using nodes_ok_in_heap [OF ok] new(4) by blast
  have "node_ok c (with_node (brk h) (Suc (brk h)) bs h) x" if "x \<in> set as" for x
  proof -
    have x: "node_ok c h x" "x \<noteq> brk h" using ok that k by (auto simp: nodes_ok_def)
    from x(1) obtain n b bs' where "nodes h x = Some n" "nd_buffer n = Some b" "bufs h b = Some bs'"
      "length bs' = c" "nd_len n \<le> c" "buf_of h x = Some b" by (rule node_okE)
    moreover from this new(3) [of x] have "b \<noteq> Suc (brk h)" by simp
    ultimately show ?thesis using x(2)
      unfolding node_ok_def by (intro exI [of _ n] exI [of _ b] exI [of _ bs']) (simp add: with_node_def)
  qed
  moreover have "node_ok c (with_node (brk h) (Suc (brk h)) bs h) (brk h)"
    using len by (simp add: node_ok_def with_node_def)
  moreover have "inj_on (buf_of (with_node (brk h) (Suc (brk h)) bs h)) (set (as @ [brk h]))"
    using ok k new(3) new(3) [symmetric]
    by (simp add: buf_of_with_node nodes_ok_def inj_on_def)
  ultimately show ?thesis using ok k by (auto simp: nodes_ok_def)
qed

lemma content_with_node:
  assumes "nodes_ok c h as" "fresh_heap h" "a \<in> set as"
  shows "content (with_node (brk h) (Suc (brk h)) bs h) a = content h a"
proof -
  have "a \<noteq> brk h" using nodes_ok_in_heap [OF assms(1,3)] fresh_heapD(4) [OF assms(2)] by blast
  with fresh_heapD(3) [OF assms(2), of a] show ?thesis
    by (auto simp: content_def with_node_def buf_of_def split: option.splits)
qed

lemma content_new_node [simp]: "content (with_node k b bs h) k = []"
  by (simp add: content_def with_node_def)

text \<open>Linking the node at \<open>p\<close> to \<open>k\<close>, or nothing when the list was empty.\<close>

definition link_last :: "ptr \<Rightarrow> nat \<Rightarrow> heap \<Rightarrow> heap" where
  "link_last p k h = (case p of None \<Rightarrow> h | Some l \<Rightarrow> set_next l (Some k) h)"

lemma link_last_simps [simp]:
  "bufs (link_last p k h) = bufs h" "queues (link_last p k h) = queues h" "brk (link_last p k h) = brk h"
  "buf_of (link_last p k h) = buf_of h" "content (link_last p k h) = content h"
  "nodes_ok c (link_last p k h) as = nodes_ok c h as"
  by (simp_all add: link_last_def split: option.splits)

lemma dom_nodes_link_last [simp]: "dom (nodes (link_last p k h)) = dom (nodes h)"
  by (auto simp: link_last_def set_next_def split: option.splits)

lemma fresh_link_last [simp]: "fresh_heap (link_last p k h) = fresh_heap h"
  by (simp add: fresh_heap_def)

lemma partial_rep_extend:
  assumes rep: "partial_rep c h first_node last_node as" and len: "length bs = c"
  defines "k \<equiv> brk h"
  defines "h' \<equiv> link_last last_node k (with_node k (Suc k) bs h)"
  shows "partial_rep c h' (if as = [] then Some k else first_node) (Some k) (as @ [k])"
    and "others (as @ [k]) h' = others as h"
proof -
  from rep have ok: "nodes_ok c h as" and fresh: "fresh_heap h" and ch: "chain (links h) first_node as"
    and last: "last_node = last_ptr as" and empty: "\<forall>a \<in> set as. content h a = []"
    by (simp_all add: partial_rep_def)
  note new = fresh_heapD [OF fresh]
  have k: "k \<notin> set as" using nodes_ok_in_heap [OF ok] new(4) by (auto simp: k_def)
  have ok': "nodes_ok c h' (as @ [k])"
    using nodes_ok_with_node [OF ok fresh len] by (simp add: h'_def k_def)
  have "\<forall>a \<in> set (as @ [k]). content h' a = []"
    using content_with_node [OF ok fresh] empty by (auto simp: h'_def k_def)
  moreover have "chain (links h') (if as = [] then Some k else first_node) (as @ [k])"
  proof (cases "as = []")
    case True
    with last show ?thesis by (simp add: h'_def link_last_def links_with_node)
  next
    case False
    then have ne: "last as \<in> set as" "last as \<noteq> k" using k by auto
    have "node_ok c (with_node k (Suc k) bs h) (last as)"
      using nodes_ok_with_node [OF ok fresh len] ne(1) by (simp add: nodes_ok_def k_def)
    from links_set_next [OF this, of "Some k"] last False ne(2)
    have "links h' = (links h)(last as := Some (Some k), k := Some None)"
      by (auto simp: h'_def link_last_def last_ptr_def links_with_node fun_upd_twist)
    with chain_snoc [OF ch _ k False] ok False show ?thesis by (simp add: nodes_ok_def)
  qed
  ultimately show "partial_rep c h' (if as = [] then Some k else first_node) (Some k) (as @ [k])"
    using ok' fresh_with_node [OF fresh, of bs] by (simp add: partial_rep_def h'_def k_def)
  have "\<And>a. a \<in> set as \<Longrightarrow> buf_of h' a = buf_of h a" "buf_of h' k = Some (Suc k)"
    using k by (auto simp: h'_def buf_of_with_node)
  moreover have "nodes h' a = nodes h a" if "a \<notin> set as" "a \<noteq> k" for a
    using that last by (auto simp: h'_def link_last_def with_node_def set_next_def last_ptr_def)
  ultimately show "others (as @ [k]) h' = others as h"
    using new k by (auto simp: others_def restrict_map_def fun_eq_iff h'_def with_node_def k_def)
qed

subsection \<open>The creation loop\<close>

text \<open>Updates of different fields commute; the simplifier sorts them by these equations.\<close>

lemma heap_update_order [heap_simps]:
  "h\<lparr>brk := k, nodes := N\<rparr> = h\<lparr>nodes := N, brk := k\<rparr>"
  "h\<lparr>bufs := B, nodes := N\<rparr> = h\<lparr>nodes := N, bufs := B\<rparr>"
  "h\<lparr>brk := k, bufs := B\<rparr> = h\<lparr>bufs := B, brk := k\<rparr>"
  by simp_all

text \<open>Allocation number \<open>brk h\<close> is the node, the next one its buffer.\<close>

lemma create_nodes_no_node:
  assumes rep: "partial_rep c h f l as" and fail: "\<not> alloc_ok A (brk h)"
  shows "\<exists>h'. create_nodes A c (Suc n) f l h = Some (Inl (- ENOMEM), h') \<and> queues h' = queues h \<and>
    (nodes h', bufs h') = others as h"
proof -
  let ?h = "h\<lparr>brk := Suc (brk h)\<rparr>"
  have "links ?h = links h" "nodes_ok c ?h as = nodes_ok c h as" "buf_of ?h = buf_of h"
    by (auto simp: links_def nodes_ok_def node_ok_def buf_of_def fun_eq_iff inj_on_def)
  with rep show ?thesis
    using destroy_nodes_erase [of ?h f as c] fail
    by (simp add: partial_rep_def malloc_node_def Let_def others_def)
qed

lemma create_nodes_no_buffer:
  assumes rep: "partial_rep c h f l as" and node: "alloc_ok A (brk h)"
    and fail: "\<not> alloc_ok A (Suc (brk h))"
  shows "\<exists>h'. create_nodes A c (Suc n) f l h = Some (Inl (- ENOMEM), h') \<and> queues h' = queues h \<and>
    (nodes h', bufs h') = others as h"
proof -
  let ?k = "brk h"
  let ?h = "h\<lparr>nodes := (nodes h)(?k \<mapsto> \<lparr>nd_buffer = None, nd_len = 0, nd_next = None\<rparr>),
    brk := Suc (Suc ?k)\<rparr>"
  from rep have ok: "nodes_ok c h as" and fresh: "fresh_heap h" and ch: "chain (links h) f as"
    by (simp_all add: partial_rep_def)
  have k: "?k \<notin> set as" using nodes_ok_in_heap [OF ok] fresh_heapD(4) [OF fresh] by blast
  have b: "buf_of ?h a = buf_of h a" if "a \<in> set as" for a
    using that k by (auto simp: buf_of_def)
  have "nodes_ok c ?h as"
    using ok k b by (auto simp: nodes_ok_def node_ok_def inj_on_def)
  moreover have "chain (links ?h) f as"
    using ch k by (subst lseg_frame [of as "links ?h" "links h"]) (auto simp: links_def)
  ultimately have "destroy_nodes f ?h = Some (erase as ?h)" by (intro destroy_nodes_erase)
  moreover have "free_node (Some ?k) (erase as ?h) =
      Some ((erase as ?h)\<lparr>nodes := (nodes (erase as ?h))(?k := None)\<rparr>)"
    using k by (simp add: free_node_def)
  moreover have "(nodes (erase as ?h))(?k := None) = nodes (erase as h)"
    "bufs (erase as ?h) = bufs (erase as h)"
    using fresh_heapD(1) [OF fresh] b by (auto simp: restrict_map_def fun_eq_iff)
  ultimately show ?thesis
    using node fail
    by (simp add: malloc_node_def malloc_buf_def Let_def write_node_def others_def heap_simps)
qed

lemma create_nodes_next:
  assumes rep: "partial_rep c h f l as" and node: "alloc_ok A (brk h)"
    and buffer: "alloc_ok A (Suc (brk h))"
  shows "create_nodes A c (Suc n) f l h =
    create_nodes A c n (if as = [] then Some (brk h) else f) (Some (brk h))
      (link_last l (brk h)
        (with_node (brk h) (Suc (brk h)) (map (junk A (Suc (brk h))) [0..<c]) h))"
proof -
  from rep have l: "l = last_ptr as" and ok: "nodes_ok c h as" and fresh: "fresh_heap h"
    by (simp_all add: partial_rep_def)
  have w: "h\<lparr>nodes := (nodes h)(brk h \<mapsto> \<lparr>nd_buffer = Some (Suc (brk h)), nd_len = 0, nd_next = None\<rparr>),
      bufs := (bufs h)(Suc (brk h) \<mapsto> bs), brk := Suc (Suc (brk h))\<rparr> =
      with_node (brk h) (Suc (brk h)) bs h" for bs
    by (simp add: with_node_def)
  show ?thesis
  proof (cases "as = []")
    case True
    with l node buffer show ?thesis
      by (simp add: malloc_node_def malloc_buf_def Let_def write_node_def link_last_def with_node_def
          heap_simps)
  next
    case False
    then have "last as \<in> dom (nodes h)" by (intro nodes_ok_in_heap [OF ok]) simp
    then obtain n' where "nodes h (last as) = Some n'" by auto
    moreover have "last as \<noteq> brk h"
      using fresh_heapD(4) [OF fresh] \<open>last as \<in> dom (nodes h)\<close> by metis
    ultimately show ?thesis
      using l False node buffer
      by (simp add: malloc_node_def malloc_buf_def Let_def write_node_def link_last_def last_ptr_def
          set_next_def with_node_def heap_simps)
  qed
qed

lemma create_nodes_ok:
  assumes "partial_rep c h f l as"
  shows "\<exists>r h'. create_nodes A c n f l h = Some (r, h') \<and> queues h' = queues h \<and>
    (case r of
       Inl code \<Rightarrow> code = - ENOMEM \<and> (nodes h', bufs h') = others as h \<and>
         (\<exists>k. brk h \<le> k \<and> k < brk h + 2 * n \<and> \<not> alloc_ok A k)
     | Inr (f', l') \<Rightarrow> \<exists>bs. length bs = n \<and> partial_rep c h' f' l' (as @ bs) \<and>
         others (as @ bs) h' = others as h \<and>
         (\<forall>k. brk h \<le> k \<and> k < brk h + 2 * n \<longrightarrow> alloc_ok A k))"
  using assms
proof (induction n arbitrary: h f l as)
  case 0
  then show ?case by (auto intro!: exI [of _ "[]"])
next
  case (Suc n)
  note rep = Suc.prems
  let ?k = "brk h"
  consider "\<not> alloc_ok A ?k" | "alloc_ok A ?k" "\<not> alloc_ok A (Suc ?k)"
    | "alloc_ok A ?k" "alloc_ok A (Suc ?k)" by blast
  then show ?case
  proof cases
    case 1
    with create_nodes_no_node [OF rep 1, of n] show ?thesis by fastforce
  next
    case 2
    have "\<exists>k. ?k \<le> k \<and> k < ?k + 2 * Suc n \<and> \<not> alloc_ok A k"
      using 2 by (intro exI [of _ "Suc ?k"]) simp
    with create_nodes_no_buffer [OF rep 2, of n] show ?thesis by fastforce
  next
    case 3
    let ?bs = "map (junk A (Suc ?k)) [0..<c]"
    let ?h = "link_last l ?k (with_node ?k (Suc ?k) ?bs h)"
    have len: "length ?bs = c" by simp
    note ext = partial_rep_extend [OF rep len]
    from Suc.IH [OF ext(1)] obtain r h' where r: "create_nodes A c n
        (if as = [] then Some ?k else f) (Some ?k) ?h = Some (r, h')" "queues h' = queues h"
      and post: "case r of
         Inl code \<Rightarrow> code = - ENOMEM \<and> (nodes h', bufs h') = others (as @ [?k]) ?h \<and>
           (\<exists>k. brk ?h \<le> k \<and> k < brk ?h + 2 * n \<and> \<not> alloc_ok A k)
       | Inr (f', l') \<Rightarrow> \<exists>bs. length bs = n \<and> partial_rep c h' f' l' ((as @ [?k]) @ bs) \<and>
           others ((as @ [?k]) @ bs) h' = others (as @ [?k]) ?h \<and>
           (\<forall>k. brk ?h \<le> k \<and> k < brk ?h + 2 * n \<longrightarrow> alloc_ok A k)" by auto
    have "case r of
       Inl code \<Rightarrow> code = - ENOMEM \<and> (nodes h', bufs h') = others as h \<and>
         (\<exists>k. ?k \<le> k \<and> k < ?k + 2 * Suc n \<and> \<not> alloc_ok A k)
     | Inr (f', l') \<Rightarrow> \<exists>bs. length bs = Suc n \<and> partial_rep c h' f' l' (as @ bs) \<and>
         others (as @ bs) h' = others as h \<and>
         (\<forall>k. ?k \<le> k \<and> k < ?k + 2 * Suc n \<longrightarrow> alloc_ok A k)"
    proof (cases r)
      case (Inl code)
      with post ext(2) show ?thesis by (auto dest!: Suc_leD)
    next
      case (Inr p)
      then obtain f' l' bs where p: "p = (f', l')" "length bs = n"
        "partial_rep c h' f' l' (as @ [?k] @ bs)"
        "others (as @ [?k] @ bs) h' = others as h"
        "\<forall>k. Suc (Suc ?k) \<le> k \<and> k < Suc (Suc ?k) + 2 * n \<longrightarrow> alloc_ok A k"
        using post ext(2) by (cases p) auto
      have "alloc_ok A k" if "?k \<le> k" "k < ?k + 2 * Suc n" for k
        using that 3 p(5) by (cases "k = ?k \<or> k = Suc ?k") auto
      with Inr p show ?thesis by (auto intro!: exI [of _ "?k # bs"])
    qed
    with create_nodes_next [OF rep 3, of n] r show ?thesis by auto
  qed
qed

subsection \<open>\<open>create_queue\<close> and \<open>destroy_queue\<close>\<close>

definition new_frames :: "nat \<Rightarrow> frames" where
  "new_frames n = \<lparr>fq_free = n, fq_filled = [], fq_held = None, fq_poison = False\<rparr>"

lemma malloc_queue_None:
  "\<not> alloc_ok A (brk h) \<Longrightarrow> malloc_queue A h = (None, h\<lparr>brk := Suc (brk h)\<rparr>)"
  by (simp add: malloc_queue_def Let_def)

lemma malloc_queue_Some:
  assumes "alloc_ok A (brk h)" "fresh_heap h"
  shows "\<exists>h1 Q. malloc_queue A h = (Some (brk h), h1) \<and> partial_rep c h1 None None [] \<and>
    nodes h1 = nodes h \<and> bufs h1 = bufs h \<and> brk h1 = Suc (brk h) \<and>
    queues h1 = (queues h)(brk h \<mapsto> Q)"
  using assms
  by (auto simp: malloc_queue_def Let_def partial_rep_def nodes_ok_def fresh_heap_def buf_of_def
      less_Suc_eq)

text \<open>
  Either every allocation succeeds and the queue is the empty one with all its blocks free, or the
  code answers \<open>-ENOMEM\<close> and the heap holds the blocks it held before.
\<close>

lemma create_queue_cases:
  assumes fresh: "fresh_heap h"
  shows "\<exists>code p h'. create_queue A bsz n h = Some ((code, p), h') \<and>
    (if \<forall>k. brk h \<le> k \<and> k \<le> brk h + 2 * nat n \<longrightarrow> alloc_ok A k
     then code = 0 \<and> (\<exists>q. p = Some q \<and> queues h q = None \<and> (\<exists>as. length as = nat n \<and>
            others as h' = (nodes h, bufs h) \<and>
            (\<exists>Q. queues h' = (queues h)(q \<mapsto> Q) \<and> queue_rep (unat bsz) h' Q as [] [] \<and>
               queue_abs h' Q as [] [] = new_frames (nat n))))
     else code = - ENOMEM \<and> p = None \<and> nodes h' = nodes h \<and> bufs h' = bufs h \<and> queues h' = queues h)"
proof (cases "alloc_ok A (brk h)")
  case False
  then show ?thesis by (auto simp: create_queue_def malloc_queue_None)
next
  case True
  from malloc_queue_Some [OF this fresh, of "unat bsz"] obtain h1 Q0 where
    m: "malloc_queue A h = (Some (brk h), h1)" "partial_rep (unat bsz) h1 None None []"
    "nodes h1 = nodes h" "bufs h1 = bufs h" "brk h1 = Suc (brk h)"
    "queues h1 = (queues h)(brk h \<mapsto> Q0)" by blast
  have new: "queues h (brk h) = None" using fresh by (auto simp: fresh_heap_def domIff dest!: spec)
  from create_nodes_ok [OF m(2)] obtain r h2 where
    r: "create_nodes A (unat bsz) (nat n) None None h1 = Some (r, h2)" "queues h2 = queues h1"
    and post: "case r of
       Inl code \<Rightarrow> code = - ENOMEM \<and> (nodes h2, bufs h2) = others [] h1 \<and>
         (\<exists>k. brk h1 \<le> k \<and> k < brk h1 + 2 * nat n \<and> \<not> alloc_ok A k)
     | Inr (f', l') \<Rightarrow> \<exists>bs. length bs = nat n \<and> partial_rep (unat bsz) h2 f' l' ([] @ bs) \<and>
         others ([] @ bs) h2 = others [] h1 \<and>
         (\<forall>k. brk h1 \<le> k \<and> k < brk h1 + 2 * nat n \<longrightarrow> alloc_ok A k)" by blast
  show ?thesis
  proof (cases r)
    case (Inl code)
    with post m obtain k where k: "Suc (brk h) \<le> k" "k < Suc (brk h) + 2 * nat n" "\<not> alloc_ok A k"
      and same: "code = - ENOMEM" "nodes h2 = nodes h" "bufs h2 = bufs h" by (auto simp: others_def)
    then have "brk h \<le> k" "k \<le> brk h + 2 * nat n" by simp_all
    with k(3) same Inl m r new show ?thesis
      by (auto simp: create_queue_def free_queue_def fun_upd_idem_iff)
  next
    case (Inr p)
    with post m obtain f l as where p: "r = Inr (f, l)" "length as = nat n"
      "partial_rep (unat bsz) h2 f l as" "others as h2 = (nodes h, bufs h)"
      "\<forall>k. Suc (brk h) \<le> k \<and> k < Suc (brk h) + 2 * nat n \<longrightarrow> alloc_ok A k"
      by (cases p) (auto simp: others_def)
    let ?Q = "\<lparr>first_free_node = f, last_free_node = l, first_filled_node = None,
      last_filled_node = None, detached_node = None, poison_pill = 0\<rparr>"
    let ?h = "write_queue (brk h) ?Q h2"
    have "create_queue A bsz n h = Some ((0, Some (brk h)), ?h)"
      using m p r by (simp add: create_queue_def)
    moreover have "queue_rep (unat bsz) ?h ?Q as [] []" "queue_abs ?h ?Q as [] [] = new_frames (nat n)"
      using p by (simp_all add: queue_rep_def partial_rep_def new_frames_def queue_abs_def)
    moreover have "others as ?h = (nodes h, bufs h)" using p(4) by (simp add: others_def)
    moreover have "queues ?h = (queues h)(brk h \<mapsto> ?Q)" using m r by simp
    moreover have "\<forall>k. brk h \<le> k \<and> k \<le> brk h + 2 * nat n \<longrightarrow> alloc_ok A k"
      using p True by (metis add_Suc le_eq_less_or_eq less_Suc_eq_le Suc_leI)
    ultimately show ?thesis using p(2) new by (auto simp: domIff)
  qed
qed

lemma destroy_queue_erase:
  assumes Q: "queues h q = Some Q" and rep: "queue_rep c h Q fs gs ds"
  shows "\<exists>h'. destroy_queue q h = Some h' \<and> queues h' = (queues h)(q := None) \<and>
    (nodes h', bufs h') = others (fs @ gs @ ds) h"
proof -
  have ok: "nodes_ok c h (fs @ gs @ ds)" using rep by (simp add: queue_rep_def)
  then have d: "distinct (fs @ gs @ ds)" by (simp add: nodes_ok_def)
  have ok1: "nodes_ok c h fs" using ok by (auto simp: nodes_ok_def inj_on_def)
  have 1: "destroy_nodes (first_free_node Q) h = Some (erase fs h)"
    using rep ok1 by (auto simp: queue_rep_def intro: destroy_nodes_erase)
  have ok2: "nodes_ok c (erase fs h) (gs @ ds)" by (rule nodes_ok_erase [OF ok])
  have ok3: "nodes_ok c (erase fs h) gs" using ok2 by (auto simp: nodes_ok_def inj_on_def)
  have l2: "chain (links (erase fs h)) p xs = chain (links h) p xs" if "xs = gs \<or> xs = ds" for p xs
    using that d by (intro chain_erase) auto
  have 2: "destroy_nodes (first_filled_node Q) (erase fs h) = Some (erase (fs @ gs) h)"
  proof -
    have "chain (links (erase fs h)) (first_filled_node Q) gs"
      using rep l2 by (simp add: queue_rep_def)
    from destroy_nodes_erase [OF this ok3] erase_append [of fs gs h] d show ?thesis by auto
  qed
  show ?thesis
  proof (cases ds)
    case Nil
    with rep have "detached_node Q = None" by (simp add: queue_rep_def)
    with Nil Q 1 2 show ?thesis by (simp add: destroy_queue_def free_queue_def others_def)
  next
    case (Cons x xs)
    with rep have x: "ds = [x]" "detached_node Q = Some x" by (auto simp: queue_rep_def)
    have "nodes_ok c (erase (fs @ gs) h) ds" using nodes_ok_erase [of c h "fs @ gs" ds] ok by simp
    then have "node_ok c (erase (fs @ gs) h) x" by (simp add: nodes_ok_def x)
    from free_one_node [OF this] obtain n h1 where "nodes (erase (fs @ gs) h) x = Some n"
      "free_buf (nd_buffer n) (erase (fs @ gs) h) = Some h1"
      "free_node (Some x) h1 = Some (erase [x] (erase (fs @ gs) h))" by blast
    moreover have "erase [x] (erase (fs @ gs) h) = erase (fs @ gs @ ds) h"
      using erase_append [of "fs @ gs" "[x]" h] d by (simp add: x)
    ultimately show ?thesis using x Q 1 2
      by (simp add: destroy_queue_def read_node_def free_queue_def others_def)
  qed
qed

end
