(* ===== verification/Queue_Protocol.thy ===== *)
theory Queue_Protocol
  imports Queue_Lifecycle "HOL-Library.Sublist"
begin

text \<open>
  The queue as its clients use it.  The locale \<open>block_queue\<close> is the interface the producer
  (\<open>dsp_worker_process\<close>) and the consumer (the worker thread of \<open>dsp_worker.c\<close>) rely on; it is
  interpreted on the heap operations of \<open>queue.c\<close>.  The second half runs the two threads: their
  critical sections interleave in any order, a waiting consumer may wake spuriously, and the
  reachable states satisfy the queue's contract.
\<close>

subsection \<open>Scripts of calls\<close>

datatype queue_op = Put "u8 list" | Take | Complete | Interrupt

fun spec_run :: "queue_op list \<Rightarrow> frames \<Rightarrow> (spec_answer list \<times> frames) option" where
  "spec_run [] S = Some ([], S)"
| "spec_run (Put xs # ops) S = Option.bind (spec_put xs S) (spec_run ops)"
| "spec_run (Take # ops) S =
     (if fq_held S \<noteq> None then None
      else case spec_take S of (ans, S') \<Rightarrow>
        map_option (map_prod ((#) ans) id) (spec_run ops S'))"
| "spec_run (Complete # ops) S = (if fq_held S = None then None else spec_run ops (spec_complete S))"
| "spec_run (Interrupt # ops) S = spec_run ops (spec_interrupt S)"

fun impl_run :: "(u8 list \<Rightarrow> 's \<Rightarrow> 's option) \<Rightarrow> ('s \<Rightarrow> (spec_answer \<times> 's) option) \<Rightarrow> ('s \<Rightarrow> 's option)
    \<Rightarrow> ('s \<Rightarrow> 's option) \<Rightarrow> queue_op list \<Rightarrow> 's \<Rightarrow> (spec_answer list \<times> 's) option" where
  "impl_run put tk cmp intr [] s = Some ([], s)"
| "impl_run put tk cmp intr (Put xs # ops) s = Option.bind (put xs s) (impl_run put tk cmp intr ops)"
| "impl_run put tk cmp intr (Take # ops) s =
     Option.bind (tk s) (\<lambda>(ans, s'). map_option (map_prod ((#) ans) id) (impl_run put tk cmp intr ops s'))"
| "impl_run put tk cmp intr (Complete # ops) s = Option.bind (cmp s) (impl_run put tk cmp intr ops)"
| "impl_run put tk cmp intr (Interrupt # ops) s = Option.bind (intr s) (impl_run put tk cmp intr ops)"

text \<open>
  The consumer's loop: take a block, process it (here: note its bytes), give it back; stop on the
  \<open>NULL\<close> buffer.  \<open>None\<close> when \<open>fuel\<close> iterations do not reach it, or the consumer would block.
\<close>

fun consume :: "('s \<Rightarrow> (spec_answer \<times> 's) option) \<Rightarrow> ('s \<Rightarrow> 's option) \<Rightarrow> nat \<Rightarrow> 's
    \<Rightarrow> (u8 list list \<times> 's) option" where
  "consume tk cmp 0 s = None"
| "consume tk cmp (Suc fuel) s =
     (case tk s of
        None \<Rightarrow> None
      | Some (Wait, s') \<Rightarrow> None
      | Some (Nothing, s') \<Rightarrow> Some ([], s')
      | Some (Block xs, s') \<Rightarrow>
          Option.bind (cmp s') (\<lambda>s''. map_option (map_prod ((#) xs) id) (consume tk cmp fuel s'')))"

subsection \<open>The interface\<close>

locale block_queue =
  fixes R :: "'s \<Rightarrow> frames \<Rightarrow> bool"
    and cap :: nat
    and put :: "u8 list \<Rightarrow> 's \<Rightarrow> 's option"
    and tk :: "'s \<Rightarrow> (spec_answer \<times> 's) option"
    and cmp :: "'s \<Rightarrow> 's option"
    and intr :: "'s \<Rightarrow> 's option"
  assumes put_law: "R s S \<Longrightarrow> length xs \<le> cap \<Longrightarrow> spec_put xs S = Some S' \<Longrightarrow>
      \<exists>s'. put xs s = Some s' \<and> R s' S'"
    and take_law: "R s S \<Longrightarrow> fq_held S = None \<Longrightarrow> spec_take S = (ans, S') \<Longrightarrow>
      \<exists>s'. tk s = Some (ans, s') \<and> R s' S'"
    and complete_law: "R s S \<Longrightarrow> fq_held S \<noteq> None \<Longrightarrow> \<exists>s'. cmp s = Some s' \<and> R s' (spec_complete S)"
    and interrupt_law: "R s S \<Longrightarrow> \<exists>s'. intr s = Some s' \<and> R s' (spec_interrupt S)"
begin

lemma run_refines:
  assumes "R s S" "spec_run ops S = Some (ans, S')" "\<And>xs. Put xs \<in> set ops \<Longrightarrow> length xs \<le> cap"
  shows "\<exists>s'. impl_run put tk cmp intr ops s = Some (ans, s') \<and> R s' S'"
  using assms
proof (induction ops S arbitrary: s ans rule: spec_run.induct)
  case (1 S)
  then show ?case by auto
next
  case (2 xs ops S)
  from 2(3) obtain S1 where S1: "spec_put xs S = Some S1" "spec_run ops S1 = Some (ans, S')"
    by (auto simp: bind_eq_Some_conv)
  from put_law [OF 2(2) _ S1(1)] 2(4) obtain s1 where s1: "put xs s = Some s1" "R s1 S1" by auto
  from 2(1) [OF S1(1) s1(2) S1(2)] 2(4) s1(1) show ?case by auto
next
  case (3 ops S)
  obtain a S1 where S1: "spec_take S = (a, S1)" by (cases "spec_take S")
  from 3(3) S1 obtain as where h: "fq_held S = None" and as: "spec_run ops S1 = Some (as, S')" "ans = a # as"
    by (auto split: if_splits)
  from take_law [OF 3(2) h S1] obtain s1 where s1: "tk s = Some (a, s1)" "R s1 S1" by auto
  from 3(1) [OF _ S1 [symmetric] s1(2) as(1)] 3(4) s1(1) h as(2) show ?case by auto
next
  case (4 ops S)
  then have h: "fq_held S \<noteq> None" by (auto split: if_splits)
  from complete_law [OF 4(2) h] obtain s1 where s1: "cmp s = Some s1" "R s1 (spec_complete S)" by auto
  from 4(1) [OF h s1(2)] 4(3,4) h s1(1) show ?case by auto
next
  case (5 ops S)
  from interrupt_law [OF 5(2)] obtain s1 where s1: "intr s = Some s1" "R s1 (spec_interrupt S)" by auto
  from 5(1) [OF s1(2)] 5(3,4) s1(1) show ?case by auto
qed

text \<open>After the poison pill the consumer receives every filled block, then the \<open>NULL\<close> buffer.\<close>

lemma consume_drains:
  assumes "R s S" "fq_held S = None" "fq_poison S" "length (fq_filled S) < fuel"
  shows "\<exists>s'. consume tk cmp fuel s = Some (fq_filled S, s') \<and>
    R s' (S\<lparr>fq_free := fq_free S + length (fq_filled S), fq_filled := []\<rparr>)"
  using assms
proof (induction fuel arbitrary: s S)
  case 0
  then show ?case by simp
next
  case (Suc fuel)
  show ?case
  proof (cases "fq_filled S")
    case Nil
    then have "spec_take S = (Nothing, S)" using Suc.prems by (simp add: spec_take_def)
    moreover have "S\<lparr>fq_filled := []\<rparr> = S" using Nil by (cases S) simp
    ultimately obtain s' where "tk s = Some (Nothing, s')" "R s' (S\<lparr>fq_filled := []\<rparr>)"
      using take_law [OF Suc.prems(1,2), of Nothing S] by metis
    with Nil show ?thesis by auto
  next
    case (Cons x xs)
    let ?S1 = "S\<lparr>fq_filled := xs, fq_held := Some x\<rparr>"
    have "spec_take S = (Block x, ?S1)" using Cons by (simp add: spec_take_def)
    from take_law [OF Suc.prems(1,2) this] obtain s1 where s1: "tk s = Some (Block x, s1)" "R s1 ?S1"
      by blast
    from complete_law [OF s1(2)] obtain s2 where s2: "cmp s1 = Some s2" "R s2 (spec_complete ?S1)" by auto
    from Suc.IH [OF s2(2)] Suc.prems Cons obtain s3 where
      "consume tk cmp fuel s2 = Some (xs, s3)"
      "R s3 (S\<lparr>fq_held := None, fq_free := Suc (fq_free S + length xs), fq_filled := []\<rparr>)"
      by (auto simp: spec_complete_def)
    moreover have "S\<lparr>fq_held := None, fq_free := n, fq_filled := []\<rparr> =
        S\<lparr>fq_free := n, fq_filled := []\<rparr>" for n
      using Suc.prems(2) by (cases S) simp
    ultimately have "R s3 (S\<lparr>fq_free := Suc (fq_free S + length xs), fq_filled := []\<rparr>)" by metis
    with \<open>consume tk cmp fuel s2 = Some (xs, s3)\<close> s1 s2 Cons show ?thesis by auto
  qed
qed

end

subsection \<open>\<open>queue.c\<close> provides the interface\<close>

text \<open>What a consumer that reads the block right away gets from \<open>take_buffer_for_processing\<close>.\<close>

fun read_answer :: "heap \<Rightarrow> take_result \<Rightarrow> spec_answer option" where
  "read_answer h Must_wait = Some Wait"
| "read_answer h Null_buffer = Some Nothing"
| "read_answer h (Buffer b n) =
     (case bufs h b of None \<Rightarrow> None
      | Some bs \<Rightarrow> if n \<le> length bs then Some (Block (take n bs)) else None)"

definition take_block :: "nat \<Rightarrow> heap \<Rightarrow> (spec_answer \<times> heap) option" where
  "take_block q h = do {
     (r, h') \<leftarrow> take_buffer_for_processing q h;
     ans \<leftarrow> read_answer h' r;
     Some (ans, h') }"

definition put_block :: "nat \<Rightarrow> u8 list \<Rightarrow> heap \<Rightarrow> heap option" where
  "put_block q xs h = queue_put xs (length xs) q h"

definition interrupt_queue :: "nat \<Rightarrow> heap \<Rightarrow> heap option" where
  "interrupt_queue q h = interrupt_waiting_the_data (Some q) h"

lemma answer_read: "answer_rel h r ans \<Longrightarrow> read_answer h r = Some ans"
  by (cases "(h, r, ans)" rule: answer_rel.cases) (auto split: option.splits)

interpretation hq: block_queue "queue_rel c q" c "put_block q" "take_block q"
  "complete_buffer_processing q" "interrupt_queue q" for c q
proof unfold_locales
  fix s :: heap and S S' :: frames and xs
  assume "queue_rel c q s S" "length xs \<le> c" "spec_put xs S = Some S'"
  then show "\<exists>s'. put_block q xs s = Some s' \<and> queue_rel c q s' S'"
    unfolding put_block_def by (rule queue_put_sim)
next
  fix s :: heap and S S' :: frames and ans
  assume "queue_rel c q s S" "fq_held S = None" "spec_take S = (ans, S')"
  from take_sim [OF this] show "\<exists>s'. take_block q s = Some (ans, s') \<and> queue_rel c q s' S'"
    by (auto simp: take_block_def dest: answer_read)
next
  fix s :: heap and S :: frames
  assume "queue_rel c q s S"
  then show "\<exists>s'. interrupt_queue q s = Some s' \<and> queue_rel c q s' (spec_interrupt S)"
    unfolding interrupt_queue_def by (rule interrupt_sim)
qed (rule complete_sim)

subsection \<open>Producer and consumer interleaved\<close>

text \<open>
  \<open>Waiting w\<close> is the consumer inside \<open>pthread_cond_wait\<close>; \<open>w\<close> says that a broadcast reached it
  since it went to sleep.  \<open>Holding b n\<close> is the consumer working on \<open>n\<close> bytes of buffer \<open>b\<close>
  outside the mutex.  \<open>qs_seen\<close> records the bytes the consumer finds in the buffer when it is done
  with it, read from the heap at that moment, not when the block was handed out.  \<open>qs_puts\<close> is the
  history of the blocks produced and \<open>qs_lost\<close> counts the puts that found the queue full.
\<close>

datatype consumer = Outside | Waiting bool | Holding nat nat | Stopped

record qsys =
  qs_heap :: heap
  qs_cons :: consumer
  qs_puts :: "u8 list list"
  qs_seen :: "u8 list list"
  qs_lost :: nat

fun after_take :: "take_result \<Rightarrow> consumer" where
  "after_take Must_wait = Waiting False"
| "after_take Null_buffer = Stopped"
| "after_take (Buffer b n) = Holding b n"

fun broadcast :: "consumer \<Rightarrow> consumer" where
  "broadcast (Waiting w) = Waiting True"
| "broadcast k = k"

inductive qstep :: "nat \<Rightarrow> nat \<Rightarrow> qsys \<Rightarrow> qsys \<Rightarrow> bool" for c q where
  put: "length xs \<le> c \<Longrightarrow> queues (qs_heap s) q = Some Q \<Longrightarrow>
    queue_put xs (length xs) q (qs_heap s) = Some h' \<Longrightarrow>
    qstep c q s (s\<lparr>qs_heap := h', qs_cons := broadcast (qs_cons s), qs_puts := qs_puts s @ [xs],
      qs_lost := qs_lost s + of_bool (first_free_node Q = None)\<rparr>)"
| take: "qs_cons s = Outside \<or> (\<exists>w. qs_cons s = Waiting w) \<Longrightarrow>
    take_buffer_for_processing q (qs_heap s) = Some (r, h') \<Longrightarrow>
    qstep c q s (s\<lparr>qs_heap := h', qs_cons := after_take r\<rparr>)"
| complete: "qs_cons s = Holding b n \<Longrightarrow> bufs (qs_heap s) b = Some bs \<Longrightarrow>
    complete_buffer_processing q (qs_heap s) = Some h' \<Longrightarrow>
    qstep c q s (s\<lparr>qs_heap := h', qs_cons := Outside, qs_seen := qs_seen s @ [take n bs]\<rparr>)"
| interrupt: "interrupt_waiting_the_data (Some q) (qs_heap s) = Some h' \<Longrightarrow>
    qstep c q s (s\<lparr>qs_heap := h', qs_cons := broadcast (qs_cons s)\<rparr>)"

inductive_cases qstepE [elim]: "qstep c q s s'"

text \<open>The system starts with the queue \<open>create_queue\<close> returned, both threads outside of it.\<close>

definition qstart :: "nat \<Rightarrow> nat \<Rightarrow> nat \<Rightarrow> heap \<Rightarrow> qsys \<Rightarrow> bool" where
  "qstart c q n h0 s \<longleftrightarrow> fresh_heap h0 \<and>
     (\<exists>A bsz. create_queue A bsz (int n) h0 = Some ((0, Some q), qs_heap s) \<and> c = unat bsz) \<and>
     qs_cons s = Outside \<and> qs_puts s = [] \<and> qs_seen s = [] \<and> qs_lost s = 0"

inductive qreach :: "nat \<Rightarrow> nat \<Rightarrow> nat \<Rightarrow> heap \<Rightarrow> qsys \<Rightarrow> bool" for c q n h0 where
  start: "qstart c q n h0 s \<Longrightarrow> qreach c q n h0 s"
| step: "qreach c q n h0 s \<Longrightarrow> qstep c q s s' \<Longrightarrow> qreach c q n h0 s'"

subsection \<open>The invariant of the interleaved system\<close>

fun holds :: "heap \<Rightarrow> consumer \<Rightarrow> nat list \<Rightarrow> bool" where
  "holds h (Holding b l) ds \<longleftrightarrow> (\<exists>d. ds = [d] \<and> buf_of h d = Some b \<and> l = length (content h d))"
| "holds h k ds \<longleftrightarrow> ds = []"

lemma holds_simps [simp]:
  "holds h (broadcast k) ds = holds h k ds"
  "broadcast k \<noteq> Waiting False"
  "holds (write_queue q Q h) k ds = holds h k ds"
  by (cases k; simp)+

definition qinv_at :: "nat \<Rightarrow> nat \<Rightarrow> nat \<Rightarrow> heap \<Rightarrow> qsys \<Rightarrow> queue_t \<Rightarrow> nat list \<Rightarrow> nat list \<Rightarrow> nat list \<Rightarrow> bool" where
  "qinv_at c q n h0 s Q fs gs ds \<longleftrightarrow>
     queues h0 q = None \<and> queues (qs_heap s) = (queues h0)(q \<mapsto> Q) \<and>
     others (fs @ gs @ ds) (qs_heap s) = (nodes h0, bufs h0) \<and> queue_rep c (qs_heap s) Q fs gs ds \<and>
     length fs + length gs + length ds = n \<and>
     holds (qs_heap s) (qs_cons s) ds \<and>
     (qs_cons s = Waiting False \<longrightarrow> gs = [] \<and> poison_pill Q \<noteq> 1) \<and>
     subseq (qs_seen s @ map (content (qs_heap s)) (ds @ gs)) (qs_puts s) \<and>
     length (qs_puts s) = length (qs_seen s) + length ds + length gs + qs_lost s \<and>
     (gs \<noteq> [] \<longrightarrow> qs_puts s \<noteq> [] \<and> content (qs_heap s) (last gs) = last (qs_puts s))"

definition qinv :: "nat \<Rightarrow> nat \<Rightarrow> nat \<Rightarrow> heap \<Rightarrow> qsys \<Rightarrow> bool" where
  "qinv c q n h0 s \<longleftrightarrow> (\<exists>Q fs gs ds. qinv_at c q n h0 s Q fs gs ds)"

lemma qinvI: "qinv_at c q n h0 s Q fs gs ds \<Longrightarrow> qinv c q n h0 s"
  by (auto simp: qinv_def)

lemma subseq_put_contents:
  assumes "subseq (as @ cs) ps"
  shows "subseq (as @ put_contents xs fs cs) (ps @ [xs])"
proof -
  have "subseq (as @ butlast cs) (as @ cs)"
    by (cases cs rule: rev_cases) (auto intro: list_emb_append_mono)
  with assms have "subseq (as @ butlast cs) ps" by (rule subseq_order.trans [rotated])
  with assms have "subseq ((as @ (if fs = [] then butlast cs else cs)) @ [xs]) (ps @ [xs])"
    by (intro list_emb_append_mono) auto
  then show ?thesis by (simp add: put_contents_def)
qed

lemma queue_put_nothing:
  assumes "queues h q = Some Q" "queue_rep c h Q [] [] ds"
  shows "queue_put xs l q h = None"
  using assms by (auto simp: queue_put_def pick_node_def queue_rep_def read_node_def)

lemma first_free_None_iff: "queue_rep c h Q fs gs ds \<Longrightarrow> first_free_node Q = None \<longleftrightarrow> fs = []"
  by (auto simp: queue_rep_def dest: chain_next_None_iff)

lemma last_put_contents:
  assumes "map f gs' = put_contents xs fs cs"
  shows "gs' \<noteq> []" "f (last gs') = xs"
proof -
  from assms show ne: "gs' \<noteq> []" by (auto simp: put_contents_def)
  from assms have "last (map f gs') = xs" by (simp add: put_contents_def)
  with ne show "f (last gs') = xs" by (simp add: last_map)
qed

lemma qinv_put:
  assumes inv: "qinv_at c q n h0 s Q fs gs ds" and len: "length xs \<le> c"
    and put: "queue_put xs (length xs) q (qs_heap s) = Some h'"
  shows "\<exists>Q' fs' gs'. qinv_at c q n h0 (s\<lparr>qs_heap := h', qs_cons := broadcast (qs_cons s),
      qs_puts := qs_puts s @ [xs],
      qs_lost := qs_lost s + of_bool (first_free_node Q = None)\<rparr>) Q' fs' gs' ds"
proof -
  from inv have Q: "queues (qs_heap s) q = Some Q" and rep: "queue_rep c (qs_heap s) Q fs gs ds"
    by (simp_all add: qinv_at_def)
  have room: "fs \<noteq> [] \<or> gs \<noteq> []" using put queue_put_nothing [OF Q] rep by fastforce
  obtain fs' gs' where pl: "put_lists fs gs = (fs', gs')" by (cases "put_lists fs gs")
  from queue_put_rep [OF Q rep len room] pl put obtain Q' where h':
    "queues h' = (queues (qs_heap s))(q \<mapsto> Q')" "queue_rep c h' Q' fs' gs' ds" "poison_pill Q' = poison_pill Q"
    "map (content h') gs' = put_contents xs fs (map (content (qs_heap s)) gs)"
    "map (content h') ds = map (content (qs_heap s)) ds" "buf_of h' = buf_of (qs_heap s)"
    "\<forall>as. set fs \<union> set gs \<subseteq> set as \<longrightarrow> others as h' = others as (qs_heap s)" by auto
  then have same: "others (fs @ gs @ ds) h' = others (fs @ gs @ ds) (qs_heap s)"
    by (auto dest!: spec [of _ "fs @ gs @ ds"])
  have "others (fs' @ gs' @ ds) h' = others (fs @ gs @ ds) h'"
    using pl by (intro others_cong) (auto simp: put_lists_def split: list.splits)
  then have base: "queues h0 q = None" "queues h' = (queues h0)(q \<mapsto> Q')"
    "others (fs' @ gs' @ ds) h' = (nodes h0, bufs h0)"
    using inv h'(1) same unfolding qinv_at_def by auto
  have "subseq ((qs_seen s @ map (content (qs_heap s)) ds) @ map (content (qs_heap s)) gs) (qs_puts s)"
    using inv by (simp add: qinv_at_def)
  from subseq_put_contents [OF this, of xs fs] h'(4,5)
  have sub: "subseq (qs_seen s @ map (content h') (ds @ gs')) (qs_puts s @ [xs])"
    by (simp only: map_append append_assoc)
  have "holds h' (qs_cons s) ds" if "holds (qs_heap s) (qs_cons s) ds"
    using that h'(5,6) by (cases "qs_cons s") auto
  then have held: "holds h' (qs_cons s) ds" using inv by (simp add: qinv_at_def)
  have lens: "length fs' + length gs' = length fs + length gs"
    "length gs' + of_bool (fs = []) = Suc (length gs)"
    using pl by (auto simp: put_lists_def split: list.splits)
  from inv have n: "length fs + length gs + length ds = n"
    and count: "length (qs_puts s) = length (qs_seen s) + length ds + length gs + qs_lost s"
    by (simp_all add: qinv_at_def)
  have "qinv_at c q n h0 (s\<lparr>qs_heap := h', qs_cons := broadcast (qs_cons s),
      qs_puts := qs_puts s @ [xs],
      qs_lost := qs_lost s + of_bool (first_free_node Q = None)\<rparr>) Q' fs' gs' ds"
    unfolding qinv_at_def
    using base h'(2) held sub lens n count last_put_contents [OF h'(4)] first_free_None_iff [OF rep]
    by simp
  then show ?thesis by blast
qed

lemma qinv_take:
  assumes inv: "qinv_at c q n h0 s Q fs gs ds"
    and idle: "qs_cons s = Outside \<or> (\<exists>w. qs_cons s = Waiting w)"
    and take: "take_buffer_for_processing q (qs_heap s) = Some (r, h')"
  shows "qinv c q n h0 (s\<lparr>qs_heap := h', qs_cons := after_take r\<rparr>)"
proof -
  from inv idle have Q: "queues (qs_heap s) q = Some Q" and rep: "queue_rep c (qs_heap s) Q fs gs []"
    and ds: "ds = []" by (auto simp: qinv_at_def)
  show ?thesis
  proof (cases gs)
    case Nil
    with rep have "first_filled_node Q = None" by (simp add: queue_rep_def)
    with take Q have "h' = qs_heap s \<and> (r = Null_buffer \<or> r = Must_wait \<and> poison_pill Q \<noteq> 1)"
      by (auto simp: take_buffer_for_processing_def split: if_splits)
    with inv Nil ds show ?thesis
      by (intro qinvI [of c q n h0 _ Q fs "[]" "[]"]) (auto simp: qinv_at_def)
  next
    case (Cons a gs')
    from take_filled [OF Q rep [unfolded Cons]] take obtain b Q' where r:
      "r = Buffer b (length (content (qs_heap s) a))" "queues h' = (queues (qs_heap s))(q \<mapsto> Q')"
      "\<forall>as. a \<in> set as \<longrightarrow> others as h' = others as (qs_heap s)"
      "queue_rep c h' Q' fs gs' [a]" "content h' = content (qs_heap s)" "buf_of h' a = Some b" by auto
    moreover have "others (fs @ gs' @ [a]) h' = others (fs @ gs @ ds) h'"
      using Cons ds by (intro others_cong) auto
    moreover have "others (fs @ gs @ ds) h' = others (fs @ gs @ ds) (qs_heap s)"
      using Cons calculation by simp
    ultimately show ?thesis using inv Cons ds
      by (intro qinvI [of c q n h0 _ Q' fs gs' "[a]"]) (auto simp: qinv_at_def split: if_splits)
  qed
qed

text \<open>The bytes under the handed-out pointer are still those of the detached block.\<close>

lemma held_bytes:
  assumes "node_ok c h d" "buf_of h d = Some b" "bufs h b = Some bs"
  shows "take (length (content h d)) bs = content h d"
  using assms by (auto elim!: node_okE)

lemma qinv_complete:
  assumes inv: "qinv_at c q n h0 s Q fs gs ds" and held: "qs_cons s = Holding b l"
    and bs: "bufs (qs_heap s) b = Some bs"
    and comp: "complete_buffer_processing q (qs_heap s) = Some h'"
  shows "qinv c q n h0 (s\<lparr>qs_heap := h', qs_cons := Outside, qs_seen := qs_seen s @ [take l bs]\<rparr>)"
proof -
  from inv held obtain d where d: "ds = [d]" "buf_of (qs_heap s) d = Some b"
    "l = length (content (qs_heap s) d)" by (auto simp: qinv_at_def)
  from inv d have Q: "queues (qs_heap s) q = Some Q" and rep: "queue_rep c (qs_heap s) Q fs gs [d]"
    by (simp_all add: qinv_at_def)
  have "take l bs = content (qs_heap s) d"
    using held_bytes [OF queue_rep_ok [OF rep] d(2) bs] d(3) by simp
  moreover from complete_rep [OF Q rep] comp obtain Q' where "queues h' = (queues (qs_heap s))(q \<mapsto> Q')"
    "queue_rep c h' Q' (fs @ [d]) gs []" "content h' = content (qs_heap s)"
    "\<forall>as. set fs \<subseteq> set as \<longrightarrow> others as h' = others as (qs_heap s)" by auto
  moreover from this(4) have "others (fs @ gs @ ds) h' = others (fs @ gs @ ds) (qs_heap s)" by simp
  moreover have "others ((fs @ [d]) @ gs @ []) h' = others (fs @ gs @ ds) h'"
    using d by (intro others_cong) auto
  ultimately show ?thesis
    using inv d by (intro qinvI [of c q n h0 _ Q' "fs @ [d]" gs "[]"]) (auto simp: qinv_at_def)
qed

lemma qinv_interrupt:
  assumes inv: "qinv_at c q n h0 s Q fs gs ds"
    and intr: "interrupt_waiting_the_data (Some q) (qs_heap s) = Some h'"
  shows "qinv c q n h0 (s\<lparr>qs_heap := h', qs_cons := broadcast (qs_cons s)\<rparr>)"
proof -
  let ?Q = "Q\<lparr>poison_pill := 1\<rparr>"
  from inv intr have h': "h' = write_queue q ?Q (qs_heap s)"
    by (auto simp: qinv_at_def interrupt_waiting_the_data_def)
  with inv show ?thesis
    by (intro qinvI [of c q n h0 _ ?Q fs gs ds])
      (auto simp: qinv_at_def queue_rep_def split: consumer.splits)
qed

lemma qstep_inv:
  assumes "qstep c q s s'" "qinv c q n h0 s"
  shows "qinv c q n h0 s'"
proof -
  from assms(2) obtain Q fs gs ds where inv: "qinv_at c q n h0 s Q fs gs ds" by (auto simp: qinv_def)
  then have Q: "queues (qs_heap s) q = Some Q" by (simp add: qinv_at_def)
  from assms(1) show ?thesis
  proof cases
    case (put xs Q1 h')
    with Q have "Q1 = Q" by simp
    with qinv_put [OF inv put(2,4)] put(1) show ?thesis by (auto intro: qinvI)
  next
    case (take r h')
    with qinv_take [OF inv] show ?thesis by auto
  next
    case (complete b l bs h')
    with qinv_complete [OF inv] show ?thesis by auto
  next
    case (interrupt h')
    with qinv_interrupt [OF inv] show ?thesis by auto
  qed
qed

lemma qstart_inv: "qstart c q n h0 s \<Longrightarrow> qinv c q n h0 s"
proof -
  assume st: "qstart c q n h0 s"
  then obtain A bsz where fresh: "fresh_heap h0"
    and cr: "create_queue A bsz (int n) h0 = Some ((0, Some q), qs_heap s)" "c = unat bsz"
    by (auto simp: qstart_def)
  from create_queue_cases [OF fresh, of A bsz "int n"] cr obtain as Q where
    "length as = n" "queues (qs_heap s) = (queues h0)(q \<mapsto> Q)" "queues h0 q = None"
    "others as (qs_heap s) = (nodes h0, bufs h0)" "queue_rep c (qs_heap s) Q as [] []"
    by (auto split: if_splits)
  with st show "qinv c q n h0 s"
    by (intro qinvI [of c q n h0 s Q as "[]" "[]"]) (auto simp: qinv_at_def qstart_def)
qed

lemma qreach_inv: "qreach c q n h0 s \<Longrightarrow> qinv c q n h0 s"
  by (induction rule: qreach.induct) (auto intro: qstart_inv qstep_inv)

end
