(* ===== verification/Queue_Properties.thy ===== *)
theory Queue_Properties
  imports Queue_Protocol
begin

text \<open>
  The properties of \<open>queue.c\<close>, for the queue \<open>create_queue\<close> returns and every interleaving of the
  producer's and the consumer's critical sections, with the concrete runs that witness them.
\<close>

subsection \<open>An executable scheduler\<close>

text \<open>\<open>qexec\<close> performs one named step; its runs are runs of \<open>qstep\<close>.\<close>

fun qexec :: "nat \<Rightarrow> nat \<Rightarrow> queue_op \<Rightarrow> qsys \<Rightarrow> qsys option" where
  "qexec c q (Put xs) s =
     (if length xs \<le> c then do {
        Q \<leftarrow> queues (qs_heap s) q;
        h' \<leftarrow> queue_put xs (length xs) q (qs_heap s);
        Some (s\<lparr>qs_heap := h', qs_cons := broadcast (qs_cons s), qs_puts := qs_puts s @ [xs],
          qs_lost := qs_lost s + of_bool (first_free_node Q = None)\<rparr>) }
      else None)"
| "qexec c q Take s =
     (case qs_cons s of
        Holding b n \<Rightarrow> None
      | Stopped \<Rightarrow> None
      | _ \<Rightarrow> do {
        (r, h') \<leftarrow> take_buffer_for_processing q (qs_heap s);
        Some (s\<lparr>qs_heap := h', qs_cons := after_take r\<rparr>) })"
| "qexec c q Complete s =
     (case qs_cons s of
        Holding b n \<Rightarrow> do {
          bs \<leftarrow> bufs (qs_heap s) b;
          h' \<leftarrow> complete_buffer_processing q (qs_heap s);
          Some (s\<lparr>qs_heap := h', qs_cons := Outside, qs_seen := qs_seen s @ [take n bs]\<rparr>) }
      | _ \<Rightarrow> None)"
| "qexec c q Interrupt s = do {
     h' \<leftarrow> interrupt_waiting_the_data (Some q) (qs_heap s);
     Some (s\<lparr>qs_heap := h', qs_cons := broadcast (qs_cons s)\<rparr>) }"

fun qrun :: "nat \<Rightarrow> nat \<Rightarrow> queue_op list \<Rightarrow> qsys \<Rightarrow> qsys option" where
  "qrun c q [] s = Some s"
| "qrun c q (x # xs) s = Option.bind (qexec c q x s) (qrun c q xs)"

lemma qexec_step: "qexec c q x s = Some s' \<Longrightarrow> qstep c q s s'"
  by (cases x)
    (auto simp: bind_eq_Some_conv split: if_splits consumer.splits
      intro: qstep.put qstep.take qstep.complete qstep.interrupt)

lemma qrun_reach: "qrun c q xs s = Some s' \<Longrightarrow> qreach c q n h0 s \<Longrightarrow> qreach c q n h0 s'"
  by (induction xs arbitrary: s)
    (auto simp: bind_eq_Some_conv dest: qexec_step intro: qreach.step)

definition demo_alloc :: allocator where
  "demo_alloc = \<lparr>alloc_ok = \<lambda>_. True, junk = \<lambda>_ _. 0\<rparr>"

definition no_heap :: heap where
  "no_heap = \<lparr>nodes = Map.empty, bufs = Map.empty, queues = Map.empty, brk = 0\<rparr>"

text \<open>A queue of \<open>n\<close> blocks of one byte in an otherwise empty heap.\<close>

definition demo_start :: "nat \<Rightarrow> qsys" where
  "demo_start n =
     \<lparr>qs_heap = (case create_queue demo_alloc 1 (int n) no_heap of None \<Rightarrow> no_heap | Some (r, h) \<Rightarrow> h),
      qs_cons = Outside, qs_puts = [], qs_seen = [], qs_lost = 0\<rparr>"

lemma fresh_no_heap: "fresh_heap no_heap"
  by (simp add: fresh_heap_def no_heap_def buf_of_def)

lemma demo_qstart: "qstart 1 0 2 no_heap (demo_start 2)"
proof -
  have "create_queue demo_alloc 1 (int 2) no_heap = Some ((0, Some 0), qs_heap (demo_start 2))"
    by (simp add: demo_start_def create_queue_def malloc_queue_def malloc_node_def malloc_buf_def
        write_node_def Let_def demo_alloc_def no_heap_def numeral_2_eq_2)
  moreover have "(1::nat) = unat (1::u32)" by simp
  moreover have "qs_cons (demo_start 2) = Outside" "qs_puts (demo_start 2) = []"
    "qs_seen (demo_start 2) = []" "qs_lost (demo_start 2) = 0" by (simp_all add: demo_start_def)
  ultimately show ?thesis using fresh_no_heap unfolding qstart_def by blast
qed

lemma demo_reach: "qrun 1 0 xs (demo_start 2) = Some s \<Longrightarrow> qreach 1 0 2 no_heap s"
  by (rule qrun_reach [OF _ qreach.start [OF demo_qstart]])

lemmas queue_eval = create_queue_def malloc_queue_def malloc_node_def malloc_buf_def write_node_def
  read_node_def write_queue_def copy_to_buf_def memcpy_def pick_node_def queue_put_def Let_def
  take_buffer_for_processing_def complete_buffer_processing_def interrupt_waiting_the_data_def
  free_node_def free_buf_def free_queue_def destroy_queue_def destroy_nodes.simps
  demo_start_def demo_alloc_def no_heap_def numeral_2_eq_2

text \<open>The state reached by a script from \<open>demo_start 2\<close>.\<close>

definition demo :: "queue_op list \<Rightarrow> qsys" where
  "demo xs = (case qrun 1 0 xs (demo_start 2) of None \<Rightarrow> demo_start 2 | Some s \<Rightarrow> s)"

lemma demo_qreach: "qreach 1 0 2 no_heap (demo xs)"
  using demo_reach [of xs] qreach.start [OF demo_qstart]
  by (cases "qrun 1 0 xs (demo_start 2)") (simp_all add: demo_def)

subsection \<open>Order and loss\<close>

text \<open>C1.  Order and loss.  In every interleaving of the producer's and the consumer's critical
  sections, from the queue \<open>create_queue\<close> returned, the blocks the consumer has finished are a
  subsequence of the blocks \<open>queue_put\<close> was given, in the same order and with their bytes intact;
  when \<open>queue_put\<close> never found the free list empty they are a prefix; and a block that is not with
  the consumer yet was either overwritten by a later put on a full queue or is one of the at most
  \<open>queue_size\<close> blocks stored.\<close>

theorem queue_fifo:
  assumes "qreach c q n h0 s"
  shows "subseq (qs_seen s) (qs_puts s) \<and> (qs_lost s = 0 \<longrightarrow> prefix (qs_seen s) (qs_puts s)) \<and>
    length (qs_puts s) \<le> length (qs_seen s) + qs_lost s + n"
proof -
  from qreach_inv [OF assms] obtain Q fs gs ds where inv: "qinv_at c q n h0 s Q fs gs ds"
    by (auto simp: qinv_def)
  then have sub: "subseq (qs_seen s @ map (content (qs_heap s)) (ds @ gs)) (qs_puts s)"
    and len: "length (qs_puts s) = length (qs_seen s) + length ds + length gs + qs_lost s"
    and n: "length fs + length gs + length ds = n" by (simp_all add: qinv_at_def)
  have all: "qs_seen s @ map (content (qs_heap s)) (ds @ gs) = qs_puts s" if "qs_lost s = 0"
    using subseq_same_length [OF sub] len that by simp
  have "subseq (qs_seen s) (qs_puts s)"
    using sub by (rule subseq_order.trans [rotated]) (rule list_emb_prefix, simp)
  moreover have "prefix (qs_seen s) (qs_puts s)" if "qs_lost s = 0"
    using all [OF that] by (metis prefixI)
  ultimately show ?thesis using len n by auto
qed

theorem queue_fifo_witness:
  "qs_seen (demo [Put [7], Put [8], Take, Complete, Put [9], Take, Complete]) = [[7], [8]] \<and>
   subseq [[7], [8]] [[7], [8], [9::u8]]"
proof -
  let ?s = "demo [Put [7], Put [8], Take, Complete, Put [9], Take, Complete]"
  have "qs_seen ?s = [[7], [8]]" "qs_puts ?s = [[7], [8], [9]]"
    by (simp_all add: demo_def queue_eval)
  with queue_fifo [OF demo_qreach, of "[Put [7], Put [8], Take, Complete, Put [9], Take, Complete]"]
  show ?thesis by simp
qed

subsection \<open>No step is undefined\<close>

text \<open>C17.  Memory safety.  With at least two blocks, no interleaving of the two threads
  reaches a state in which the next critical section dereferences \<open>NULL\<close> or freed memory or copies
  past a buffer: the producer may put any block that fits, the consumer may take when it holds
  nothing and complete when it holds a block, and anybody may interrupt.\<close>

theorem queue_two_blocks_never_undefined:
  assumes "qreach c q n h0 s" "2 \<le> n"
  shows "(\<forall>xs. length xs \<le> c \<longrightarrow> queue_put xs (length xs) q (qs_heap s) \<noteq> None) \<and>
    (qs_cons s = Outside \<or> (\<exists>w. qs_cons s = Waiting w) \<longrightarrow>
       take_buffer_for_processing q (qs_heap s) \<noteq> None) \<and>
    (\<forall>b l. qs_cons s = Holding b l \<longrightarrow> bufs (qs_heap s) b \<noteq> None \<and>
       complete_buffer_processing q (qs_heap s) \<noteq> None) \<and>
    interrupt_waiting_the_data (Some q) (qs_heap s) \<noteq> None"
proof -
  from qreach_inv [OF assms(1)] obtain Q fs gs ds where inv: "qinv_at c q n h0 s Q fs gs ds"
    by (auto simp: qinv_def)
  then have Q: "queues (qs_heap s) q = Some Q" and rep: "queue_rep c (qs_heap s) Q fs gs ds"
    and n: "length fs + length gs + length ds = n" and k: "holds (qs_heap s) (qs_cons s) ds"
    by (simp_all add: qinv_at_def)
  from rep have "length ds \<le> 1" by (simp add: queue_rep_def)
  with n assms(2) have room: "fs \<noteq> [] \<or> gs \<noteq> []" by auto
  have rel: "queue_rel c q (qs_heap s) (queue_abs (qs_heap s) Q fs gs ds)"
    by (rule queue_rel_here [OF Q rep refl])
  have "queue_put xs (length xs) q (qs_heap s) \<noteq> None" if "length xs \<le> c" for xs
    using queue_put_rep [OF Q rep that room] by auto
  moreover have "take_buffer_for_processing q (qs_heap s) \<noteq> None"
    if "qs_cons s = Outside \<or> (\<exists>w. qs_cons s = Waiting w)"
  proof -
    from that k have "ds = []" by auto
    with take_sim [OF rel] show ?thesis by (cases "spec_take (queue_abs (qs_heap s) Q fs gs ds)") auto
  qed
  moreover have "bufs (qs_heap s) b \<noteq> None \<and> complete_buffer_processing q (qs_heap s) \<noteq> None"
    if "qs_cons s = Holding b l" for b l
  proof -
    from that k obtain d where d: "ds = [d]" "buf_of (qs_heap s) d = Some b" by auto
    with queue_rep_ok [OF rep, of d] have "bufs (qs_heap s) b \<noteq> None" by (auto elim!: node_okE)
    with complete_rep [OF Q rep [unfolded d(1)]] show ?thesis by auto
  qed
  moreover from interrupt_sim [OF rel] have "interrupt_waiting_the_data (Some q) (qs_heap s) \<noteq> None"
    by auto
  ultimately show ?thesis by blast
qed

theorem queue_two_blocks_never_undefined_witness:
  "queue_put [9] 1 0 (qs_heap (demo [Put [7], Take, Put [8]])) \<noteq> None"
  using queue_two_blocks_never_undefined [OF demo_qreach, of "[Put [7], Take, Put [8]]"]
  by (auto dest!: spec [of _ "[9]"])

text \<open>The smallest queue.  A queue created with \<open>queue_size = 1\<close>, which
  \<open>create_server_config\<close> accepts, dereferences \<open>NULL\<close> as soon as the producer puts a block while
  the consumer processes the previous one: the free and the filled list are both empty, so
  \<open>to_fill\<close> is the \<open>NULL\<close> pointer \<open>last_filled_node\<close>.\<close>

theorem single_block_queue_crashes:
  assumes "fresh_heap h0" "\<And>k. k \<le> brk h0 + 2 \<Longrightarrow> alloc_ok A k" "length xs \<le> unat bsz"
  shows "\<exists>q h1 h2 b h3. create_queue A bsz 1 h0 = Some ((0, Some q), h1) \<and>
    queue_put xs (length xs) q h1 = Some h2 \<and>
    take_buffer_for_processing q h2 = Some (Buffer b (length xs), h3) \<and>
    (\<forall>ys len. queue_put ys len q h3 = None)"
proof -
  from create_queue_cases [OF assms(1), of A bsz 1] assms(2) obtain q h1 as Q1 where
    cr: "create_queue A bsz 1 h0 = Some ((0, Some q), h1)" and Q1: "queues h1 q = Some Q1"
    and rep: "queue_rep (unat bsz) h1 Q1 as [] []" and as: "length as = 1"
    by (auto split: if_splits)
  from as obtain a where a: "as = [a]" by (cases as) auto
  from queue_put_rep [OF Q1 rep assms(3)] obtain h2 Q2 where
    put: "queue_put xs (length xs) q h1 = Some h2" and Q2: "queues h2 q = Some Q2"
    and rep2: "queue_rep (unat bsz) h2 Q2 [] [a] []" and c: "content h2 a = xs"
    by (auto simp: a put_lists_def put_contents_def)
  from take_filled [OF Q2 rep2] c obtain b h3 Q3 where
    tk: "take_buffer_for_processing q h2 = Some (Buffer b (length xs), h3)"
    and Q3: "queues h3 q = Some Q3" "queue_rep (unat bsz) h3 Q3 [] [] [a]" by auto
  from queue_put_nothing [OF Q3] cr put tk show ?thesis by blast
qed

theorem single_block_queue_crashes_witness:
  "\<exists>q h1 h2 b h3. create_queue demo_alloc 1 1 no_heap = Some ((0, Some q), h1) \<and>
    queue_put [7] 1 q h1 = Some h2 \<and> take_buffer_for_processing q h2 = Some (Buffer b 1, h3) \<and>
    queue_put [8] 1 q h3 = None"
  using single_block_queue_crashes [OF fresh_no_heap, of demo_alloc "[7]" 1]
  by (fastforce simp: demo_alloc_def)

subsection \<open>The block being processed\<close>

lemma put_keeps_held:
  assumes "qreach c q n h0 s" "qs_cons s = Holding b l" "length xs \<le> c"
    "queue_put xs (length xs) q (qs_heap s) = Some h'"
  shows "bufs h' b = bufs (qs_heap s) b"
proof -
  from qreach_inv [OF assms(1)] obtain Q fs gs ds where inv: "qinv_at c q n h0 s Q fs gs ds"
    by (auto simp: qinv_def)
  then have Q: "queues (qs_heap s) q = Some Q" and rep: "queue_rep c (qs_heap s) Q fs gs ds"
    by (simp_all add: qinv_at_def)
  have room: "fs \<noteq> [] \<or> gs \<noteq> []" using assms(4) queue_put_nothing [OF Q] rep by fastforce
  from inv assms(2) obtain d where "ds = [d]" "buf_of (qs_heap s) d = Some b" by (auto simp: qinv_at_def)
  with queue_put_rep [OF Q rep assms(3) room] assms(4) show ?thesis by auto
qed

text \<open>Isolation of the detached block.  While the consumer processes a block outside of
  the mutex, no step of another thread writes its buffer, moves it or frees it; the pointer and the
  length the consumer got stay valid until it completes the block itself.\<close>

theorem held_block_untouched:
  assumes "qreach c q n h0 s" "qs_cons s = Holding b l" "qstep c q s s'" "qs_cons s' = Holding b' l'"
  shows "b' = b \<and> l' = l \<and> bufs (qs_heap s') b = bufs (qs_heap s) b \<and>
    (\<exists>bs. bufs (qs_heap s) b = Some bs \<and> l \<le> length bs)"
proof -
  from qreach_inv [OF assms(1)] obtain Q fs gs ds where inv: "qinv_at c q n h0 s Q fs gs ds"
    by (auto simp: qinv_def)
  with assms(2) obtain d where d: "ds = [d]" "buf_of (qs_heap s) d = Some b"
    "l = length (content (qs_heap s) d)" by (auto simp: qinv_at_def)
  have "node_ok c (qs_heap s) d" using inv d by (auto simp: qinv_at_def intro: queue_rep_ok)
  with d have "\<exists>bs. bufs (qs_heap s) b = Some bs \<and> l \<le> length bs" by (auto elim!: node_okE)
  moreover from assms(3) have "b' = b \<and> l' = l \<and> bufs (qs_heap s') b = bufs (qs_heap s) b"
  proof cases
    case (put xs Q1 h')
    with put_keeps_held [OF assms(1,2)] assms(2,4) show ?thesis by auto
  next
    case (interrupt h')
    with assms(2,4) show ?thesis
      by (auto simp: interrupt_waiting_the_data_def bind_eq_Some_conv)
  qed (use assms in auto)
  ultimately show ?thesis by blast
qed

theorem held_block_untouched_witness:
  "qs_cons (demo [Put [7], Take]) = Holding 2 1 \<and> bufs (qs_heap (demo [Put [7], Take])) 2 = Some [7] \<and>
   bufs (qs_heap (demo [Put [7], Take, Put [8]])) 2 = Some [7]"
proof -
  let ?s = "demo [Put [7], Take]" and ?s' = "demo [Put [7], Take, Put [8]]"
  have ex: "qexec 1 0 (Put [8]) ?s = Some ?s'" and k: "qs_cons ?s = Holding 2 1" "qs_cons ?s' = Holding 2 1"
    and b: "bufs (qs_heap ?s) 2 = Some [7]"
    by (simp_all add: demo_def queue_eval)
  from held_block_untouched [OF demo_qreach k(1) qexec_step [OF ex] k(2)] k b show ?thesis by simp
qed

subsection \<open>Waking up and stopping\<close>

text \<open>C30.  No lost wake-up.  A consumer that sleeps in \<open>pthread_cond_wait\<close> and has not been
  signalled since would, if it ran, only find an empty queue without the poison pill and wait again:
  every put and every interruption that concerns it broadcasts the condition.\<close>

theorem no_lost_wakeup:
  assumes "qreach c q n h0 s" "qs_cons s = Waiting False"
  shows "take_buffer_for_processing q (qs_heap s) = Some (Must_wait, qs_heap s)"
proof -
  from qreach_inv [OF assms(1)] assms(2) obtain Q fs ds where
    "queues (qs_heap s) q = Some Q" "queue_rep c (qs_heap s) Q fs [] ds" "poison_pill Q \<noteq> 1"
    by (auto simp: qinv_def qinv_at_def)
  then show ?thesis by (auto simp: take_buffer_for_processing_def queue_rep_def)
qed

theorem no_lost_wakeup_witness:
  "qs_cons (demo [Take]) = Waiting False \<and>
   take_buffer_for_processing 0 (qs_heap (demo [Take])) = Some (Must_wait, qs_heap (demo [Take]))"
proof -
  have k: "qs_cons (demo [Take]) = Waiting False" by (simp add: demo_def queue_eval)
  with no_lost_wakeup [OF demo_qreach k] show ?thesis by simp
qed

text \<open>C31.  Shutdown.  After \<open>interrupt_waiting_the_data\<close> the consumer's loop ends: with the
  producer stopped, at most \<open>queue_size + 1\<close> passes hand it every block still stored, in order, and
  then the \<open>NULL\<close> buffer; only blocks overwritten in a full queue are missing.\<close>

theorem interrupted_consumer_drains:
  assumes "qreach c q n h0 s" "qs_cons s = Outside \<or> (\<exists>w. qs_cons s = Waiting w)" "n < fuel"
  shows "\<exists>h1 blocks h2. interrupt_waiting_the_data (Some q) (qs_heap s) = Some h1 \<and>
    consume (take_block q) (complete_buffer_processing q) fuel h1 = Some (blocks, h2) \<and>
    subseq (qs_seen s @ blocks) (qs_puts s) \<and>
    length (qs_puts s) = length (qs_seen s) + length blocks + qs_lost s"
proof -
  from qreach_inv [OF assms(1)] obtain Q fs gs ds where inv: "qinv_at c q n h0 s Q fs gs ds"
    by (auto simp: qinv_def)
  with assms(2) have ds: "ds = []" by (auto simp: qinv_at_def)
  let ?h = "qs_heap s" and ?S = "queue_abs (qs_heap s) Q fs gs ds"
  from inv have rel: "queue_rel c q ?h ?S"
    by (intro queue_rel_here [of _ _ Q c fs gs ds]) (auto simp: qinv_at_def)
  from hq.interrupt_law [OF rel] obtain h1 where h1: "interrupt_queue q ?h = Some h1"
    "queue_rel c q h1 (spec_interrupt ?S)" by blast
  have "length gs < fuel" using inv assms(3) by (simp add: qinv_at_def)
  with hq.consume_drains [OF h1(2), of fuel] ds obtain h2 where
    "consume (take_block q) (complete_buffer_processing q) fuel h1 = Some (map (content ?h) gs, h2)"
    by (auto simp: spec_interrupt_def)
  with h1 inv ds show ?thesis by (auto simp: interrupt_queue_def qinv_at_def)
qed

theorem interrupted_consumer_drains_witness:
  "\<exists>h1 blocks h2. interrupt_waiting_the_data (Some 0) (qs_heap (demo [Put [7], Put [8]])) = Some h1 \<and>
    consume (take_block 0) (complete_buffer_processing 0) 3 h1 = Some (blocks, h2) \<and>
    subseq blocks [[7], [8]] \<and> length blocks = 2"
proof -
  let ?s = "demo [Put [7], Put [8]]"
  have s: "qs_cons ?s = Outside" "qs_seen ?s = []" "qs_puts ?s = [[7], [8]]" "qs_lost ?s = 0"
    by (simp_all add: demo_def queue_eval)
  from interrupted_consumer_drains [OF demo_qreach, of "[Put [7], Put [8]]" 3] s
  show ?thesis by auto
qed

subsection \<open>Memory\<close>

text \<open>Creation under a failing allocator.  When all \<open>2 * queue_size + 1\<close> allocations
  succeed, \<open>create_queue\<close> returns 0 and a queue that represents \<open>queue_size\<close> free blocks and nothing
  else; when any of them fails it returns \<open>-ENOMEM\<close>, writes no queue and gives back everything it
  had allocated.\<close>

theorem create_queue_all_or_nothing:
  assumes "fresh_heap h0"
  shows "\<exists>code p h. create_queue A bsz n h0 = Some ((code, p), h) \<and>
    (if \<forall>k. brk h0 \<le> k \<and> k \<le> brk h0 + 2 * nat n \<longrightarrow> alloc_ok A k
     then code = 0 \<and> (\<exists>q. p = Some q \<and> queue_rel (unat bsz) q h (new_frames (nat n)))
     else code = - ENOMEM \<and> p = None \<and> nodes h = nodes h0 \<and> bufs h = bufs h0 \<and> queues h = queues h0)"
proof -
  from create_queue_cases [OF assms, of A bsz n] obtain code p h where
    cr: "create_queue A bsz n h0 = Some ((code, p), h)"
    and post: "if \<forall>k. brk h0 \<le> k \<and> k \<le> brk h0 + 2 * nat n \<longrightarrow> alloc_ok A k
     then code = 0 \<and> (\<exists>q. p = Some q \<and> queues h0 q = None \<and> (\<exists>as. length as = nat n \<and>
            others as h = (nodes h0, bufs h0) \<and>
            (\<exists>Q. queues h = (queues h0)(q \<mapsto> Q) \<and> queue_rep (unat bsz) h Q as [] [] \<and>
               queue_abs h Q as [] [] = new_frames (nat n))))
     else code = - ENOMEM \<and> p = None \<and> nodes h = nodes h0 \<and> bufs h = bufs h0 \<and> queues h = queues h0"
    by blast
  have "queue_rel (unat bsz) q h (new_frames (nat n))"
    if "queues h = (queues h0)(q \<mapsto> Q)" "queue_rep (unat bsz) h Q as [] []"
      "queue_abs h Q as [] [] = new_frames (nat n)" for q Q as
    using that by (intro queue_rel_here [of h q Q _ as "[]" "[]"]) auto
  with cr post show ?thesis by (auto split: if_splits)
qed

theorem create_queue_all_or_nothing_witness:
  "\<exists>p h. create_queue \<lparr>alloc_ok = \<lambda>k. k < 3, junk = \<lambda>_ _. 0\<rparr> 4 2 no_heap = Some ((- ENOMEM, p), h) \<and>
    nodes h = Map.empty \<and> bufs h = Map.empty \<and> queues h = Map.empty"
proof -
  let ?A = "\<lparr>alloc_ok = \<lambda>k::nat. k < 3, junk = \<lambda>_ _. 0\<rparr>"
  have "\<not> (\<forall>k. brk no_heap \<le> k \<and> k \<le> brk no_heap + 2 * nat 2 \<longrightarrow> alloc_ok ?A k)"
    by (auto simp: no_heap_def intro!: exI [of _ 3])
  with create_queue_all_or_nothing [OF fresh_no_heap, of ?A 4 2] show ?thesis
    by (auto simp: no_heap_def split: if_splits)
qed

text \<open>Destruction.  From every reachable state, also with a block detached,
  \<open>destroy_queue\<close> frees each node, each buffer and the header exactly once and leaves the heap as it
  was before \<open>create_queue\<close>.\<close>

theorem destroy_queue_releases_everything:
  assumes "qreach c q n h0 s"
  shows "\<exists>h. destroy_queue q (qs_heap s) = Some h \<and>
    nodes h = nodes h0 \<and> bufs h = bufs h0 \<and> queues h = queues h0"
proof -
  from qreach_inv [OF assms] obtain Q fs gs ds where inv: "qinv_at c q n h0 s Q fs gs ds"
    by (auto simp: qinv_def)
  then have Q: "queues (qs_heap s) q = Some Q" and rep: "queue_rep c (qs_heap s) Q fs gs ds"
    by (simp_all add: qinv_at_def)
  from destroy_queue_erase [OF Q rep] inv show ?thesis
    by (auto simp: qinv_at_def fun_upd_idem_iff domIff)
qed

theorem destroy_queue_releases_everything_witness:
  "\<exists>h. destroy_queue 0 (qs_heap (demo [Put [7], Put [8], Take])) = Some h \<and>
    nodes h = Map.empty \<and> bufs h = Map.empty \<and> queues h = Map.empty"
  using destroy_queue_releases_everything [OF demo_qreach, of "[Put [7], Put [8], Take]"]
  by (simp add: no_heap_def)

subsection \<open>Refinement\<close>

text \<open>C33.  Refinement.  Any script of calls the abstract bounded queue of byte blocks allows
  is executed by the pointer structure of \<open>queue.c\<close> with the same answers, and the representation
  relation holds again at the end.\<close>

theorem queue_script_refines:
  assumes "queue_rel c q h S" "spec_run ops S = Some (ans, S')" "\<And>xs. Put xs \<in> set ops \<Longrightarrow> length xs \<le> c"
  shows "\<exists>h'. impl_run (put_block q) (take_block q) (complete_buffer_processing q) (interrupt_queue q)
      ops h = Some (ans, h') \<and> queue_rel c q h' S'"
  using assms by (rule hq.run_refines)

theorem queue_script_refines_witness:
  "\<exists>q h h'. create_queue demo_alloc 1 2 no_heap = Some ((0, Some q), h) \<and>
    impl_run (put_block q) (take_block q) (complete_buffer_processing q) (interrupt_queue q)
      [Put [7], Take, Put [8], Put [9], Complete, Interrupt, Take, Complete, Take] h =
      Some ([Block [7], Block [9], Nothing], h')"
proof -
  have "\<forall>k. brk no_heap \<le> k \<and> k \<le> brk no_heap + 2 * nat 2 \<longrightarrow> alloc_ok demo_alloc k"
    by (simp add: demo_alloc_def)
  with create_queue_cases [OF fresh_no_heap, of demo_alloc 1 2] obtain q h as Q where
    cr: "create_queue demo_alloc 1 2 no_heap = Some ((0, Some q), h)"
    and "queues h q = Some Q" "queue_rep 1 h Q as [] []" "queue_abs h Q as [] [] = new_frames 2"
    by auto
  then have rel: "queue_rel 1 q h (new_frames 2)" by (metis queue_rel_here)
  have "\<exists>S'. spec_run [Put [7], Take, Put [8], Put [9], Complete, Interrupt, Take, Complete, Take]
      (new_frames 2) = Some ([Block [7], Block [9], Nothing], S')"
    by (simp add: spec_put_def spec_take_def spec_complete_def spec_interrupt_def new_frames_def)
  then obtain S' where run: "spec_run [Put [7], Take, Put [8], Put [9], Complete, Interrupt, Take,
      Complete, Take] (new_frames 2) = Some ([Block [7], Block [9], Nothing], S')" ..
  have "length xs \<le> 1" if "Put xs \<in> set [Put [7], Take, Put [8], Put [9], Complete, Interrupt, Take,
      Complete, Take]" for xs :: "u8 list"
    using that by auto
  from queue_script_refines [OF rel run this] obtain h' where "impl_run (put_block q) (take_block q)
      (complete_buffer_processing q) (interrupt_queue q) [Put [7], Take, Put [8], Put [9], Complete,
      Interrupt, Take, Complete, Take] h = Some ([Block [7], Block [9], Nothing], h')" by blast
  with cr show ?thesis by blast
qed

end
