(* ===== verification/Wire.thy ===== *)
theory Wire
  imports Prelude
begin

text \<open>
  The wire protocol: the packed structures of \<open>src/src/api.h\<close>, their layout in the memory of a
  little- or big-endian host, byte order conversion, and the loops that read and write them over a
  socket (\<open>read_struct\<close> of \<open>tcp_server.c\<close>, \<open>read_data\<close> and \<open>write_data\<close> of
  \<open>client/tcp_client.c\<close>).

  A socket is what its system calls return.  A read consumes a list of events: bytes that arrived,
  an error with its \<open>errno\<close>; the end of the list, and an empty arrival, are the peer's orderly
  close, for which \<open>recv\<close> returns 0.  A write consumes a list of events too: the number of bytes the
  kernel is ready to accept, or an error; the end of the list accepts everything.
\<close>

subsection \<open>Messages\<close>

definition PROTOCOL_VERSION :: u8 where "PROTOCOL_VERSION = 0"
definition TYPE_REQUEST :: u8 where "TYPE_REQUEST = 0"
definition TYPE_SHUTDOWN :: u8 where "TYPE_SHUTDOWN = 1"
definition TYPE_RESPONSE :: u8 where "TYPE_RESPONSE = 2"
definition TYPE_PING :: u8 where "TYPE_PING = 3"
definition REQUEST_DESTINATION_FILE :: u8 where "REQUEST_DESTINATION_FILE = 0"
definition REQUEST_DESTINATION_SOCKET :: u8 where "REQUEST_DESTINATION_SOCKET = 1"
definition RESPONSE_STATUS_SUCCESS :: u8 where "RESPONSE_STATUS_SUCCESS = 0"
definition RESPONSE_STATUS_FAILURE :: u8 where "RESPONSE_STATUS_FAILURE = 1"
definition RESPONSE_DETAILS_INVALID_REQUEST :: u32 where "RESPONSE_DETAILS_INVALID_REQUEST = 1"
definition RESPONSE_DETAILS_OUT_OF_BAND_FREQ :: u32 where "RESPONSE_DETAILS_OUT_OF_BAND_FREQ = 2"
definition RESPONSE_DETAILS_INTERNAL_ERROR :: u32 where "RESPONSE_DETAILS_INTERNAL_ERROR = 3"

lemmas api_defs = PROTOCOL_VERSION_def TYPE_REQUEST_def TYPE_SHUTDOWN_def TYPE_RESPONSE_def
  TYPE_PING_def REQUEST_DESTINATION_FILE_def REQUEST_DESTINATION_SOCKET_def
  RESPONSE_STATUS_SUCCESS_def RESPONSE_STATUS_FAILURE_def RESPONSE_DETAILS_INVALID_REQUEST_def
  RESPONSE_DETAILS_OUT_OF_BAND_FREQ_def RESPONSE_DETAILS_INTERNAL_ERROR_def

record message_header =
  protocol_version :: u8
  msg_type :: u8

record request =
  rq_center_freq :: u32
  rq_sampling_rate :: u32
  rq_band_freq :: u32
  rq_destination :: u8

record response =
  rs_status :: u8
  rs_details :: u32

subsection \<open>Memory layout and byte order\<close>

datatype endian = Little | Big

text \<open>The four bytes of a \<open>uint32_t\<close> in memory, and the number four bytes of memory hold.\<close>

definition big_bytes :: "u32 \<Rightarrow> u8 list" where
  "big_bytes w = [ucast (drop_bit 24 w), ucast (drop_bit 16 w), ucast (drop_bit 8 w), ucast w]"

definition of_big_bytes :: "u8 list \<Rightarrow> u32" where
  "of_big_bytes bs = foldl (\<lambda>w b. push_bit 8 w OR ucast b) 0 bs"

fun mem_u32 :: "endian \<Rightarrow> u32 \<Rightarrow> u8 list" where
  "mem_u32 Big w = big_bytes w"
| "mem_u32 Little w = rev (big_bytes w)"

fun load_u32 :: "endian \<Rightarrow> u8 list \<Rightarrow> u32" where
  "load_u32 Big bs = of_big_bytes bs"
| "load_u32 Little bs = of_big_bytes (rev bs)"

text \<open>\<open>htonl\<close> and \<open>ntohl\<close>: the identity on a big-endian host, a byte swap on a little-endian one.\<close>

fun htonl :: "endian \<Rightarrow> u32 \<Rightarrow> u32" where
  "htonl Big w = w"
| "htonl Little w = of_big_bytes (rev (big_bytes w))"

abbreviation ntohl :: "endian \<Rightarrow> u32 \<Rightarrow> u32" where
  "ntohl \<equiv> htonl"

lemma length_big_bytes [simp]: "length (big_bytes w) = 4"
  by (simp add: big_bytes_def)

lemma length_mem_u32 [simp]: "length (mem_u32 e w) = 4"
  by (cases e) simp_all

lemma of_big_bytes_big_bytes [simp]: "of_big_bytes (big_bytes w) = w"
proof (rule bit_word_eqI)
  fix n assume "n < LENGTH(32)"
  then consider "n < 8" | "8 \<le> n" "n < 16" | "16 \<le> n" "n < 24" | "24 \<le> n" "n < 32" by force
  then show "bit (of_big_bytes (big_bytes w)) n = bit w n"
    unfolding of_big_bytes_def big_bytes_def by cases (auto simp: bit_simps)
qed

lemma big_bytes_of_big_bytes:
  assumes "length bs = 4"
  shows "big_bytes (of_big_bytes bs) = bs"
proof -
  from assms obtain a b c d where bs: "bs = [a, b, c, d]"
    by (auto simp: numeral_eq_Suc length_Suc_conv)
  have "ucast (drop_bit 24 (of_big_bytes bs)) = a" "ucast (drop_bit 16 (of_big_bytes bs)) = b"
    "ucast (drop_bit 8 (of_big_bytes bs)) = c" "ucast (of_big_bytes bs) = d"
    unfolding bs of_big_bytes_def by (rule bit_word_eqI; auto simp: bit_simps dest: bit_imp_le_length)+
  then show ?thesis by (simp add: big_bytes_def bs)
qed

lemma load_mem_u32 [simp]: "load_u32 e (mem_u32 e w) = w"
  by (cases e) simp_all

lemma htonl_htonl [simp]: "htonl e (htonl e w) = w"
  by (cases e) (simp_all add: big_bytes_of_big_bytes)

text \<open>What a host stores after \<open>htonl\<close> is the big-endian byte sequence, on either host.\<close>

lemma mem_htonl [simp]: "mem_u32 e (htonl e w) = big_bytes w"
  by (cases e) (simp_all add: big_bytes_of_big_bytes)

lemma ntohl_load [simp]: "ntohl e (load_u32 e (big_bytes w)) = w"
  by (cases e) (simp_all add: big_bytes_of_big_bytes)

subsection \<open>Packed structures in memory\<close>

definition header_bytes :: "message_header \<Rightarrow> u8 list" where
  "header_bytes h = [protocol_version h, msg_type h]"

definition request_bytes :: "endian \<Rightarrow> request \<Rightarrow> u8 list" where
  "request_bytes e r = mem_u32 e (rq_center_freq r) @ mem_u32 e (rq_sampling_rate r) @
     mem_u32 e (rq_band_freq r) @ [rq_destination r]"

definition response_bytes :: "endian \<Rightarrow> response \<Rightarrow> u8 list" where
  "response_bytes e r = rs_status r # mem_u32 e (rs_details r)"

definition header_of_bytes :: "u8 list \<Rightarrow> message_header" where
  "header_of_bytes bs = \<lparr>protocol_version = bs ! 0, msg_type = bs ! 1\<rparr>"

definition request_of_bytes :: "endian \<Rightarrow> u8 list \<Rightarrow> request" where
  "request_of_bytes e bs =
     \<lparr>rq_center_freq = load_u32 e (take 4 bs), rq_sampling_rate = load_u32 e (take 4 (drop 4 bs)),
      rq_band_freq = load_u32 e (take 4 (drop 8 bs)), rq_destination = bs ! 12\<rparr>"

definition response_of_bytes :: "endian \<Rightarrow> u8 list \<Rightarrow> response" where
  "response_of_bytes e bs = \<lparr>rs_status = bs ! 0, rs_details = load_u32 e (take 4 (drop 1 bs))\<rparr>"

text \<open>\<open>sizeof\<close> of the packed structures\<close>

definition sizeof_header :: nat where "sizeof_header = 2"
definition sizeof_request :: nat where "sizeof_request = 13"
definition sizeof_response :: nat where "sizeof_response = 5"

lemma struct_lengths [simp]:
  "length (header_bytes h) = sizeof_header"
  "length (request_bytes e r) = sizeof_request"
  "length (response_bytes e p) = sizeof_response"
  by (simp_all add: header_bytes_def request_bytes_def response_bytes_def sizeof_header_def
      sizeof_request_def sizeof_response_def)

lemma header_of_header_bytes [simp]: "header_of_bytes (header_bytes h) = h"
  by (simp add: header_of_bytes_def header_bytes_def)

lemma request_of_request_bytes [simp]: "request_of_bytes e (request_bytes e r) = r"
  by (simp add: request_of_bytes_def request_bytes_def nth_append)

lemma response_of_response_bytes [simp]: "response_of_bytes e (response_bytes e r) = r"
  by (simp add: response_of_bytes_def response_bytes_def)

subsection \<open>Reading\<close>

datatype recv_event = Arrive "u8 list" | Recv_error int

text \<open>
  The loop of \<open>read_struct\<close>: \<open>left\<close> bytes are missing, \<open>got\<close> are in the result.  The result is the
  return code, the bytes stored so far and the events still to come.
\<close>

function read_struct_loop :: "nat \<Rightarrow> u8 list \<Rightarrow> recv_event list \<Rightarrow> (int \<times> u8 list) \<times> recv_event list" where
  "read_struct_loop left got evs =
     (if left = 0 then ((0, got), evs)
      else case evs of
        [] \<Rightarrow> ((- 1, got), [])
      | Recv_error errno # evs' \<Rightarrow>
          (if errno = EWOULDBLOCK \<or> errno = EAGAIN then ((- errno, got), evs')
           else if errno = EINTR then read_struct_loop left got evs'
           else ((- 1, got), evs'))
      | Arrive bs # evs' \<Rightarrow>
          (if bs = [] then ((- 1, got), evs')
           else read_struct_loop (left - length (take left bs)) (got @ take left bs)
             (if drop left bs = [] then evs' else Arrive (drop left bs) # evs')))"
  by pat_completeness auto
termination
  by (relation "measure (\<lambda>(left, got, evs). left + length evs)") auto

declare read_struct_loop.simps [simp del]

lemma read_struct_loop_simps [simp]:
  "read_struct_loop 0 got evs = ((0, got), evs)"
  "0 < left \<Longrightarrow> read_struct_loop left got [] = ((- 1, got), [])"
  "0 < left \<Longrightarrow> read_struct_loop left got (Recv_error errno # evs) =
     (if errno = EAGAIN then ((- errno, got), evs)
      else if errno = EINTR then read_struct_loop left got evs else ((- 1, got), evs))"
  "0 < left \<Longrightarrow> read_struct_loop left got (Arrive bs # evs) =
     (if bs = [] then ((- 1, got), evs)
      else read_struct_loop (left - length (take left bs)) (got @ take left bs)
        (if drop left bs = [] then evs else Arrive (drop left bs) # evs))"
  by (simp_all add: read_struct_loop.simps [of left] read_struct_loop.simps [of 0] errno_defs)

definition read_struct :: "nat \<Rightarrow> recv_event list \<Rightarrow> (int \<times> u8 list) \<times> recv_event list" where
  "read_struct len evs = read_struct_loop len [] evs"

text \<open>
  The bytes that can be read before the first close, timeout or fatal error; an interrupted call
  is retried.
\<close>

fun pending :: "recv_event list \<Rightarrow> u8 list" where
  "pending [] = []"
| "pending (Arrive bs # evs) = (if bs = [] then [] else bs @ pending evs)"
| "pending (Recv_error errno # evs) = (if errno = EINTR then pending evs else [])"

text \<open>Why no more bytes come: the code \<open>read_struct\<close> returns when it wants more.\<close>

fun stop_code :: "recv_event list \<Rightarrow> int" where
  "stop_code [] = - 1"
| "stop_code (Arrive bs # evs) = (if bs = [] then - 1 else stop_code evs)"
| "stop_code (Recv_error errno # evs) =
     (if errno = EINTR then stop_code evs else if errno = EAGAIN then - EAGAIN else - 1)"

lemma stop_code_cases: "stop_code evs = - 1 \<or> stop_code evs = - EAGAIN"
  by (induction evs rule: stop_code.induct) auto

lemma stop_code_negative: "stop_code evs < 0"
  using stop_code_cases [of evs] by (auto simp: errno_defs)

lemma read_struct_loop_enough:
  assumes "n \<le> length (pending evs)"
  shows "\<exists>evs'. read_struct_loop n got evs = ((0, got @ take n (pending evs)), evs') \<and>
    pending evs' = drop n (pending evs) \<and> stop_code evs' = stop_code evs"
  using assms
proof (induction n got evs rule: read_struct_loop.induct)
  case (1 left got evs)
  show ?case
  proof (cases "left = 0")
    case True
    then show ?thesis by simp
  next
    case False
    with 1(3) obtain ev evs' where evs: "evs = ev # evs'" by (cases evs) auto
    show ?thesis
    proof (cases ev)
      case (Recv_error errno)
      with 1(3) False have e: "errno = EINTR" by (auto simp: evs split: if_splits)
      with Recv_error evs False 1(2) [OF False evs Recv_error _ e] 1(3) show ?thesis
        by (simp add: errno_defs)
    next
      case (Arrive bs)
      with 1(3) False evs have bs: "bs \<noteq> []" by (auto split: if_splits)
      let ?evs = "if drop left bs = [] then evs' else Arrive (drop left bs) # evs'"
      have p: "pending ?evs = drop (min left (length bs)) (pending evs)"
        by (auto simp: evs Arrive bs min_def)
      have s: "stop_code ?evs = stop_code evs" by (simp add: evs Arrive bs)
      have "left - length (take left bs) \<le> length (pending ?evs)"
        using 1(3) p by (auto simp: min_def)
      from 1(1) [OF False evs Arrive bs this] obtain evs'' where
        r: "read_struct_loop (left - length (take left bs)) (got @ take left bs) ?evs =
          ((0, (got @ take left bs) @ take (left - length (take left bs)) (pending ?evs)), evs'')"
        and q: "pending evs'' = drop (left - length (take left bs)) (pending ?evs)"
        and c: "stop_code evs'' = stop_code ?evs" by blast
      have "take left bs @ take (left - length (take left bs)) (pending ?evs) = take left (pending evs)"
        by (auto simp: evs Arrive bs)
      with r q c s p False bs show ?thesis
        by (auto simp: evs Arrive min_def)
    qed
  qed
qed

lemma read_struct_loop_short:
  assumes "length (pending evs) < n"
  shows "fst (read_struct_loop n got evs) = (stop_code evs, got @ pending evs)"
  using assms
proof (induction n got evs rule: read_struct_loop.induct)
  case (1 left got evs)
  then have left: "left \<noteq> 0" by simp
  show ?case
  proof (cases evs)
    case Nil
    with left show ?thesis by simp
  next
    case (Cons ev evs')
    show ?thesis
    proof (cases ev)
      case (Recv_error errno)
      with Cons left 1(2) [OF left Cons Recv_error] 1(3) show ?thesis
        by (auto simp: errno_defs)
    next
      case (Arrive bs)
      with Cons left 1(1) [OF left Cons Arrive] 1(3) show ?thesis
        by (cases "bs = []") auto
    qed
  qed
qed

lemmas read_struct_enough = read_struct_loop_enough [where got = "[]", folded read_struct_def, simplified]
lemmas read_struct_short = read_struct_loop_short [where got = "[]", folded read_struct_def, simplified]

text \<open>A read that wants bytes uses up an event or a part of one.\<close>

fun weight :: "recv_event list \<Rightarrow> nat" where
  "weight [] = 0"
| "weight (Arrive bs # evs) = Suc (length bs) + weight evs"
| "weight (Recv_error errno # evs) = Suc (weight evs)"

lemma read_struct_loop_weight: "weight (snd (read_struct_loop n got evs)) \<le> weight evs"
proof (induction n got evs rule: read_struct_loop.induct)
  case (1 left got evs)
  show ?case
  proof (cases "left = 0")
    case False
    show ?thesis
    proof (cases evs)
      case (Cons ev evs')
      show ?thesis
      proof (cases ev)
        case (Arrive bs)
        have "weight (if drop left bs = [] then evs' else Arrive (drop left bs) # evs') \<le> weight evs"
          by (simp add: Cons Arrive)
        with Cons Arrive False 1(1) [OF False Cons Arrive] show ?thesis by auto
      next
        case (Recv_error errno)
        with Cons False 1(2) [OF False Cons Recv_error] show ?thesis by (auto simp: errno_defs)
      qed
    qed (use False in simp)
  qed simp
qed

lemma read_struct_weight:
  assumes "evs \<noteq> []" "0 < n"
  shows "weight (snd (read_struct n evs)) < weight evs"
proof (cases evs)
  case (Cons ev evs')
  show ?thesis
  proof (cases ev)
    case (Arrive bs)
    let ?rest = "if drop n bs = [] then evs' else Arrive (drop n bs) # evs'"
    have "weight ?rest < weight evs" if "bs \<noteq> []" using that assms(2) by (simp add: Cons Arrive)
    with read_struct_loop_weight [of "n - length (take n bs)" "take n bs" ?rest] Cons Arrive assms(2)
    show ?thesis by (auto simp: read_struct_def)
  next
    case (Recv_error errno)
    with Cons assms(2) read_struct_loop_weight [of n "[]" evs'] show ?thesis
      by (auto simp: read_struct_def errno_defs)
  qed
qed (use assms in simp)

lemma read_struct_Nil [simp]: "0 < n \<Longrightarrow> read_struct n [] = ((- 1, []), [])"
  by (simp add: read_struct_def)

subsection \<open>Writing\<close>

datatype write_event = Accept nat | Write_error int

text \<open>
  The write loop the server and the client share: what is left to send and the events; the result
  is the return code, the bytes the peer has received and the remaining events.
\<close>

fun write_loop :: "u8 list \<Rightarrow> write_event list \<Rightarrow> (int \<times> u8 list) \<times> write_event list" where
  "write_loop buf [] = ((0, buf), [])"
| "write_loop buf (ev # evs) =
     (if buf = [] then ((0, []), ev # evs)
      else case ev of
        Write_error errno \<Rightarrow> ((- 1, []), evs)
      | Accept n \<Rightarrow> apfst (apsnd ((@) (take n buf))) (write_loop (drop n buf) evs))"

lemma write_loop_prefix:
  "\<exists>code sent. fst (write_loop buf evs) = (code, sent) \<and>
    (code = 0 \<and> sent = buf \<or> code = - 1 \<and> (\<exists>rest. rest \<noteq> [] \<and> buf = sent @ rest))"
proof (induction buf evs rule: write_loop.induct)
  case (2 buf ev evs)
  show ?case
  proof (cases ev)
    case (Accept n)
    show ?thesis
    proof (cases "buf = []")
      case False
      with 2 [OF False Accept] Accept show ?thesis
        by (cases "write_loop (drop n buf) evs") (auto, metis append_take_drop_id append.assoc)
    qed simp
  qed auto
qed simp

lemma write_loop_ok: "(\<And>e. Write_error e \<notin> set evs) \<Longrightarrow> fst (write_loop buf evs) = (0, buf)"
proof (induction buf evs rule: write_loop.induct)
  case (2 buf ev evs)
  then show ?case by (cases ev) (auto, (metis)?)
qed simp

end
