(* ===== verification/Config.thy ===== *)
theory Config
  imports Prelude
begin

text \<open>
  The server configuration: \<open>src/src/config.h\<close> and \<open>src/src/config.c\<close>.  The library libconfig is a
  parameter, a record of its lookup and conversion functions; the floating-point conversions of the
  gain are part of it.  Memory is the set of live blocks \<open>create_server_config\<close> and
  \<open>destroy_server_config\<close> allocate and free, so leaks and double frees are visible.
\<close>

subsection \<open>The configuration record\<close>

definition SDR_TYPE_RTL :: int where "SDR_TYPE_RTL = 0"
definition SDR_TYPE_AIRSPY :: int where "SDR_TYPE_AIRSPY = 1"
definition SDR_TYPE_HACKRF :: int where "SDR_TYPE_HACKRF = 2"
definition SDR_TYPE_MSI :: int where "SDR_TYPE_MSI = 3"

definition AIRSPY_GAIN_AUTO :: int where "AIRSPY_GAIN_AUTO = 0"
definition AIRSPY_GAIN_SENSITIVITY :: int where "AIRSPY_GAIN_SENSITIVITY = 1"
definition AIRSPY_GAIN_LINEARITY :: int where "AIRSPY_GAIN_LINEARITY = 2"
definition AIRSPY_GAIN_MANUAL :: int where "AIRSPY_GAIN_MANUAL = 3"

definition NATIVE_CF32 :: int where "NATIVE_CF32 = 0"
definition OPTIMIZED_CF32 :: int where "OPTIMIZED_CF32 = 1"

definition AIRSPY_BUFFER_SIZE :: u32 where "AIRSPY_BUFFER_SIZE = 262144"

lemmas config_consts = SDR_TYPE_RTL_def SDR_TYPE_AIRSPY_def SDR_TYPE_HACKRF_def SDR_TYPE_MSI_def
  AIRSPY_GAIN_AUTO_def AIRSPY_GAIN_SENSITIVITY_def AIRSPY_GAIN_LINEARITY_def AIRSPY_GAIN_MANUAL_def
  NATIVE_CF32_def OPTIMIZED_CF32_def AIRSPY_BUFFER_SIZE_def

text \<open>A \<open>char *\<close> field: \<open>NULL\<close>, or the heap block and the string it holds.\<close>

type_synonym cstr = "(nat \<times> string) option"

record server_config =
  bind_address :: cstr
  port :: int
  read_timeout_seconds :: int
  device_serial :: cstr
  optimization :: int
  sdr_type :: int
  device_index :: int
  gain_mode :: int
  gain :: int
  ppm :: int
  bias_t :: int
  buffer_size :: u32
  band_sampling_rate :: u32
  queue_size :: int
  lpf_cutoff_rate :: int
  airspy_gain_mode :: int
  airspy_vga_gain :: int
  airspy_mixer_gain :: int
  airspy_lna_gain :: int
  airspy_linearity_gain :: int
  airspy_sensitivity_gain :: int
  hackrf_bias_t :: u8
  hackrf_amp :: int
  hackrf_lna_gain :: int
  hackrf_vga_gain :: int
  msisdr_gain :: int
  msisdr_gain_mode :: int
  msisdr_if_freq :: int
  msisdr_bandwidth :: u32
  msisdr_hw_flavour :: int
  base_path :: cstr
  use_gzip :: bool

subsection \<open>Memory\<close>

text \<open>
  \<open>blocks\<close> are the live heap blocks, \<open>calls\<close> counts the calls of \<open>malloc\<close> and numbers the blocks,
  \<open>parsers\<close> is the number of libconfig objects initialised and not destroyed.
\<close>

record cmem =
  blocks :: "nat set"
  calls :: nat
  parsers :: nat

definition cmalloc :: "(nat \<Rightarrow> bool) \<Rightarrow> cmem \<Rightarrow> ptr \<times> cmem" where
  "cmalloc ok m =
     (if ok (calls m) then (Some (calls m), m\<lparr>blocks := insert (calls m) (blocks m), calls := Suc (calls m)\<rparr>)
      else (None, m\<lparr>calls := Suc (calls m)\<rparr>))"

definition cfree :: "ptr \<Rightarrow> cmem \<Rightarrow> cmem option" where
  "cfree p m =
     (case p of None \<Rightarrow> Some m
      | Some k \<Rightarrow> (if k \<in> blocks m then Some (m\<lparr>blocks := blocks m - {k}\<rparr>) else None))"

definition config_init :: "cmem \<Rightarrow> cmem" where
  "config_init m = m\<lparr>parsers := Suc (parsers m)\<rparr>"

definition config_destroy :: "cmem \<Rightarrow> cmem" where
  "config_destroy m = m\<lparr>parsers := parsers m - 1\<rparr>"

subsection \<open>Reading single settings\<close>

text \<open>
  libconfig: a setting of the parsed file, its value as an integer, a boolean, a string (\<open>None\<close> is
  the \<open>NULL\<close> it returns for a setting that is not a string); \<open>get_gain\<close> is the expression
  \<open>(int) ((float) config_setting_get_float (setting) * 10)\<close>.
\<close>

record 's libconfig =
  config_lookup :: "string \<Rightarrow> 's option"
  get_int :: "'s \<Rightarrow> int"
  get_bool :: "'s \<Rightarrow> bool"
  get_string :: "'s \<Rightarrow> string option"
  get_gain :: "'s \<Rightarrow> int"

definition config_read_int :: "'s libconfig \<Rightarrow> string \<Rightarrow> int \<Rightarrow> int" where
  "config_read_int lc name default_value =
     (case config_lookup lc name of None \<Rightarrow> default_value | Some setting \<Rightarrow> get_int lc setting)"

definition config_read_float_gain :: "'s libconfig \<Rightarrow> string \<Rightarrow> int" where
  "config_read_float_gain lc name =
     (case config_lookup lc name of None \<Rightarrow> 0 | Some setting \<Rightarrow> get_gain lc setting)"

definition config_read_bool :: "'s libconfig \<Rightarrow> string \<Rightarrow> bool \<Rightarrow> bool" where
  "config_read_bool lc name default_value =
     (case config_lookup lc name of None \<Rightarrow> default_value | Some setting \<Rightarrow> get_bool lc setting)"

definition config_read_uint32_t :: "'s libconfig \<Rightarrow> string \<Rightarrow> u32 \<Rightarrow> u32" where
  "config_read_uint32_t lc name default_value =
     (case config_lookup lc name of None \<Rightarrow> default_value
      | Some setting \<Rightarrow> word_of_int (get_int lc setting))"

definition copy_str :: "(nat \<Rightarrow> bool) \<Rightarrow> string \<Rightarrow> cmem \<Rightarrow> cstr \<times> cmem" where
  "copy_str ok v m = (case cmalloc ok m of (None, m') \<Rightarrow> (None, m') | (Some k, m') \<Rightarrow> (Some (k, v), m'))"

definition read_and_copy_str :: "(nat \<Rightarrow> bool) \<Rightarrow> 's libconfig \<Rightarrow> 's option \<Rightarrow> string option \<Rightarrow> cmem
    \<Rightarrow> (cstr \<times> cmem) option" where
  "read_and_copy_str ok lc setting default_value m =
     (case setting of
        None \<Rightarrow> (case default_value of None \<Rightarrow> Some (None, m) | Some d \<Rightarrow> Some (copy_str ok d m))
      | Some s \<Rightarrow> (case get_string lc s of None \<Rightarrow> None | Some v \<Rightarrow> Some (copy_str ok v m)))"

definition config_parse_cpu_optimization :: "string \<Rightarrow> int" where
  "config_parse_cpu_optimization str =
     (if str = ''NATIVE_CF32'' then NATIVE_CF32
      else if str = ''OPTIMIZED_CF32'' then OPTIMIZED_CF32 else - 1)"

definition config_format_cpu_optimization :: "int \<Rightarrow> string" where
  "config_format_cpu_optimization value =
     (if value = NATIVE_CF32 then ''NATIVE_CF32'' else if value = OPTIMIZED_CF32 then ''OPTIMIZED_CF32'' else ''UNKNOWN'')"

text \<open>What is logged for a choice is read back as that choice, and nothing else is.\<close>

lemma cpu_optimization_roundtrip:
  "config_parse_cpu_optimization (config_format_cpu_optimization value) =
    (if value \<in> {NATIVE_CF32, OPTIMIZED_CF32} then value else - 1)"
  by (simp add: config_parse_cpu_optimization_def config_format_cpu_optimization_def)

subsection \<open>Loading\<close>

definition zero_config :: server_config where
  "zero_config = \<lparr>bind_address = None, port = 0, read_timeout_seconds = 0, device_serial = None,
     optimization = 0, sdr_type = 0, device_index = 0, gain_mode = 0, gain = 0, ppm = 0, bias_t = 0,
     buffer_size = 0, band_sampling_rate = 0, queue_size = 0, lpf_cutoff_rate = 0,
     airspy_gain_mode = 0, airspy_vga_gain = 0, airspy_mixer_gain = 0, airspy_lna_gain = 0,
     airspy_linearity_gain = 0, airspy_sensitivity_gain = 0, hackrf_bias_t = 0, hackrf_amp = 0,
     hackrf_lna_gain = 0, hackrf_vga_gain = 0, msisdr_gain = 0, msisdr_gain_mode = 0,
     msisdr_if_freq = 0, msisdr_bandwidth = 0, msisdr_hw_flavour = 0, base_path = None,
     use_gzip = False\<rparr>"

text \<open>
  The numeric settings up to \<open>band_sampling_rate\<close>, in the order of the source; every failing check
  there destroys the parser, frees the result and returns \<open>-1\<close>, which \<open>Inl\<close> stands for.
\<close>

definition read_tuner_settings :: "'s libconfig \<Rightarrow> int + server_config" where
  "read_tuner_settings lc =
    (let c = zero_config
         \<lparr>sdr_type := config_read_int lc ''sdr_type'' 0,
          bias_t := config_read_int lc ''bias_t'' 0,
          gain_mode := config_read_int lc ''gain_mode'' 0,
          gain := config_read_float_gain lc ''gain'',
          ppm := config_read_int lc ''ppm'' 0,
          airspy_gain_mode := config_read_int lc ''airspy_gain_mode'' AIRSPY_GAIN_MANUAL\<rparr>;
      vga = config_read_int lc ''airspy_vga_gain'' 5 in
     if vga > 15 \<or> vga < 0 then Inl (- 1) else
     let mixer = config_read_int lc ''airspy_mixer_gain'' 0 in
     if mixer > 15 \<or> mixer < 0 then Inl (- 1) else
     let lna = config_read_int lc ''airspy_lna_gain'' 1 in
     if lna > 14 \<or> lna < 0 then Inl (- 1) else
     let linearity = config_read_int lc ''airspy_linearity_gain'' 0 in
     if linearity > 21 \<or> linearity < 0 then Inl (- 1) else
     let sensitivity = config_read_int lc ''airspy_sensitivity_gain'' 0 in
     if sensitivity > 21 \<or> sensitivity < 0 then Inl (- 1) else
     let amp = config_read_int lc ''hackrf_amp'' 0 in
     if amp > 1 then Inl (- 1) else
     let h_lna = config_read_int lc ''hackrf_lna_gain'' 16 in
     if h_lna < 0 \<or> h_lna > 40 then Inl (- 1) else
     let h_vga = config_read_int lc ''hackrf_vga_gain'' 16 in
     if h_vga < 0 \<or> h_vga > 62 then Inl (- 1) else
     Inr (c\<lparr>airspy_vga_gain := vga, airspy_mixer_gain := mixer, airspy_lna_gain := lna,
          airspy_linearity_gain := linearity, airspy_sensitivity_gain := sensitivity,
          hackrf_bias_t := word_of_int (config_read_int lc ''hackrf_bias_t'' 0),
          hackrf_amp := amp, hackrf_lna_gain := h_lna, hackrf_vga_gain := h_vga\<rparr>))"

definition read_numeric_settings :: "'s libconfig \<Rightarrow> int + server_config" where
  "read_numeric_settings lc =
    (case read_tuner_settings lc of Inl code \<Rightarrow> Inl code | Inr c \<Rightarrow>
     let m_gain = config_read_int lc ''msisdr_gain'' 40 in
     if m_gain < 0 \<or> m_gain > 102 then Inl (- 1) else
     let queue = config_read_int lc ''queue_size'' 64 in
     if queue \<le> 0 then Inl (- 1) else
     (case config_lookup lc ''band_sampling_rate'' of
        None \<Rightarrow> Inl (- 1)
      | Some setting \<Rightarrow> Inr (c
         \<lparr>msisdr_gain_mode := config_read_int lc ''msisdr_gain_mode'' 1,
          msisdr_gain := m_gain,
          msisdr_if_freq := config_read_int lc ''msisdr_if_freq'' 0,
          msisdr_bandwidth := config_read_uint32_t lc ''msisdr_bandwidth'' 0,
          msisdr_hw_flavour := config_read_int lc ''msisdr_hw_flavour'' 0,
          queue_size := queue,
          band_sampling_rate := word_of_int (get_int lc setting)\<rparr>)))"

definition destroy_server_config :: "(nat \<times> server_config) option \<Rightarrow> cmem \<Rightarrow> cmem option" where
  "destroy_server_config config m =
     (case config of None \<Rightarrow> Some m
      | Some (p, c) \<Rightarrow> do {
          m1 \<leftarrow> cfree (map_option fst (bind_address c)) m;
          m2 \<leftarrow> cfree (map_option fst (base_path c)) m1;
          m3 \<leftarrow> cfree (map_option fst (device_serial c)) m2;
          cfree (Some p) m3 })"

text \<open>The tail of \<open>create_server_config\<close>, from \<open>base_path\<close> on; \<open>result\<close> is the block of the record.\<close>

definition read_output_settings :: "(nat \<Rightarrow> bool) \<Rightarrow> 's libconfig \<Rightarrow> string option \<Rightarrow> nat
    \<Rightarrow> server_config \<Rightarrow> cmem \<Rightarrow> ((int \<times> (nat \<times> server_config) option) \<times> cmem) option" where
  "read_output_settings ok lc tmpdir result c m = do {
     let default_folder = (case tmpdir of None \<Rightarrow> ''/tmp'' | Some d \<Rightarrow> d);
     (path, m1) \<leftarrow> read_and_copy_str ok lc (config_lookup lc ''base_path'') (Some default_folder) m;
     if path = None then do {
       m2 \<leftarrow> destroy_server_config (Some (result, c)) (config_destroy m1);
       Some ((- ENOMEM, None), m2) }
     else do {
       let c1 = c\<lparr>base_path := path, use_gzip := config_read_bool lc ''use_gzip'' True\<rparr>;
       opt \<leftarrow> (case config_lookup lc ''cpu_optimization'' of
                 None \<Rightarrow> Some NATIVE_CF32
               | Some s \<Rightarrow> map_option config_parse_cpu_optimization (get_string lc s));
       if opt = - 1 then do {
         m2 \<leftarrow> destroy_server_config (Some (result, c1)) (config_destroy m1);
         Some ((- 1, None), m2) }
       else Some ((0, Some (result, c1\<lparr>optimization := opt\<rparr>)), config_destroy m1) } }"

text \<open>The part before it, from \<open>device_serial\<close> to the read timeout.\<close>

definition forced_buffer_size :: "int \<Rightarrow> u32 \<Rightarrow> u32" where
  "forced_buffer_size sdr n = (if sdr = SDR_TYPE_AIRSPY \<and> n \<noteq> AIRSPY_BUFFER_SIZE then AIRSPY_BUFFER_SIZE else n)"

text \<open>The record with these fields filled, \<open>serial\<close> and \<open>address\<close> being the copied strings.\<close>

definition socket_config :: "'s libconfig \<Rightarrow> cstr \<Rightarrow> cstr \<Rightarrow> server_config \<Rightarrow> server_config" where
  "socket_config lc serial address c =
     c\<lparr>device_index := config_read_int lc ''device_index'' 0, device_serial := serial,
       buffer_size := forced_buffer_size (sdr_type c) (config_read_uint32_t lc ''buffer_size'' 262144),
       lpf_cutoff_rate := config_read_int lc ''lpf_cutoff_rate'' 5,
       bind_address := address, port := config_read_int lc ''port'' 8090\<rparr>"

definition read_socket_settings :: "(nat \<Rightarrow> bool) \<Rightarrow> 's libconfig \<Rightarrow> string option \<Rightarrow> nat
    \<Rightarrow> server_config \<Rightarrow> cmem \<Rightarrow> ((int \<times> (nat \<times> server_config) option) \<times> cmem) option" where
  "read_socket_settings ok lc tmpdir result c m = do {
     (serial, m1) \<leftarrow> read_and_copy_str ok lc (config_lookup lc ''device_serial'') None m;
     (address, m2) \<leftarrow>
       read_and_copy_str ok lc (config_lookup lc ''bind_address'') (Some ''127.0.0.1'') m1;
     if address = None then do {
       m3 \<leftarrow> cfree (Some result) (config_destroy m2);
       Some ((- ENOMEM, None), m3) }
     else do {
       let c2 = socket_config lc serial address c;
       let timeout = config_read_int lc ''read_timeout_seconds'' 5;
       if timeout \<le> 0 then do {
         m3 \<leftarrow> destroy_server_config (Some (result, c2)) (config_destroy m2);
         Some ((- 1, None), m3) }
       else read_output_settings ok lc tmpdir result (c2\<lparr>read_timeout_seconds := timeout\<rparr>) m2 } }"

text \<open>
  \<open>file_ok\<close> is the result of \<open>config_read_file\<close>, \<open>tmpdir\<close> the value of the environment variable.
  The result is the return code and the out-parameter.
\<close>

definition create_server_config :: "(nat \<Rightarrow> bool) \<Rightarrow> 's libconfig \<Rightarrow> bool \<Rightarrow> string option \<Rightarrow> cmem
    \<Rightarrow> ((int \<times> (nat \<times> server_config) option) \<times> cmem) option" where
  "create_server_config ok lc file_ok tmpdir m =
    (case cmalloc ok m of
       (None, m1) \<Rightarrow> Some ((- ENOMEM, None), m1)
     | (Some result, m1) \<Rightarrow>
        let m2 = config_init m1 in
        if \<not> file_ok then do {
          m3 \<leftarrow> cfree (Some result) (config_destroy m2);
          Some ((- 1, None), m3) }
        else (case read_numeric_settings lc of
          Inl code \<Rightarrow> do {
            m3 \<leftarrow> cfree (Some result) (config_destroy m2);
            Some ((code, None), m3) }
        | Inr c \<Rightarrow> read_socket_settings ok lc tmpdir result c m2))"

subsection \<open>What is accepted\<close>

definition valid_gains :: "server_config \<Rightarrow> bool" where
  "valid_gains c \<longleftrightarrow>
     0 \<le> airspy_vga_gain c \<and> airspy_vga_gain c \<le> 15 \<and>
     0 \<le> airspy_mixer_gain c \<and> airspy_mixer_gain c \<le> 15 \<and>
     0 \<le> airspy_lna_gain c \<and> airspy_lna_gain c \<le> 14 \<and>
     0 \<le> airspy_linearity_gain c \<and> airspy_linearity_gain c \<le> 21 \<and>
     0 \<le> airspy_sensitivity_gain c \<and> airspy_sensitivity_gain c \<le> 21 \<and>
     hackrf_amp c \<le> 1 \<and>
     0 \<le> hackrf_lna_gain c \<and> hackrf_lna_gain c \<le> 40 \<and>
     0 \<le> hackrf_vga_gain c \<and> hackrf_vga_gain c \<le> 62"

definition valid_config :: "server_config \<Rightarrow> bool" where
  "valid_config c \<longleftrightarrow> valid_gains c \<and>
     0 \<le> msisdr_gain c \<and> msisdr_gain c \<le> 102 \<and>
     0 < queue_size c \<and> 0 < read_timeout_seconds c \<and>
     (sdr_type c = SDR_TYPE_AIRSPY \<longrightarrow> buffer_size c = AIRSPY_BUFFER_SIZE) \<and>
     optimization c \<in> {NATIVE_CF32, OPTIMIZED_CF32} \<and>
     bind_address c \<noteq> None \<and> base_path c \<noteq> None"

definition no_strings :: "server_config \<Rightarrow> bool" where
  "no_strings c \<longleftrightarrow> bind_address c = None \<and> base_path c = None \<and> device_serial c = None"

lemma read_tuner_settings_cases:
  "read_tuner_settings lc = Inl code \<Longrightarrow> code = - 1"
  "read_tuner_settings lc = Inr c \<Longrightarrow> valid_gains c \<and> no_strings c"
  unfolding read_tuner_settings_def Let_def zero_config_def
  by (simp_all split: if_splits) (clarsimp simp: not_less valid_gains_def no_strings_def)

lemma read_numeric_settings_cases:
  "read_numeric_settings lc = Inl code \<Longrightarrow> code = - 1"
  "read_numeric_settings lc = Inr c \<Longrightarrow> valid_gains c \<and> no_strings c \<and>
     0 \<le> msisdr_gain c \<and> msisdr_gain c \<le> 102 \<and> 0 < queue_size c"
  unfolding read_numeric_settings_def Let_def
  by (auto simp: valid_gains_def no_strings_def split: sum.splits if_splits option.splits
      dest: read_tuner_settings_cases)

lemma read_and_copy_strE:
  assumes "read_and_copy_str ok lc s d m = Some (x, m')"
  obtains (unset) "x = None" "m' = m" "s = None" "d = None"
  | (failed) "x = None" "m' = m\<lparr>calls := Suc (calls m)\<rparr>" "\<not> ok (calls m)" "s \<noteq> None \<or> d \<noteq> None"
  | (copied) v where "x = Some (calls m, v)" "ok (calls m)" "s \<noteq> None \<or> d \<noteq> None"
      "m' = m\<lparr>blocks := insert (calls m) (blocks m), calls := Suc (calls m)\<rparr>"
  using assms
  by (auto simp: read_and_copy_str_def copy_str_def cmalloc_def split: option.splits if_splits)

lemma config_parse_cpu_optimization_cases:
  "config_parse_cpu_optimization s \<in> {NATIVE_CF32, OPTIMIZED_CF32, - 1}"
  by (simp add: config_parse_cpu_optimization_def)

lemma read_output_settings_ok:
  assumes "read_output_settings ok lc tmpdir result c m = Some ((0, Some (p, c')), m')"
  shows "p = result \<and> (\<exists>path z opt. path \<noteq> None \<and> opt \<in> {NATIVE_CF32, OPTIMIZED_CF32} \<and>
    c' = c\<lparr>base_path := path, use_gzip := z, optimization := opt\<rparr> \<and>
    (\<exists>m1 d. read_and_copy_str ok lc (config_lookup lc ''base_path'') (Some d) m = Some (path, m1) \<and>
      m' = config_destroy m1))"
proof -
  have "(case config_lookup lc ''cpu_optimization'' of None \<Rightarrow> Some NATIVE_CF32
      | Some s \<Rightarrow> map_option config_parse_cpu_optimization (get_string lc s)) = Some opt \<Longrightarrow> opt \<noteq> - 1 \<Longrightarrow>
    opt \<in> {NATIVE_CF32, OPTIMIZED_CF32}" for opt
    using config_parse_cpu_optimization_cases by (fastforce split: option.splits)
  with assms show ?thesis
    unfolding read_output_settings_def Let_def
    by (auto simp: bind_eq_Some_conv errno_defs split: if_splits) blast+
qed

lemma read_socket_settings_ok:
  assumes "read_socket_settings ok lc tmpdir result c m = Some ((0, Some (p, c')), m')"
  obtains serial m1 address m2 where
    "read_and_copy_str ok lc (config_lookup lc ''device_serial'') None m = Some (serial, m1)"
    "read_and_copy_str ok lc (config_lookup lc ''bind_address'') (Some ''127.0.0.1'') m1 =
      Some (address, m2)"
    "address \<noteq> None" "0 < config_read_int lc ''read_timeout_seconds'' 5"
    "read_output_settings ok lc tmpdir result (socket_config lc serial address c
      \<lparr>read_timeout_seconds := config_read_int lc ''read_timeout_seconds'' 5\<rparr>) m2 = Some ((0, Some (p, c')), m')"
  using assms unfolding read_socket_settings_def Let_def
  by (auto simp: bind_eq_Some_conv errno_defs not_le split: if_splits)

lemma create_server_config_ok:
  assumes "create_server_config ok lc file_ok tmpdir m = Some ((0, Some (p, c)), m')"
  obtains c0 where "read_numeric_settings lc = Inr c0" "ok (calls m)"
    "read_socket_settings ok lc tmpdir (calls m) c0
      (config_init (m\<lparr>blocks := insert (calls m) (blocks m), calls := Suc (calls m)\<rparr>)) =
      Some ((0, Some (p, c)), m')"
  using assms unfolding create_server_config_def cmalloc_def Let_def
  by (auto simp: bind_eq_Some_conv errno_defs dest: read_numeric_settings_cases
      split: if_splits sum.splits)


subsection \<open>Memory\<close>

definition str_blocks :: "cstr \<Rightarrow> nat list" where
  "str_blocks s = (case s of None \<Rightarrow> [] | Some (k, v) \<Rightarrow> [k])"

definition owned_list :: "nat \<Rightarrow> server_config \<Rightarrow> nat list" where
  "owned_list p c = p # str_blocks (bind_address c) @ str_blocks (base_path c) @ str_blocks (device_serial c)"

text \<open>The heap holds the blocks \<open>B\<close> of others and the distinct blocks \<open>ks\<close>.\<close>

definition owns :: "nat set \<Rightarrow> nat list \<Rightarrow> cmem \<Rightarrow> bool" where
  "owns B ks m \<longleftrightarrow> blocks m = B \<union> set ks \<and> B \<inter> set ks = {} \<and> distinct ks \<and> (\<forall>k \<in> blocks m. k < calls m)"

lemma str_blocks_simps [simp]: "str_blocks None = []" "str_blocks (Some (k, v)) = [k]"
  by (simp_all add: str_blocks_def)

lemma config_destroy_simps [simp]:
  "blocks (config_destroy m) = blocks m" "calls (config_destroy m) = calls m"
  "parsers (config_destroy m) = parsers m - 1" "owns B ks (config_destroy m) = owns B ks m"
  by (simp_all add: config_destroy_def owns_def)

lemma owns_set: "owns B ks m \<Longrightarrow> set ks' = set ks \<Longrightarrow> distinct ks' \<Longrightarrow> owns B ks' m"
  by (simp add: owns_def)

lemma owns_malloc:
  assumes "owns B ks m"
  shows "owns B (calls m # ks) (m\<lparr>blocks := insert (calls m) (blocks m), calls := Suc (calls m)\<rparr>)"
    and "owns B ks (m\<lparr>calls := Suc (calls m)\<rparr>)"
proof -
  from assms have b: "blocks m = B \<union> set ks" "B \<inter> set ks = {}" "distinct ks"
    and lt: "\<And>k. k \<in> blocks m \<Longrightarrow> k < calls m" by (auto simp: owns_def)
  from lt [of "calls m"] b(1) have new: "calls m \<notin> B" "calls m \<notin> set ks" by auto
  from lt have lt': "\<And>k. k \<in> blocks m \<Longrightarrow> k < Suc (calls m)" by (simp add: less_SucI)
  show "owns B ks (m\<lparr>calls := Suc (calls m)\<rparr>)" using b lt' by (simp add: owns_def)
  show "owns B (calls m # ks) (m\<lparr>blocks := insert (calls m) (blocks m), calls := Suc (calls m)\<rparr>)"
    using b new lt' by (simp add: owns_def)
qed

lemma cfree_owned:
  assumes "owns B (k # ks) m"
  shows "\<exists>m'. cfree (Some k) m = Some m' \<and> owns B ks m' \<and> parsers m' = parsers m"
  using assms by (auto simp: owns_def cfree_def)

lemma cfree_str:
  assumes "owns B (str_blocks s @ ks) m"
  shows "\<exists>m'. cfree (map_option fst s) m = Some m' \<and> owns B ks m' \<and> parsers m' = parsers m"
proof (cases s)
  case None
  with assms show ?thesis by (simp add: cfree_def)
next
  case (Some a)
  then show ?thesis using assms cfree_owned [of B "fst a" ks m] by (cases a) simp
qed

lemma destroy_owned:
  assumes "owns B (owned_list p c) m"
  shows "\<exists>m'. destroy_server_config (Some (p, c)) m = Some m' \<and> blocks m' = B \<and> parsers m' = parsers m"
proof -
  from assms have "owns B (str_blocks (bind_address c) @ str_blocks (base_path c) @
      str_blocks (device_serial c) @ [p]) m"
    by (rule owns_set) (use assms in \<open>auto simp: owned_list_def owns_def\<close>)
  from cfree_str [OF this] obtain m1 where m1: "cfree (map_option fst (bind_address c)) m = Some m1"
    "owns B (str_blocks (base_path c) @ str_blocks (device_serial c) @ [p]) m1" "parsers m1 = parsers m"
    by blast
  from cfree_str [OF m1(2)] obtain m2 where m2: "cfree (map_option fst (base_path c)) m1 = Some m2"
    "owns B (str_blocks (device_serial c) @ [p]) m2" "parsers m2 = parsers m1" by blast
  from cfree_str [OF m2(2)] obtain m3 where m3: "cfree (map_option fst (device_serial c)) m2 = Some m3"
    "owns B [p] m3" "parsers m3 = parsers m2" by blast
  from cfree_owned [OF m3(2)] obtain m4 where "cfree (Some p) m3 = Some m4" "owns B [] m4"
    "parsers m4 = parsers m3" by blast
  with m1 m2 m3 show ?thesis by (simp add: destroy_server_config_def owns_def)
qed

text \<open>Copying a string into a field adds its block to the owned ones, or nothing.\<close>

lemma read_and_copy_str_owns:
  assumes "read_and_copy_str ok lc s d m = Some (x, m')" "owns B ks m"
  shows "owns B (str_blocks x @ ks) m' \<and> parsers m' = parsers m"
  using assms(1) by (rule read_and_copy_strE) (use assms(2) owns_malloc [OF assms(2)] in auto)

lemma read_output_settings_memory:
  assumes "read_output_settings ok lc tmpdir result c m = Some ((code, out), m')"
    "owns B (owned_list result c) m" "base_path c = None"
  shows "parsers m' = parsers m - 1 \<and>
    (case out of None \<Rightarrow> code < 0 \<and> blocks m' = B
     | Some (p, c') \<Rightarrow> code = 0 \<and> owns B (owned_list p c') m')"
proof -
  let ?d = "case tmpdir of None \<Rightarrow> ''/tmp'' | Some d \<Rightarrow> d"
  from assms(1) obtain path m1 where rd:
    "read_and_copy_str ok lc (config_lookup lc ''base_path'') (Some ?d) m = Some (path, m1)"
    by (auto simp: read_output_settings_def Let_def bind_eq_Some_conv)
  from read_and_copy_str_owns [OF rd assms(2)]
  have o: "owns B (str_blocks path @ owned_list result c) m1" "parsers m1 = parsers m" by auto
  show ?thesis
  proof (cases path)
    case None
    with o have "owns B (owned_list result c) (config_destroy m1)" by simp
    from destroy_owned [OF this] assms(1) rd None o(2) show ?thesis
      by (auto simp: read_output_settings_def Let_def errno_defs)
  next
    case (Some a)
    let ?c1 = "c\<lparr>base_path := path, use_gzip := config_read_bool lc ''use_gzip'' True\<rparr>"
    have own: "owns B (owned_list result ?c1) (config_destroy m1)"
      "\<And>opt. owns B (owned_list result (?c1\<lparr>optimization := opt\<rparr>)) (config_destroy m1)"
      using o(1) assms(3) by (auto simp: owned_list_def owns_def)
    from destroy_owned [OF own(1)] own(2) assms(1) rd Some o(2) show ?thesis
      by (auto simp: read_output_settings_def Let_def bind_eq_Some_conv split: if_splits)
  qed
qed

text \<open>
  A failing copy of the address frees the record only: the copy of the serial number stays.
\<close>

lemma read_socket_settings_memory:
  assumes run: "read_socket_settings ok lc tmpdir result c m = Some ((code, out), m')"
    and own: "owns B [result] m" and c: "no_strings c"
  shows "parsers m' = parsers m - 1 \<and>
    (case out of None \<Rightarrow> code < 0 \<and> (blocks m' = B \<or>
        config_lookup lc ''device_serial'' \<noteq> None \<and> ok (calls m) \<and> \<not> ok (Suc (calls m)) \<and>
        blocks m' = insert (calls m) B)
     | Some (p, c') \<Rightarrow> code = 0 \<and> owns B (owned_list p c') m')"
proof -
  from run obtain serial m1 where s: "read_and_copy_str ok lc (config_lookup lc ''device_serial'') None m =
    Some (serial, m1)" by (auto simp: read_socket_settings_def bind_eq_Some_conv)
  with run obtain address m2 where a: "read_and_copy_str ok lc (config_lookup lc ''bind_address'')
    (Some ''127.0.0.1'') m1 = Some (address, m2)"
    by (auto simp: read_socket_settings_def bind_eq_Some_conv)
  from read_and_copy_str_owns [OF s own] have o1: "owns B (str_blocks serial @ [result]) m1"
    "parsers m1 = parsers m" by auto
  from read_and_copy_str_owns [OF a o1(1)]
  have o2: "owns B (str_blocks address @ str_blocks serial @ [result]) m2" "parsers m2 = parsers m"
    using o1(2) by auto
  show ?thesis
  proof (cases address)
    case None
    from a None have f: "\<not> ok (calls m1)" by (auto elim: read_and_copy_strE)
    from s have k: "serial = None \<or> (\<exists>v. serial = Some (calls m, v)) \<and> ok (calls m) \<and>
        calls m1 = Suc (calls m) \<and> config_lookup lc ''device_serial'' \<noteq> None"
      by (auto elim: read_and_copy_strE)
    have "owns B (result # str_blocks serial) (config_destroy m2)"
      using o2(1) None by (auto simp: owns_def)
    from cfree_owned [OF this] obtain m3 where m3: "cfree (Some result) (config_destroy m2) = Some m3"
      "owns B (str_blocks serial) m3" "parsers m3 = parsers m2 - 1" by auto
    with run s a None have "code = - ENOMEM" "out = None" "m' = m3"
      by (simp_all add: read_socket_settings_def)
    with m3 o2(2) f k show ?thesis by (auto simp: owns_def errno_defs)
  next
    case (Some b)
    let ?c2 = "socket_config lc serial address c"
    let ?c3 = "?c2\<lparr>read_timeout_seconds := config_read_int lc ''read_timeout_seconds'' 5\<rparr>"
    have list: "set (owned_list result ?c2) = set (str_blocks address @ str_blocks serial @ [result])"
      "distinct (owned_list result ?c2) = distinct (str_blocks address @ str_blocks serial @ [result])"
      "owned_list result ?c3 = owned_list result ?c2" "base_path ?c3 = None"
      using c by (auto simp: owned_list_def socket_config_def no_strings_def)
    have own2: "owns B (owned_list result ?c2) m2"
      by (rule owns_set [OF o2(1) list(1)]) (use o2(1) list(2) in \<open>simp add: owns_def\<close>)
    show ?thesis
    proof (cases "config_read_int lc ''read_timeout_seconds'' 5 \<le> 0")
      case True
      from own2 have "owns B (owned_list result ?c2) (config_destroy m2)" by simp
      from destroy_owned [OF this] run s a Some True o2(2) show ?thesis
        by (auto simp: read_socket_settings_def Let_def)
    next
      case False
      with run s a Some have r: "read_output_settings ok lc tmpdir result ?c3 m2 = Some ((code, out), m')"
        by (simp add: read_socket_settings_def Let_def)
      from own2 list(3) have "owns B (owned_list result ?c3) m2" by simp
      from read_output_settings_memory [OF r this list(4)] o2(2) show ?thesis
        by (cases out) simp_all
    qed
  qed
qed

text \<open>Memory of the configuration.  Every outcome of \<open>create_server_config\<close> destroys the
  libconfig object.  On success \<open>destroy_server_config\<close> gives back, without a double free, exactly
  the blocks the call had allocated.  On failure nothing stays allocated, with one exception the
  theorem pins down: when the copy of \<open>bind_address\<close> fails to allocate, the copy of
  \<open>device_serial\<close> made before it is never freed.\<close>

theorem config_memory:
  assumes "\<forall>k \<in> blocks m. k < calls m"
    and "create_server_config ok lc file_ok tmpdir m = Some ((code, out), m')"
  shows "parsers m' = parsers m \<and>
    (case out of
       Some (p, c) \<Rightarrow> code = 0 \<and> (\<exists>m''. destroy_server_config out m' = Some m'' \<and> blocks m'' = blocks m)
     | None \<Rightarrow> code < 0 \<and> (blocks m' = blocks m \<or>
         config_lookup lc ''device_serial'' \<noteq> None \<and> ok (Suc (calls m)) \<and> \<not> ok (Suc (Suc (calls m))) \<and>
         blocks m' = insert (Suc (calls m)) (blocks m)))"
proof (cases "ok (calls m)")
  case False
  with assms(2) show ?thesis
    by (auto simp: create_server_config_def cmalloc_def errno_defs)
next
  case True
  let ?m = "config_init (m\<lparr>blocks := insert (calls m) (blocks m), calls := Suc (calls m)\<rparr>)"
  have "owns (blocks m) [] m" using assms(1) by (simp add: owns_def)
  from owns_malloc(1) [OF this] have own: "owns (blocks m) [calls m] ?m"
    by (simp add: owns_def config_init_def)
  have init: "calls ?m = Suc (calls m)" "parsers (config_destroy ?m) = parsers m"
    by (simp_all add: config_init_def config_destroy_def)
  have fail: "\<exists>m3. cfree (Some (calls m)) (config_destroy ?m) = Some m3 \<and> blocks m3 = blocks m \<and>
      parsers m3 = parsers m"
    using cfree_owned [of "blocks m" "calls m" "[]" "config_destroy ?m"] own init by (auto simp: owns_def)
  show ?thesis
  proof (cases "file_ok \<and> (\<exists>c. read_numeric_settings lc = Inr c)")
    case False
    with assms(2) True fail show ?thesis
      by (auto simp: create_server_config_def cmalloc_def Let_def dest: read_numeric_settings_cases
          split: sum.splits)
  next
    case ok: True
    then obtain c where num: "read_numeric_settings lc = Inr c" by blast
    with assms(2) True ok have run:
      "read_socket_settings ok lc tmpdir (calls m) c ?m = Some ((code, out), m')"
      by (simp add: create_server_config_def cmalloc_def)
    from read_socket_settings_memory [OF run own] read_numeric_settings_cases(2) [OF num] init
    show ?thesis by (cases out) (use destroy_owned in \<open>fastforce+\<close>)
  qed
qed

subsection \<open>Concrete files\<close>

text \<open>A file as a list of named values; integers and strings only.\<close>

datatype demo_value = Int_value int | Str_value string

definition demo_lib :: "(string \<times> demo_value) list \<Rightarrow> demo_value libconfig" where
  "demo_lib kvs =
     \<lparr>config_lookup = map_of kvs,
      get_int = \<lambda>v. case v of Int_value i \<Rightarrow> i | Str_value s \<Rightarrow> 0,
      get_bool = \<lambda>v. case v of Int_value i \<Rightarrow> i \<noteq> 0 | Str_value s \<Rightarrow> False,
      get_string = \<lambda>v. case v of Int_value i \<Rightarrow> None | Str_value s \<Rightarrow> Some s,
      get_gain = \<lambda>v. case v of Int_value i \<Rightarrow> 10 * i | Str_value s \<Rightarrow> 0\<rparr>"

definition no_mem :: cmem where
  "no_mem = \<lparr>blocks = {}, calls = 0, parsers = 0\<rparr>"

lemmas config_eval = create_server_config_def read_numeric_settings_def read_tuner_settings_def
  read_socket_settings_def read_output_settings_def socket_config_def forced_buffer_size_def
  read_and_copy_str_def copy_str_def config_read_int_def config_read_uint32_t_def config_read_bool_def
  config_read_float_gain_def config_parse_cpu_optimization_def cmalloc_def cfree_def config_init_def
  config_destroy_def destroy_server_config_def zero_config_def demo_lib_def no_mem_def config_consts
  Let_def errno_defs


theorem config_memory_witness:
  "\<exists>m. create_server_config (\<lambda>k. k < 2) (demo_lib [(''device_serial'', Str_value ''00000100''),
      (''band_sampling_rate'', Int_value 2400000)]) True None no_mem = Some ((- ENOMEM, None), m) \<and>
    blocks m = {1} \<and> parsers m = 0"
proof -
  have r: "\<exists>m. create_server_config (\<lambda>k. k < 2) (demo_lib [(''device_serial'', Str_value ''00000100''),
      (''band_sampling_rate'', Int_value 2400000)]) True None no_mem = Some ((- ENOMEM, None), m) \<and>
    blocks m = {1}"
    by (simp add: config_eval insert_Diff_if)
  then show ?thesis
    using config_memory [of no_mem "\<lambda>k. k < 2"] by (fastforce simp: no_mem_def)
qed

end
