(* ===== verification/Request.thy ===== *)
theory Request
  imports Wire Config
begin

text \<open>
  What the server reads from and answers to one client: \<open>read_client_config\<close>,
  \<open>validate_client_config\<close> and \<open>write_message\<close> of \<open>src/src/tcp_server.c\<close>, and the other end of the
  connection, \<open>write_request\<close>, \<open>send_message\<close>, \<open>read_response\<close> of \<open>src/src/client/tcp_client.c\<close>.
\<close>

subsection \<open>The server's side\<close>

record client_config =
  center_freq :: u32
  sampling_rate :: u32
  band_freq :: u32
  destination :: u8
  client_socket :: nat
  cc_id :: u32
  cc_sdr_type :: int
  is_running :: bool

definition zero_client :: client_config where
  "zero_client = \<lparr>center_freq = 0, sampling_rate = 0, band_freq = 0, destination = 0,
     client_socket = 0, cc_id = 0, cc_sdr_type = 0, is_running = False\<rparr>"

text \<open>
  \<open>read_client_config\<close> on a host of byte order \<open>e\<close>; \<open>mem_ok\<close> is the success of its \<open>malloc\<close>, \<open>sock\<close>
  the socket whose events follow.
\<close>

definition read_client_config :: "endian \<Rightarrow> bool \<Rightarrow> server_config \<Rightarrow> nat \<Rightarrow> recv_event list
    \<Rightarrow> (int + client_config) \<times> recv_event list" where
  "read_client_config e mem_ok server sock evs =
     (if \<not> mem_ok then (Inl (- ENOMEM), evs)
      else case read_struct sizeof_request evs of ((code, bs), evs') \<Rightarrow>
        if code < 0 then (Inl (- 1), evs')
        else
          let req = request_of_bytes e bs;
              result = zero_client
                \<lparr>center_freq := ntohl e (rq_center_freq req),
                 sampling_rate := ntohl e (rq_sampling_rate req),
                 band_freq := ntohl e (rq_band_freq req),
                 client_socket := sock,
                 destination := rq_destination req\<rparr>
          in if 0 < sampling_rate result \<and> band_sampling_rate server mod sampling_rate result \<noteq> 0
             then (Inl (- 1), evs')
             else (Inr result, evs'))"

definition validate_client_config :: "client_config \<Rightarrow> server_config \<Rightarrow> int" where
  "validate_client_config config server =
     (if center_freq config = 0 then - 1
      else if sampling_rate config = 0 then - 1
      else if band_freq config = 0 then - 1
      else if destination config \<noteq> REQUEST_DESTINATION_FILE \<and> destination config \<noteq> REQUEST_DESTINATION_SOCKET
      then - 1
      else
        let requested_min_freq = center_freq config - sampling_rate config div 2;
            server_min_freq = band_freq config - band_sampling_rate server div 2
        in if requested_min_freq < server_min_freq then - 1
        else
          let requested_max_freq = center_freq config + sampling_rate config div 2;
              server_max_freq = band_freq config + band_sampling_rate server div 2
          in if requested_max_freq > server_max_freq then - 1 else 0)"

definition write_message :: "endian \<Rightarrow> u8 \<Rightarrow> u32 \<Rightarrow> write_event list \<Rightarrow> (int \<times> u8 list) \<times> write_event list" where
  "write_message e status details evs =
     (let header = \<lparr>protocol_version = PROTOCOL_VERSION, msg_type = TYPE_RESPONSE\<rparr>;
          resp = \<lparr>rs_status = status, rs_details = htonl e details\<rparr>
      in write_loop (header_bytes header @ response_bytes e resp) evs)"

subsection \<open>The client's side\<close>

definition write_data :: "u8 list \<Rightarrow> write_event list \<Rightarrow> (int \<times> u8 list) \<times> write_event list" where
  "write_data buffer evs = write_loop buffer evs"

definition read_data :: "nat \<Rightarrow> recv_event list \<Rightarrow> (int \<times> u8 list) \<times> recv_event list" where
  "read_data len evs = read_struct len evs"

definition write_request :: "endian \<Rightarrow> bool \<Rightarrow> message_header \<Rightarrow> request \<Rightarrow> write_event list
    \<Rightarrow> (int \<times> u8 list) \<times> write_event list" where
  "write_request e mem_ok header req evs =
     (if \<not> mem_ok then ((- ENOMEM, []), evs)
      else
        let req' = req\<lparr>rq_band_freq := htonl e (rq_band_freq req),
                       rq_center_freq := htonl e (rq_center_freq req),
                       rq_sampling_rate := htonl e (rq_sampling_rate req)\<rparr>
        in write_data (header_bytes header @ request_bytes e req') evs)"

definition send_message :: "endian \<Rightarrow> bool \<Rightarrow> u8 \<Rightarrow> u8 \<Rightarrow> u32 \<Rightarrow> u32 \<Rightarrow> u32 \<Rightarrow> u8 \<Rightarrow> write_event list
    \<Rightarrow> (int \<times> u8 list) \<times> write_event list" where
  "send_message e mem_ok protocol type center rate band dest evs =
     write_request e mem_ok \<lparr>protocol_version = protocol, msg_type = type\<rparr>
       \<lparr>rq_center_freq = center, rq_sampling_rate = rate, rq_band_freq = band, rq_destination = dest\<rparr> evs"

definition read_response :: "endian \<Rightarrow> bool \<Rightarrow> bool \<Rightarrow> recv_event list
    \<Rightarrow> (int + message_header \<times> response) \<times> recv_event list" where
  "read_response e mem1 mem2 evs =
     (if \<not> mem1 then (Inl (- ENOMEM), evs)
      else case read_data sizeof_header evs of ((code, hbs), evs1) \<Rightarrow>
        if code \<noteq> 0 then (Inl code, evs1)
        else if \<not> mem2 then (Inl (- ENOMEM), evs1)
        else case read_data sizeof_response evs1 of ((code, rbs), evs2) \<Rightarrow>
          if code \<noteq> 0 then (Inl code, evs2)
          else
            let result = response_of_bytes e rbs
            in (Inr (header_of_bytes hbs, result\<lparr>rs_details := ntohl e (rs_details result)\<rparr>), evs2))"

lemma read_header_weight:
  assumes "read_data sizeof_header evs = ((code, bs), evs')" "code \<noteq> - 1"
  shows "weight evs' < weight evs"
  using assms read_struct_weight [of evs sizeof_header]
  by (cases "evs = []") (auto simp: read_data_def sizeof_header_def)

text \<open>
  \<open>gracefully_destroy_client\<close> reads headers until the server closes; the result counts them.
  A read timeout is not the end.
\<close>

function drain_headers :: "recv_event list \<Rightarrow> nat \<times> recv_event list" where
  "drain_headers evs =
     (case read_data sizeof_header evs of ((code, bs), evs') \<Rightarrow>
        if code < - 1 then drain_headers evs'
        else if code = - 1 then (0, evs')
        else apfst Suc (drain_headers evs'))"
  by pat_completeness auto
termination
  by (relation "measure weight") (auto dest!: read_header_weight [OF sym])

declare drain_headers.simps [simp del]

subsection \<open>Reading and writing whole messages\<close>

text \<open>Contract of \<open>read_struct\<close>.  Whatever the sizes in which the bytes arrive and however often
  the call is interrupted, \<open>read_struct\<close> returns 0 and exactly the next \<open>len\<close> bytes, leaving the rest
  for the next call, when that many bytes arrive before a close, a timeout or an error; otherwise it
  fails, with \<open>-EAGAIN\<close> only for a timeout and \<open>-1\<close> for the rest, and every byte it had read is
  consumed and lost.\<close>

theorem read_struct_contract:
  "(len \<le> length (pending evs) \<longrightarrow>
      (\<exists>evs'. read_struct len evs = ((0, take len (pending evs)), evs') \<and>
        pending evs' = drop len (pending evs) \<and> stop_code evs' = stop_code evs)) \<and>
   (length (pending evs) < len \<longrightarrow>
      fst (read_struct len evs) = (stop_code evs, pending evs) \<and> stop_code evs \<in> {- 1, - EAGAIN})"
  using read_struct_enough [of len evs] read_struct_short [of evs len] stop_code_cases [of evs] by auto

theorem read_struct_contract_witness:
  "fst (read_struct 3 [Arrive [1], Recv_error EINTR, Arrive [2, 3, 4]]) = (0, [1, 2, 3]) \<and>
   fst (read_struct 3 [Arrive [1, 2], Recv_error EAGAIN, Arrive [3]]) = (- EAGAIN, [1, 2])"
  using read_struct_contract [of 3 "[Arrive [1], Recv_error EINTR, Arrive [2, 3, 4]]"]
    read_struct_contract [of 3 "[Arrive [1, 2], Recv_error EAGAIN, Arrive [3]]"]
  by (auto simp: errno_defs)

lemma write_loop_sent: "fst (write_loop buf evs) = (0, sent) \<Longrightarrow> sent = buf"
  using write_loop_prefix [of buf evs] by auto

lemma read_struct_prefix:
  assumes "pending evs = bs @ rest" "length bs = n"
  shows "\<exists>evs'. read_struct n evs = ((0, bs), evs') \<and> pending evs' = rest"
  using read_struct_enough [of n evs] assms by auto

text \<open>C34.  A request crosses the wire.  What a client of either byte order sends with \<open>send_message\<close>,
  however the kernel splits the writes and the reads, a server of either byte order reads back as the
  same header and the same four fields, without touching the bytes that follow, whenever the client's
  rate divides the band's.\<close>

theorem request_roundtrip:
  assumes "fst (send_message ec True v t center rate band dest wevs) = (0, sent)"
    and "pending revs = sent @ rest"
    and "rate = 0 \<or> band_sampling_rate server mod rate = 0"
  shows "\<exists>revs1 revs2. read_struct sizeof_header revs = ((0, [v, t]), revs1) \<and>
    read_client_config es True server sock revs1 =
      (Inr (zero_client\<lparr>center_freq := center, sampling_rate := rate, band_freq := band,
         destination := dest, client_socket := sock\<rparr>), revs2) \<and>
    pending revs2 = rest"
proof -
  let ?h = "\<lparr>protocol_version = v, msg_type = t\<rparr>"
  let ?body = "big_bytes center @ big_bytes rate @ big_bytes band @ [dest]"
  have "sent = header_bytes ?h @ ?body"
    using write_loop_sent [OF assms(1) [unfolded send_message_def write_request_def write_data_def
        Let_def if_not_P [OF not_not [THEN iffD2, OF TrueI]]]]
    by (simp add: request_bytes_def)
  with assms(2) obtain revs1 where r1: "read_struct sizeof_header revs = ((0, header_bytes ?h), revs1)"
    "pending revs1 = ?body @ rest"
    using read_struct_prefix [of revs "header_bytes ?h" "?body @ rest" sizeof_header] by auto
  from read_struct_prefix [OF r1(2), of sizeof_request] obtain revs2 where
    r2: "read_struct sizeof_request revs1 = ((0, ?body), revs2)" "pending revs2 = rest"
    by (auto simp: sizeof_request_def)
  have "request_of_bytes es ?body = \<lparr>rq_center_freq = load_u32 es (big_bytes center),
      rq_sampling_rate = load_u32 es (big_bytes rate), rq_band_freq = load_u32 es (big_bytes band),
      rq_destination = dest\<rparr>"
    by (simp add: request_of_bytes_def nth_append)
  with r1 r2 assms(3) show ?thesis
    by (auto simp: read_client_config_def header_bytes_def Let_def zero_client_def)
qed

theorem request_roundtrip_witness:
  "\<exists>revs1 revs2. read_struct sizeof_header
      [Arrive [0], Recv_error EINTR, Arrive [0, 26, 4, 240], Arrive [176, 0, 0, 187, 128, 26, 6, 119, 80, 1, 9]] =
      ((0, [0, 0]), revs1) \<and>
    read_client_config Little True (zero_config\<lparr>band_sampling_rate := 2016000\<rparr>) 5 revs1 =
      (Inr (zero_client\<lparr>center_freq := 436531376, sampling_rate := 48000, band_freq := 436631376,
         destination := 1, client_socket := 5\<rparr>), revs2) \<and> pending revs2 = [9]"
  using request_roundtrip [of Big 0 0 436531376 48000 436631376 1 "[Accept 3, Accept 0, Accept 7]"
      "[0, 0, 26, 4, 240, 176, 0, 0, 187, 128, 26, 6, 119, 80, 1]"
      "[Arrive [0], Recv_error EINTR, Arrive [0, 26, 4, 240], Arrive [176, 0, 0, 187, 128, 26, 6, 119, 80, 1, 9]]"
      "[9]" "zero_config\<lparr>band_sampling_rate := 2016000\<rparr>" Little 5]
  by (simp add: send_message_def write_request_def write_data_def header_bytes_def request_bytes_def
      big_bytes_def errno_defs)

text \<open>A response crosses the wire.  What \<open>write_message\<close> sends, split in any way by the kernel,
  \<open>read_response\<close> returns on a client of any byte order: the protocol version, the type
  \<open>TYPE_RESPONSE\<close>, the status and the details in host order; the samples that follow stay unread.\<close>

theorem response_roundtrip:
  assumes "fst (write_message es status details wevs) = (0, sent)" "pending revs = sent @ rest"
  shows "\<exists>revs'. read_response ec True True revs =
      (Inr (\<lparr>protocol_version = PROTOCOL_VERSION, msg_type = TYPE_RESPONSE\<rparr>,
        \<lparr>rs_status = status, rs_details = details\<rparr>), revs') \<and> pending revs' = rest"
proof -
  let ?h = "\<lparr>protocol_version = PROTOCOL_VERSION, msg_type = TYPE_RESPONSE\<rparr>"
  have "sent = header_bytes ?h @ (status # big_bytes details)"
    using write_loop_sent [OF assms(1) [unfolded write_message_def Let_def]]
    by (simp add: response_bytes_def)
  with assms(2) obtain revs1 where r1: "read_struct sizeof_header revs = ((0, header_bytes ?h), revs1)"
    "pending revs1 = (status # big_bytes details) @ rest"
    using read_struct_prefix [of revs "header_bytes ?h" "(status # big_bytes details) @ rest" sizeof_header]
    by auto
  from read_struct_prefix [OF r1(2), of sizeof_response] obtain revs2 where
    r2: "read_struct sizeof_response revs1 = ((0, status # big_bytes details), revs2)" "pending revs2 = rest"
    by (auto simp: sizeof_response_def)
  with r1 show ?thesis
    by (simp add: read_response_def read_data_def response_of_bytes_def Let_def)
qed

theorem response_roundtrip_witness:
  "\<exists>revs'. read_response Little True True [Arrive [0, 2, 1], Arrive [0, 0, 0, 2, 77]] =
      (Inr (\<lparr>protocol_version = 0, msg_type = 2\<rparr>, \<lparr>rs_status = 1, rs_details = 2\<rparr>), revs') \<and>
    pending revs' = [77]"
  using response_roundtrip [of Big 1 2 "[Accept 1]" "[0, 2, 1, 0, 0, 0, 2]"
      "[Arrive [0, 2, 1], Arrive [0, 0, 0, 2, 77]]" "[77]" Little]
  by (simp add: write_message_def header_bytes_def response_bytes_def big_bytes_def api_defs)

subsection \<open>Which clients are admitted\<close>

lemma unat_half: "unat (x div 2) = unat x div (2::nat)" for x :: u32
  by (simp add: unat_div_distrib)

lemma unat_minus_half:
  "unat r div 2 \<le> unat f \<Longrightarrow> unat (f - r div 2) = unat f - unat r div 2" for f r :: u32
  by (subst unat_sub) (simp_all add: unat_half word_le_nat_alt)

lemma unat_plus_half:
  "unat f + unat r div 2 < 2 ^ 32 \<Longrightarrow> unat (f + r div 2) = unat f + unat r div 2" for f r :: u32
  by (subst unat_add_lem [THEN iffD1]) (simp_all add: unat_half)

text \<open>C19.  The band check.  As long as no edge of the client's channel or of the server's band leaves
  the range of \<open>uint32_t\<close>, \<open>validate_client_config\<close> accepts exactly the requests with a frequency, a
  rate, a band and a known destination whose channel lies inside the band; it never returns anything
  but 0 and -1.\<close>

theorem validate_accepts_contained_channels:
  assumes "unat (sampling_rate c) div 2 \<le> unat (center_freq c)"
    and "unat (band_sampling_rate s) div 2 \<le> unat (band_freq c)"
    and "unat (center_freq c) + unat (sampling_rate c) div 2 < 2 ^ 32"
    and "unat (band_freq c) + unat (band_sampling_rate s) div 2 < 2 ^ 32"
  shows "validate_client_config c s \<in> {0, - 1} \<and>
    (validate_client_config c s = 0 \<longleftrightarrow>
      center_freq c \<noteq> 0 \<and> sampling_rate c \<noteq> 0 \<and> band_freq c \<noteq> 0 \<and> destination c \<in> {0, 1} \<and>
      int (unat (band_freq c)) - int (unat (band_sampling_rate s) div 2)
        \<le> int (unat (center_freq c)) - int (unat (sampling_rate c) div 2) \<and>
      int (unat (center_freq c)) + int (unat (sampling_rate c) div 2)
        \<le> int (unat (band_freq c)) + int (unat (band_sampling_rate s) div 2))"
proof -
  have lower: "center_freq c - sampling_rate c div 2 < band_freq c - band_sampling_rate s div 2 \<longleftrightarrow>
      \<not> int (unat (band_freq c)) - int (unat (band_sampling_rate s) div 2)
        \<le> int (unat (center_freq c)) - int (unat (sampling_rate c) div 2)"
    unfolding word_less_nat_alt unat_minus_half [OF assms(1)] unat_minus_half [OF assms(2)]
    using assms(1,2) by linarith
  have upper: "band_freq c + band_sampling_rate s div 2 < center_freq c + sampling_rate c div 2 \<longleftrightarrow>
      \<not> int (unat (center_freq c)) + int (unat (sampling_rate c) div 2)
        \<le> int (unat (band_freq c)) + int (unat (band_sampling_rate s) div 2)"
    unfolding word_less_nat_alt unat_plus_half [OF assms(3)] unat_plus_half [OF assms(4)] by linarith
  show ?thesis
    unfolding validate_client_config_def Let_def lower upper api_defs by (auto simp del: of_nat_add of_nat_diff)
qed

theorem validate_accepts_contained_channels_witness:
  "validate_client_config (zero_client\<lparr>center_freq := 436600000, sampling_rate := 48000,
      band_freq := 436000000, destination := 1\<rparr>) (zero_config\<lparr>band_sampling_rate := 2016000\<rparr>) = 0 \<and>
   validate_client_config (zero_client\<lparr>center_freq := 437600000, sampling_rate := 48000,
      band_freq := 436000000, destination := 1\<rparr>) (zero_config\<lparr>band_sampling_rate := 2016000\<rparr>) = - 1"
  using validate_accepts_contained_channels
      [of "zero_client\<lparr>center_freq := 436600000, sampling_rate := 48000,
        band_freq := 436000000, destination := 1\<rparr>" "zero_config\<lparr>band_sampling_rate := 2016000\<rparr>"]
    validate_accepts_contained_channels
      [of "zero_client\<lparr>center_freq := 437600000, sampling_rate := 48000,
        band_freq := 436000000, destination := 1\<rparr>" "zero_config\<lparr>band_sampling_rate := 2016000\<rparr>"]
  by auto



end
