(* ===== verification/Connection.thy ===== *)
theory Connection
  imports Request
begin

text \<open>
  One client connection as \<open>src/src/tcp_server.c\<close> handles it: the first message in
  \<open>acceptor_worker\<close>, the part of \<open>handle_new_client\<close> before the mutex is taken, and the loop of
  \<open>tcp_worker\<close> that waits for the end of the client.
\<close>

subsection \<open>The first message\<close>

text \<open>
  The results of the calls whose success the environment decides: the three \<open>malloc\<close>s and
  \<open>pthread_create\<close>, the return code of \<open>dsp_worker_start\<close>, and the indeterminate value of the
  field \<open>dsp_worker\<close> in the node \<open>malloc\<close> returns (\<open>None\<close> is \<open>NULL\<close>), which a failing
  \<open>dsp_worker_start\<close> does not write.
\<close>

record client_env =
  config_mem :: bool
  node_mem :: bool
  start_code :: int
  thread_code :: int
  junk_worker :: ptr

text \<open>
  What becomes of a connection: an answer with status and details after which the socket is closed,
  or a client that is ready to be admitted: its configuration, its dsp worker and thread running.
\<close>

datatype outcome = Answered u8 u32 | Ready client_config

abbreviation failure :: "u32 \<Rightarrow> outcome" where
  "failure details \<equiv> Answered RESPONSE_STATUS_FAILURE details"

text \<open>
  \<open>tcp_node_destroy\<close> on a node whose \<open>dsp_worker\<close> field is \<open>worker\<close>: destroying a worker that is
  not one (\<open>valid\<close> says which pointers are) is undefined.
\<close>

definition tcp_node_destroy :: "(nat \<Rightarrow> bool) \<Rightarrow> ptr \<Rightarrow> unit option" where
  "tcp_node_destroy valid worker =
     (case worker of None \<Rightarrow> Some () | Some w \<Rightarrow> (if valid w then Some () else None))"

definition prepare_client :: "endian \<Rightarrow> client_env \<Rightarrow> server_config \<Rightarrow> u32 \<Rightarrow> nat \<Rightarrow> recv_event list
    \<Rightarrow> (outcome \<times> recv_event list) option" where
  "prepare_client e env server counter sock evs =
     (case read_client_config e (config_mem env) server sock evs of
        (Inl code, evs') \<Rightarrow> Some (failure RESPONSE_DETAILS_INVALID_REQUEST, evs')
      | (Inr config, evs') \<Rightarrow>
          if validate_client_config config server < 0
          then Some (failure RESPONSE_DETAILS_INVALID_REQUEST, evs')
          else
            let config' = config\<lparr>is_running := True, cc_id := counter, cc_sdr_type := sdr_type server\<rparr>
            in if \<not> node_mem env then Some (failure RESPONSE_DETAILS_INTERNAL_ERROR, evs')
               else if start_code env \<noteq> 0 then do {
                 tcp_node_destroy (\<lambda>_. False) (junk_worker env);
                 Some (failure RESPONSE_DETAILS_INTERNAL_ERROR, evs') }
               else if thread_code env \<noteq> 0 then do {
                 tcp_node_destroy (\<lambda>_. True) (Some 0);
                 Some (failure RESPONSE_DETAILS_INTERNAL_ERROR, evs') }
               else Some (Ready config', evs'))"

definition handle_connection :: "endian \<Rightarrow> client_env \<Rightarrow> server_config \<Rightarrow> u32 \<Rightarrow> nat \<Rightarrow> recv_event list
    \<Rightarrow> (outcome \<times> recv_event list) option" where
  "handle_connection e env server counter sock evs =
     (case read_struct sizeof_header evs of ((code, bs), evs1) \<Rightarrow>
        if code < 0 then Some (failure RESPONSE_DETAILS_INVALID_REQUEST, evs1)
        else
          let header = header_of_bytes bs
          in if protocol_version header \<noteq> PROTOCOL_VERSION
             then Some (failure RESPONSE_DETAILS_INVALID_REQUEST, evs1)
             else if msg_type header = TYPE_REQUEST then prepare_client e env server counter sock evs1
             else if msg_type header = TYPE_PING then Some (Answered RESPONSE_STATUS_SUCCESS 0, evs1)
             else Some (failure RESPONSE_DETAILS_INVALID_REQUEST, evs1))"

subsection \<open>Waiting for the end of the client\<close>

datatype worker_exit = Client_disconnected | Shutdown_requested

lemma read_struct_header_weight:
  assumes "read_struct sizeof_header evs = ((code, bs), evs')" "code \<noteq> - 1"
  shows "weight evs' < weight evs"
  using read_header_weight assms by (simp add: read_data_def)

function worker_loop :: "recv_event list \<Rightarrow> worker_exit" where
  "worker_loop evs =
     (case read_struct sizeof_header evs of ((code, bs), evs') \<Rightarrow>
        if code < - 1 then worker_loop evs'
        else if code = - 1 then Client_disconnected
        else
          let header = header_of_bytes bs
          in if protocol_version header \<noteq> PROTOCOL_VERSION then worker_loop evs'
             else if msg_type header \<noteq> TYPE_SHUTDOWN then worker_loop evs'
             else Shutdown_requested)"
  by pat_completeness auto
termination
  by (relation "measure weight") (auto dest!: read_struct_header_weight [OF sym])

declare worker_loop.simps [simp del]

subsection \<open>Properties\<close>

text \<open>C18.  Every connection is answered or admitted.  The request of a client, sent by
  \<open>send_message\<close> with the right version and type from a host of any byte order and delivered in any
  pieces, is admitted with exactly the client's parameters when \<open>validate_client_config\<close> accepts
  them and the resources can be had; it is refused as an invalid request when the rate does not
  divide the band rate or validation fails.\<close>

theorem connection_admits_valid_request:
  fixes sock :: nat
  assumes sent: "fst (send_message ec True PROTOCOL_VERSION TYPE_REQUEST center rate band dest wevs) = (0, sent)"
    and recv: "pending revs = sent @ rest"
    and env: "config_mem env" "node_mem env" "start_code env = 0" "thread_code env = 0"
  defines "c \<equiv> zero_client\<lparr>center_freq := center, sampling_rate := rate, band_freq := band,
    destination := dest, client_socket := sock\<rparr>"
  shows "\<exists>revs'. handle_connection es env server counter sock revs =
    Some (if (rate = 0 \<or> band_sampling_rate server mod rate = 0) \<and> validate_client_config c server = 0
      then Ready (c\<lparr>is_running := True, cc_id := counter, cc_sdr_type := sdr_type server\<rparr>)
      else failure RESPONSE_DETAILS_INVALID_REQUEST, revs')"
proof -
  have v: "validate_client_config c server < 0 \<longleftrightarrow> validate_client_config c server \<noteq> 0"
    by (auto simp: validate_client_config_def Let_def)
  let ?h = "\<lparr>protocol_version = PROTOCOL_VERSION, msg_type = TYPE_REQUEST\<rparr>"
  let ?body = "big_bytes center @ big_bytes rate @ big_bytes band @ [dest]"
  have "sent = header_bytes ?h @ ?body"
    using write_loop_sent [OF sent [unfolded send_message_def write_request_def write_data_def
        Let_def if_not_P [OF not_not [THEN iffD2, OF TrueI]]]]
    by (simp add: request_bytes_def)
  with recv obtain revs1 where r1: "read_struct sizeof_header revs = ((0, header_bytes ?h), revs1)"
    "pending revs1 = ?body @ rest"
    using read_struct_prefix [of revs "header_bytes ?h" "?body @ rest" sizeof_header] by auto
  from read_struct_prefix [OF r1(2), of sizeof_request] obtain revs2 where
    r2: "read_struct sizeof_request revs1 = ((0, ?body), revs2)" "pending revs2 = rest"
    by (auto simp: sizeof_request_def)
  have "request_of_bytes es ?body = \<lparr>rq_center_freq = load_u32 es (big_bytes center),
      rq_sampling_rate = load_u32 es (big_bytes rate), rq_band_freq = load_u32 es (big_bytes band),
      rq_destination = dest\<rparr>"
    by (simp add: request_of_bytes_def nth_append)
  with r2 have "read_client_config es True server sock revs1 =
    (if 0 < rate \<and> band_sampling_rate server mod rate \<noteq> 0 then Inl (- 1) else Inr c, revs2)"
    by (simp add: read_client_config_def Let_def c_def zero_client_def)
  with r1 v env show ?thesis
    by (auto simp: handle_connection_def prepare_client_def Let_def word_gt_0)
qed

theorem connection_admits_valid_request_witness:
  "\<exists>revs'. handle_connection Little
      \<lparr>config_mem = True, node_mem = True, start_code = 0, thread_code = 0, junk_worker = None\<rparr>
      (zero_config\<lparr>band_sampling_rate := 2016000\<rparr>) 3 5
      [Arrive [0], Arrive [0, 26, 4, 240, 176, 0, 0], Arrive [187, 128, 26, 6, 119, 80, 1]] =
    Some (Ready (zero_client\<lparr>center_freq := 436531376, sampling_rate := 48000, band_freq := 436631376,
      destination := 1, client_socket := 5, is_running := True, cc_id := 3, cc_sdr_type := 0\<rparr>), revs')"
proof -
  let ?env = "\<lparr>config_mem = True, node_mem = True, start_code = 0, thread_code = 0, junk_worker = None\<rparr>"
  let ?evs = "[Arrive [0], Arrive [0, 26, 4, 240, 176, 0, 0], Arrive [187, 128, 26, 6, 119, 80, 1]]"
  have "fst (send_message Big True PROTOCOL_VERSION TYPE_REQUEST 436531376 48000 436631376 1 [Accept 3]) =
    (0, [0, 0, 26, 4, 240, 176, 0, 0, 187, 128, 26, 6, 119, 80, 1])"
    by (simp add: send_message_def write_request_def write_data_def header_bytes_def request_bytes_def
      big_bytes_def api_defs)
  from connection_admits_valid_request [OF this, of ?evs "[]" ?env Little
      "zero_config\<lparr>band_sampling_rate := 2016000\<rparr>" 3 5]
  show ?thesis
    by (simp add: validate_client_config_def Let_def zero_client_def zero_config_def api_defs)
qed

text \<open>Broken first messages.  A ping is answered with success and nothing else is read; a
  connection that ends, fails or times out before its header or its request is complete, and a
  message of another version or type, are answered as invalid requests, whatever the resources.\<close>

theorem connection_refuses_broken_messages:
  "(pending evs = header_bytes \<lparr>protocol_version = PROTOCOL_VERSION, msg_type = TYPE_PING\<rparr> @ rest \<longrightarrow>
      (\<exists>evs'. handle_connection e env server counter sock evs = Some (Answered RESPONSE_STATUS_SUCCESS 0, evs') \<and>
        pending evs' = rest)) \<and>
   (length (pending evs) < sizeof_header \<longrightarrow>
      (\<exists>evs'. handle_connection e env server counter sock evs =
        Some (failure RESPONSE_DETAILS_INVALID_REQUEST, evs'))) \<and>
   (pending evs = header_bytes h @ rest \<and> (protocol_version h \<noteq> PROTOCOL_VERSION \<or>
       msg_type h \<notin> {TYPE_REQUEST, TYPE_PING} \<or> msg_type h = TYPE_REQUEST \<and> length rest < sizeof_request) \<longrightarrow>
      (\<exists>evs'. handle_connection e env server counter sock evs =
        Some (failure RESPONSE_DETAILS_INVALID_REQUEST, evs')))"
proof -
  have ok: "\<exists>evs'. read_struct sizeof_header evs = ((0, header_bytes g), evs') \<and> pending evs' = r"
    if "pending evs = header_bytes g @ r" for g r
    using read_struct_prefix [OF that] by simp
  have short: "\<exists>evs'. handle_connection e env server counter sock evs =
      Some (failure RESPONSE_DETAILS_INVALID_REQUEST, evs')" if "length (pending evs) < sizeof_header"
    using read_struct_short [OF that] stop_code_negative [of evs]
    by (cases "read_struct sizeof_header evs") (auto simp: handle_connection_def)
  have req: "\<exists>evs'. prepare_client e env server counter sock evs1 =
      Some (failure RESPONSE_DETAILS_INVALID_REQUEST, evs')" if "length (pending evs1) < sizeof_request" for evs1
    using read_struct_short [OF that] stop_code_negative [of evs1]
    by (cases "read_struct sizeof_request evs1") (auto simp: prepare_client_def read_client_config_def)
  show ?thesis
    using ok [of "\<lparr>protocol_version = PROTOCOL_VERSION, msg_type = TYPE_PING\<rparr>" rest] ok [of h rest] short req
    by (intro conjI impI) (auto simp: handle_connection_def Let_def api_defs)
qed

theorem connection_refuses_broken_messages_witness:
  "\<exists>evs' evs''. handle_connection Little
      \<lparr>config_mem = False, node_mem = False, start_code = - 1, thread_code = 1, junk_worker = None\<rparr>
      zero_config 0 5 [Arrive [0, 3]] = Some (Answered 0 0, evs') \<and>
    handle_connection Little
      \<lparr>config_mem = True, node_mem = True, start_code = 0, thread_code = 0, junk_worker = None\<rparr>
      zero_config 0 5 [Arrive [0, 0, 1, 2], Recv_error EAGAIN, Arrive [3]] = Some (Answered 1 1, evs'')"
  using connection_refuses_broken_messages [of "[Arrive [0, 3]]" "[]" Little
      "\<lparr>config_mem = False, node_mem = False, start_code = - 1, thread_code = 1, junk_worker = None\<rparr>"
      zero_config 0 5]
    connection_refuses_broken_messages [of "[Arrive [0, 0, 1, 2], Recv_error EAGAIN, Arrive [3]]" "[1, 2]" Little
      "\<lparr>config_mem = True, node_mem = True, start_code = 0, thread_code = 0, junk_worker = None\<rparr>"
      zero_config 0 5 "\<lparr>protocol_version = 0, msg_type = 0\<rparr>"]
  by (auto simp: header_bytes_def api_defs errno_defs sizeof_request_def)

text \<open>A worker that fails to start.  When \<open>dsp_worker_start\<close> fails, the node's \<open>dsp_worker\<close>
  field has never been written, and \<open>tcp_node_destroy\<close> reads it: unless \<open>malloc\<close> happened to return
  zeroed memory the server destroys a worker at an arbitrary address instead of answering with an
  internal error.\<close>

theorem failed_worker_start_reads_junk:
  assumes "read_client_config e True server sock evs = (Inr config, evs')"
    and "validate_client_config config server = 0"
    and "config_mem env" "node_mem env" "start_code env \<noteq> 0"
  shows "prepare_client e env server counter sock evs =
    (if junk_worker env = None then Some (failure RESPONSE_DETAILS_INTERNAL_ERROR, evs') else None)"
  using assms by (auto simp: prepare_client_def tcp_node_destroy_def Let_def split: option.splits)

theorem failed_worker_start_reads_junk_witness:
  "prepare_client Little
      \<lparr>config_mem = True, node_mem = True, start_code = - 1, thread_code = 0, junk_worker = Some 4096\<rparr>
      (zero_config\<lparr>band_sampling_rate := 2016000\<rparr>) 0 5
      [Arrive [26, 4, 240, 176, 0, 0, 187, 128, 26, 6, 119, 80, 1]] = None"
proof -
  have "read_client_config Little True (zero_config\<lparr>band_sampling_rate := 2016000\<rparr>) 5
      [Arrive [26, 4, 240, 176, 0, 0, 187, 128, 26, 6, 119, 80, 1]] =
    (Inr (zero_client\<lparr>center_freq := 436531376, sampling_rate := 48000, band_freq := 436631376,
      destination := 1, client_socket := 5\<rparr>), [])"
    by (simp add: read_client_config_def read_struct_def sizeof_request_def request_of_bytes_def
        of_big_bytes_def big_bytes_def zero_client_def Let_def)
  from failed_worker_start_reads_junk [OF this, of
      "\<lparr>config_mem = True, node_mem = True, start_code = - 1, thread_code = 0, junk_worker = Some 4096\<rparr>" 0]
  show ?thesis by (simp add: validate_client_config_def Let_def zero_client_def zero_config_def api_defs)
qed

lemma worker_loop_header:
  assumes "pending evs = header_bytes h @ rest"
  shows "\<exists>evs'. pending evs' = rest \<and> worker_loop evs =
    (if h = \<lparr>protocol_version = PROTOCOL_VERSION, msg_type = TYPE_SHUTDOWN\<rparr> then Shutdown_requested
     else worker_loop evs')"
proof -
  from read_struct_prefix [OF assms, of sizeof_header] obtain evs' where
    "read_struct sizeof_header evs = ((0, header_bytes h), evs')" "pending evs' = rest" by auto
  then show ?thesis
    by (intro exI [of _ evs']) (auto simp: worker_loop.simps [of evs] Let_def message_header.equality)
qed

text \<open>The worker's loop.  Headers of other versions or types are skipped and the shutdown
  request is found, however the bytes are split; a read timeout between messages changes nothing;
  and when the connection ends, fails or the rest is shorter than a header before a timeout, the loop
  ends with a disconnected client.\<close>

theorem worker_finds_shutdown:
  assumes "\<forall>h \<in> set hs. h \<noteq> \<lparr>protocol_version = PROTOCOL_VERSION, msg_type = TYPE_SHUTDOWN\<rparr>"
    and "pending evs = concat (map header_bytes hs) @ tail"
  shows "(tail = header_bytes \<lparr>protocol_version = PROTOCOL_VERSION, msg_type = TYPE_SHUTDOWN\<rparr> @ rest \<longrightarrow>
      worker_loop evs = Shutdown_requested) \<and>
    (length tail < sizeof_header \<and> stop_code evs = - 1 \<longrightarrow> worker_loop evs = Client_disconnected) \<and>
    worker_loop (Recv_error EAGAIN # evs) = worker_loop evs"
proof -
  have "(tail = header_bytes \<lparr>protocol_version = PROTOCOL_VERSION, msg_type = TYPE_SHUTDOWN\<rparr> @ rest \<longrightarrow>
      worker_loop evs = Shutdown_requested) \<and>
    (length tail < sizeof_header \<and> stop_code evs = - 1 \<longrightarrow> worker_loop evs = Client_disconnected)"
    using assms
  proof (induction hs arbitrary: evs)
    case Nil
    then have p: "pending evs = tail" by simp
    have "worker_loop evs = Client_disconnected" if "length tail < sizeof_header" "stop_code evs = - 1"
      using read_struct_short [of evs sizeof_header] that p
      by (cases "read_struct sizeof_header evs") (auto simp: worker_loop.simps [of evs])
    moreover have "worker_loop evs = Shutdown_requested"
      if "tail = header_bytes \<lparr>protocol_version = PROTOCOL_VERSION, msg_type = TYPE_SHUTDOWN\<rparr> @ rest"
      using worker_loop_header [of evs "\<lparr>protocol_version = PROTOCOL_VERSION, msg_type = TYPE_SHUTDOWN\<rparr>" rest]
        that p by auto
    ultimately show ?case by blast
  next
    case (Cons h hs)
    from Cons.prems(2) have p: "pending evs = header_bytes h @ (concat (map header_bytes hs) @ tail)" by simp
    from read_struct_enough [of sizeof_header evs] p obtain evs' where
      r: "read_struct sizeof_header evs = ((0, header_bytes h), evs')"
      "pending evs' = concat (map header_bytes hs) @ tail" "stop_code evs' = stop_code evs" by auto
    moreover from Cons.prems(1) have "h \<noteq> \<lparr>protocol_version = PROTOCOL_VERSION, msg_type = TYPE_SHUTDOWN\<rparr>"
      by simp
    ultimately have "worker_loop evs = worker_loop evs'"
      by (auto simp: worker_loop.simps [of evs] Let_def message_header.equality)
    with Cons.IH [OF _ r(2)] Cons.prems(1) r(3) show ?case by simp
  qed
  moreover have "worker_loop (Recv_error EAGAIN # evs) = worker_loop evs"
    by (subst worker_loop.simps) (simp add: read_struct_def sizeof_header_def errno_defs)
  ultimately show ?thesis by blast
qed

theorem worker_finds_shutdown_witness:
  "worker_loop [Recv_error EAGAIN, Arrive [0], Arrive [3, 7, 1, 0], Arrive [1, 5]] = Shutdown_requested"
  using worker_finds_shutdown [of "[\<lparr>protocol_version = 0, msg_type = 3\<rparr>, \<lparr>protocol_version = 7, msg_type = 1\<rparr>]"
      "[Arrive [0], Arrive [3, 7, 1, 0], Arrive [1, 5]]" "[0, 1, 5]" "[5]"]
  by (simp add: header_bytes_def api_defs)

text \<open>A header split by a timeout.  When the read timeout falls between the two bytes of the
  client's shutdown request, \<open>read_struct\<close> has consumed the first byte and the loop starts a new
  header with the second: the request is dropped without a trace.\<close>

theorem split_shutdown_is_lost:
  "worker_loop (Arrive [PROTOCOL_VERSION] # Recv_error EAGAIN # Arrive [TYPE_SHUTDOWN] # Recv_error EAGAIN # evs) =
    worker_loop evs \<and>
   worker_loop (Arrive [PROTOCOL_VERSION] # Arrive [TYPE_SHUTDOWN] # Recv_error EAGAIN # evs) = Shutdown_requested"
  by (simp add: worker_loop.simps [of "Arrive bs # evs" for bs evs] read_struct_def sizeof_header_def errno_defs
      Let_def header_of_bytes_def api_defs)

end
