(* ===== verification/Tcp_Server.thy ===== *)
theory Tcp_Server
  imports Connection
begin

text \<open>
  The server of \<open>src/src/tcp_server.c\<close> as its threads run it: the acceptor, one \<open>tcp_worker\<close> per
  client, the shutdown thread and the callback of the device.  The linked list of clients is a heap
  of nodes reached through pointers; every critical section under the server's mutex is one
  definition, \<open>None\<close> being undefined behaviour (a freed node, a destroyed dsp worker) or a
  \<open>pthread_join\<close> that blocks while the mutex is held.
\<close>

subsection \<open>State\<close>

text \<open>
  A client thread is in its loop, past it and about to take the mutex, or has returned.  The shutdown
  thread does not exist, is about to call \<open>sdr_device_stop\<close>, is about to take the mutex, or has
  returned.  The acceptor's program counter names the node it is working on.
\<close>

datatype thread_pc = Looping | Locking | Finished

datatype shutdown_pc = No_thread | Stopping | Reporting | Reported

datatype acceptor_pc =
    Accepting
  | Admitting nat
  | Waiting_for_stop nat
  | Joining_shutdown nat
  | Dropping nat
  | Draining
  | Joining_final
  | Exited

record tcp_node =
  tn_next :: ptr
  tn_config :: client_config
  tn_worker :: bool
  tn_thread :: thread_pc

type_synonym node_heap = "nat \<rightharpoonup> tcp_node"

record tcp_server =
  tcp_heap :: node_heap
  tcp_nodes :: ptr
  current_band_freq :: u32
  sdr_stopped :: bool
  shutdown_thread_created :: bool
  shutdown_thread :: shutdown_pc
  sdr_running :: bool
  ts_is_running :: bool
  client_counter :: u32
  acceptor :: acceptor_pc
  answers :: "(u32 \<times> u8 \<times> u32) list"

definition node_running :: "tcp_node \<Rightarrow> bool" where
  "node_running n \<longleftrightarrow> is_running (tn_config n)"

subsection \<open>Walks over the list of clients\<close>

text \<open>The loop of \<open>tcp_worker\<close> that counts running clients; it stops at the first.\<close>

partial_function (option) count_running :: "node_heap \<Rightarrow> ptr \<Rightarrow> nat option" where
  "count_running H cur_node =
     (case cur_node of None \<Rightarrow> Some 0
      | Some a \<Rightarrow> Option.bind (H a) (\<lambda>n.
          if node_running n then Some 1 else count_running H (tn_next n)))"

text \<open>\<open>sdr_callback\<close>: the nodes whose \<open>dsp_worker_process\<close> gets the buffer, in order.\<close>

partial_function (option) sdr_callback :: "node_heap \<Rightarrow> ptr \<Rightarrow> nat list option" where
  "sdr_callback H current_node =
     (case current_node of None \<Rightarrow> Some []
      | Some a \<Rightarrow> Option.bind (H a) (\<lambda>n.
          if node_running n
          then (if tn_worker n
                then Option.bind (sdr_callback H (tn_next n)) (\<lambda>served. Some (a # served)) else None)
          else sdr_callback H (tn_next n)))"

partial_function (option) find_last :: "node_heap \<Rightarrow> nat \<Rightarrow> nat option" where
  "find_last H cur_node =
     Option.bind (H cur_node) (\<lambda>n.
       case tn_next n of None \<Rightarrow> Some cur_node | Some b \<Rightarrow> find_last H b)"

definition tcp_node_final_cleanup :: "nat \<Rightarrow> node_heap \<Rightarrow> node_heap option" where
  "tcp_node_final_cleanup a H = do {
     n \<leftarrow> H a;
     if tn_thread n = Finished then Some (H(a := None)) else None }"

text \<open>The loop of \<open>cleanup_terminated_threads\<close>; \<open>head\<close> is \<open>server->tcp_nodes\<close>.\<close>

partial_function (option) cleanup_loop :: "ptr \<Rightarrow> ptr \<Rightarrow> ptr \<Rightarrow> node_heap \<Rightarrow> (ptr \<times> node_heap) option" where
  "cleanup_loop head previous cur_node H =
     (case cur_node of None \<Rightarrow> Some (head, H)
      | Some a \<Rightarrow> Option.bind (H a) (\<lambda>n.
          if node_running n then cleanup_loop head (Some a) (tn_next n) H
          else Option.bind
            (case previous of
               None \<Rightarrow> Some (tn_next n, H)
             | Some p \<Rightarrow> Option.bind (H p) (\<lambda>pn. Some (head, H(p \<mapsto> pn\<lparr>tn_next := tn_next n\<rparr>))))
            (\<lambda>(head', H'). Option.bind (tcp_node_final_cleanup a H')
              (\<lambda>H''. cleanup_loop head' previous (tn_next n) H''))))"

definition cleanup_terminated_threads :: "ptr \<Rightarrow> node_heap \<Rightarrow> (ptr \<times> node_heap) option" where
  "cleanup_terminated_threads head H = cleanup_loop head None head H"

subsection \<open>Critical sections\<close>

text \<open>The end of \<open>tcp_worker\<close>, from \<open>pthread_mutex_lock\<close> to \<open>pthread_mutex_unlock\<close>.\<close>

definition worker_terminate :: "nat \<Rightarrow> tcp_server \<Rightarrow> tcp_server option" where
  "worker_terminate a S = do {
     n \<leftarrow> tcp_heap S a;
     let n1 = n\<lparr>tn_config := (tn_config n)\<lparr>is_running := False\<rparr>\<rparr>;
     number_of_running \<leftarrow> count_running ((tcp_heap S)(a \<mapsto> n1)) (tcp_nodes S);
     let S1 = (if number_of_running = 0 \<and> \<not> shutdown_thread_created S
               then S\<lparr>shutdown_thread := Stopping, shutdown_thread_created := True\<rparr> else S);
     Some (S1\<lparr>tcp_heap := (tcp_heap S)(a \<mapsto> n1\<lparr>tn_worker := False, tn_thread := Finished\<rparr>)\<rparr>) }"

definition answer :: "nat \<Rightarrow> u8 \<Rightarrow> u32 \<Rightarrow> tcp_server \<Rightarrow> tcp_server" where
  "answer a status details S =
     S\<lparr>answers := answers S @ [(case tcp_heap S a of None \<Rightarrow> 0 | Some n \<Rightarrow> cc_id (tn_config n), status, details)]\<rparr>"

text \<open>
  \<open>handle_new_client\<close> from its \<open>pthread_mutex_lock\<close> to the wait for the device, to the refusal of
  another band or to the end of the list.
\<close>

definition admit :: "nat \<Rightarrow> tcp_server \<Rightarrow> tcp_server option" where
  "admit a S = do {
     (head, H) \<leftarrow> cleanup_terminated_threads (tcp_nodes S) (tcp_heap S);
     let S1 = S\<lparr>tcp_heap := H, tcp_nodes := head\<rparr>;
     n \<leftarrow> H a;
     (case head of
        None \<Rightarrow> Some (S1\<lparr>current_band_freq := band_freq (tn_config n),
          acceptor := (if sdr_stopped S1 then Joining_shutdown a else Waiting_for_stop a)\<rparr>)
      | Some first \<Rightarrow>
          if current_band_freq S1 \<noteq> 0 \<and> current_band_freq S1 \<noteq> band_freq (tn_config n)
          then Some (answer a RESPONSE_STATUS_FAILURE RESPONSE_DETAILS_OUT_OF_BAND_FREQ
                 (S1\<lparr>acceptor := Dropping a\<rparr>))
          else do {
            last \<leftarrow> find_last H first;
            ln \<leftarrow> H last;
            Some (answer a RESPONSE_STATUS_SUCCESS (cc_id (tn_config n))
              (S1\<lparr>tcp_heap := H(last \<mapsto> ln\<lparr>tn_next := Some a\<rparr>), acceptor := Accepting\<rparr>)) }) }"

text \<open>
  The rest of it for the first client, the mutex held: the shutdown thread is joined when there is
  one, then the device is started with result \<open>code\<close>.
\<close>

definition start_device :: "int \<Rightarrow> nat \<Rightarrow> tcp_server \<Rightarrow> tcp_server option" where
  "start_device code a S =
     (if shutdown_thread_created S \<and> shutdown_thread S \<noteq> Reported then None
      else
        let S1 = (if shutdown_thread_created S
                  then S\<lparr>shutdown_thread_created := False, shutdown_thread := No_thread\<rparr> else S)
        in do {
          n \<leftarrow> tcp_heap S a;
          Some (if code = 0
            then answer a RESPONSE_STATUS_SUCCESS (cc_id (tn_config n))
              (S1\<lparr>tcp_nodes := Some a, sdr_stopped := False, sdr_running := True, acceptor := Accepting\<rparr>)
            else answer a RESPONSE_STATUS_FAILURE RESPONSE_DETAILS_INTERNAL_ERROR
              (S1\<lparr>acceptor := Dropping a\<rparr>)) })"

text \<open>One pass of the acceptor's final loop over the clients, the mutex held.\<close>

definition drain :: "tcp_server \<Rightarrow> tcp_server option" where
  "drain S =
     (case tcp_nodes S of
        None \<Rightarrow> Some (if sdr_stopped S then S\<lparr>acceptor := Joining_final\<rparr> else S)
      | Some a \<Rightarrow> do {
          n \<leftarrow> tcp_heap S a;
          if node_running n then Some S
          else do {
            H \<leftarrow> tcp_node_final_cleanup a (tcp_heap S);
            Some (S\<lparr>tcp_heap := H, tcp_nodes := tn_next n\<rparr>) } })"

definition finish :: "tcp_server \<Rightarrow> tcp_server option" where
  "finish S =
     (if shutdown_thread_created S \<and> shutdown_thread S \<noteq> Reported then None
      else Some ((if shutdown_thread_created S
                  then S\<lparr>shutdown_thread_created := False, shutdown_thread := No_thread\<rparr> else S)
             \<lparr>acceptor := Exited\<rparr>))"

subsection \<open>The threads\<close>

text \<open>The acceptor keeps the mutex while it joins the shutdown thread.\<close>

fun holds_mutex :: "acceptor_pc \<Rightarrow> bool" where
  "holds_mutex (Joining_shutdown a) = True"
| "holds_mutex Joining_final = True"
| "holds_mutex pc = False"

text \<open>The node between its thread's creation and the end of its admission.\<close>

fun entering :: "acceptor_pc \<Rightarrow> nat \<Rightarrow> bool" where
  "entering (Admitting b) a \<longleftrightarrow> a = b"
| "entering (Waiting_for_stop b) a \<longleftrightarrow> a = b"
| "entering (Joining_shutdown b) a \<longleftrightarrow> a = b"
| "entering pc a \<longleftrightarrow> False"

text \<open>
  The steps.  \<open>early\<close> allows a client's thread to leave its loop while the acceptor is still admitting
  the client, which happens when the client disconnects at once; \<open>failing\<close> allows the device to fail
  to start.
\<close>

inductive tstep :: "bool \<Rightarrow> bool \<Rightarrow> server_config \<Rightarrow> tcp_server \<Rightarrow> tcp_server \<Rightarrow> bool" for early failing cfg where
  answered: "acceptor S = Accepting \<Longrightarrow> ts_is_running S \<Longrightarrow>
    handle_connection e env cfg (client_counter S + 1) sock evs = Some (Answered status details, evs') \<Longrightarrow>
    tstep early failing cfg S (S\<lparr>client_counter := client_counter S + 1,
      answers := answers S @ [(client_counter S + 1, status, details)]\<rparr>)"
| connected: "acceptor S = Accepting \<Longrightarrow> ts_is_running S \<Longrightarrow>
    handle_connection e env cfg (client_counter S + 1) sock evs = Some (Ready c, evs') \<Longrightarrow>
    tcp_heap S a = None \<Longrightarrow>
    tstep early failing cfg S (S\<lparr>client_counter := client_counter S + 1, acceptor := Admitting a,
      tcp_heap := (tcp_heap S)(a \<mapsto> \<lparr>tn_next = None, tn_config = c, tn_worker = True, tn_thread = Looping\<rparr>)\<rparr>)"
| admits: "acceptor S = Admitting a \<Longrightarrow> admit a S = Some S' \<Longrightarrow> tstep early failing cfg S S'"
| wakes: "acceptor S = Waiting_for_stop a \<Longrightarrow> sdr_stopped S \<Longrightarrow>
    tstep early failing cfg S (S\<lparr>acceptor := Joining_shutdown a\<rparr>)"
| starts: "acceptor S = Joining_shutdown a \<Longrightarrow> start_device code a S = Some S' \<Longrightarrow>
    failing \<or> code = 0 \<Longrightarrow> tstep early failing cfg S S'"
| drops: "acceptor S = Dropping a \<Longrightarrow> tcp_node_final_cleanup a (tcp_heap S) = Some H \<Longrightarrow>
    tstep early failing cfg S (S\<lparr>tcp_heap := H, acceptor := Accepting\<rparr>)"
| leaves: "tcp_heap S a = Some n \<Longrightarrow> tn_thread n = Looping \<Longrightarrow> early \<or> \<not> entering (acceptor S) a \<Longrightarrow>
    tstep early failing cfg S (S\<lparr>tcp_heap := (tcp_heap S)(a \<mapsto> n\<lparr>tn_thread := Locking\<rparr>)\<rparr>)"
| terminates: "tcp_heap S a = Some n \<Longrightarrow> tn_thread n = Locking \<Longrightarrow> \<not> holds_mutex (acceptor S) \<Longrightarrow>
    worker_terminate a S = Some S' \<Longrightarrow> tstep early failing cfg S S'"
| stops_device: "shutdown_thread S = Stopping \<Longrightarrow>
    tstep early failing cfg S (S\<lparr>sdr_running := False, shutdown_thread := Reporting\<rparr>)"
| reports: "shutdown_thread S = Reporting \<Longrightarrow> \<not> holds_mutex (acceptor S) \<Longrightarrow>
    tstep early failing cfg S (S\<lparr>sdr_stopped := True, shutdown_thread := Reported\<rparr>)"
| stop_requested: "tstep early failing cfg S (S\<lparr>ts_is_running := False\<rparr>)"
| accept_fails: "acceptor S = Accepting \<Longrightarrow> tstep early failing cfg S (S\<lparr>acceptor := Draining\<rparr>)"
| drains: "acceptor S = Draining \<Longrightarrow> drain S = Some S' \<Longrightarrow> tstep early failing cfg S S'"
| exits: "acceptor S = Joining_final \<Longrightarrow> finish S = Some S' \<Longrightarrow> tstep early failing cfg S S'"

text \<open>The state \<open>start_tcp_server\<close> leaves: no clients, the device stopped, the counter at -1.\<close>

definition tstart :: tcp_server where
  "tstart = \<lparr>tcp_heap = Map.empty, tcp_nodes = None, current_band_freq = 0, sdr_stopped = True,
     shutdown_thread_created = False, shutdown_thread = No_thread, sdr_running = False,
     ts_is_running = True, client_counter = - 1, acceptor = Accepting, answers = []\<rparr>"

inductive treach :: "bool \<Rightarrow> bool \<Rightarrow> server_config \<Rightarrow> tcp_server \<Rightarrow> bool" for early failing cfg where
  start: "treach early failing cfg tstart"
| step: "treach early failing cfg S \<Longrightarrow> tstep early failing cfg S S' \<Longrightarrow> treach early failing cfg S'"

end
