(* ===== verification/Tcp_Invariant.thy ===== *)
theory Tcp_Invariant
  imports Tcp_Server
begin

text \<open>
  The walks over the client list on a well-formed list, and the invariant of the server: the list is
  a chain of live nodes, a node's dsp worker lives exactly as long as its client runs, all listed
  clients share one band, and the shutdown thread exists only when no listed client runs.
\<close>

subsection \<open>Walks on a well-formed list\<close>

definition tlinks :: "node_heap \<Rightarrow> nat \<Rightarrow> ptr option" where
  "tlinks H a = map_option tn_next (H a)"

definition runs :: "node_heap \<Rightarrow> nat \<Rightarrow> bool" where
  "runs H a \<longleftrightarrow> (\<exists>n. H a = Some n \<and> node_running n)"

definition tnode_ok :: "tcp_node \<Rightarrow> bool" where
  "tnode_ok n \<longleftrightarrow> (node_running n \<longleftrightarrow> tn_thread n \<noteq> Finished) \<and> (tn_worker n \<longleftrightarrow> node_running n)"

definition nodes_fine :: "node_heap \<Rightarrow> bool" where
  "nodes_fine H \<longleftrightarrow> (\<forall>a n. H a = Some n \<longrightarrow> tnode_ok n)"

lemma tlinks_Some: "tlinks H a = Some p \<longleftrightarrow> (\<exists>n. H a = Some n \<and> tn_next n = p)"
  by (auto simp: tlinks_def)

lemma count_running_chain:
  assumes "chain (tlinks H) p as"
  shows "count_running H p = Some (of_bool (\<exists>a \<in> set as. runs H a))"
  using assms
proof (induction as arbitrary: p)
  case (Cons a as)
  then obtain n where n: "p = Some a" "H a = Some n" "chain (tlinks H) (tn_next n) as"
    by (auto simp: tlinks_Some)
  with Cons.IH [OF n(3)] show ?case
    by (simp add: count_running.simps [of H "Some a"] runs_def)
qed (simp add: count_running.simps)

lemma sdr_callback_chain:
  assumes "chain (tlinks H) p as" "nodes_fine H"
  shows "sdr_callback H p = Some (filter (runs H) as)"
  using assms(1)
proof (induction as arbitrary: p)
  case (Cons a as)
  then obtain n where n: "p = Some a" "H a = Some n" "chain (tlinks H) (tn_next n) as"
    by (auto simp: tlinks_Some)
  with assms(2) have "tn_worker n \<longleftrightarrow> node_running n" by (auto simp: nodes_fine_def tnode_ok_def)
  with n Cons.IH [OF n(3)] show ?case
    by (simp add: sdr_callback.simps [of H "Some a"] runs_def)
qed (simp add: sdr_callback.simps)

lemma find_last_chain:
  assumes "chain (tlinks H) (Some a) (a # as)"
  shows "find_last H a = Some (last (a # as))"
  using assms
proof (induction as arbitrary: a)
  case Nil
  then show ?case by (auto simp: find_last.simps tlinks_Some)
next
  case (Cons b as)
  then obtain n where "H a = Some n" "tn_next n = Some b" "chain (tlinks H) (Some b) (b # as)"
    by (auto simp: tlinks_Some)
  with Cons.IH show ?case by (simp add: find_last.simps [of H a])
qed

text \<open>A node's data apart from its link.\<close>

definition same_data :: "tcp_node \<Rightarrow> tcp_node \<Rightarrow> bool" where
  "same_data n m \<longleftrightarrow> tn_config n = tn_config m \<and> tn_worker n = tn_worker m \<and> tn_thread n = tn_thread m"

text \<open>
  What \<open>cleanup_terminated_threads\<close> leaves: the running clients in their order, every other listed
  node freed, nothing else touched.
\<close>

definition cleaned :: "node_heap \<Rightarrow> nat list \<Rightarrow> node_heap \<Rightarrow> bool" where
  "cleaned H as H' \<longleftrightarrow> dom H' = dom H - {a \<in> set as. \<not> runs H a} \<and>
     (\<forall>a n'. H' a = Some n' \<longrightarrow> (\<exists>n. H a = Some n \<and> same_data n n')) \<and>
     (\<forall>a. a \<notin> set as \<longrightarrow> H' a = H a)"

lemma cleanup_loop_chain:
  assumes "lseg (tlinks H) head ks cur" "chain (tlinks H) cur rs" "distinct (ks @ rs)"
    "nodes_fine H"
  shows "\<exists>head' H'. cleanup_loop head (last_ptr ks) cur H = Some (head', H') \<and>
    chain (tlinks H') head' (ks @ filter (runs H) rs) \<and>
    dom H' = dom H - {a \<in> set rs. \<not> runs H a} \<and>
    (\<forall>a n'. H' a = Some n' \<longrightarrow> (\<exists>n. H a = Some n \<and> same_data n n')) \<and>
    (\<forall>a. a \<notin> set (ks @ rs) \<longrightarrow> H' a = H a)"
  using assms
proof (induction rs arbitrary: head ks cur H)
  case Nil
  then show ?case by (auto simp: cleanup_loop.simps same_data_def)
next
  case (Cons a rs)
  from Cons.prems(2) obtain n where n: "cur = Some a" "H a = Some n" "chain (tlinks H) (tn_next n) rs"
    by (auto simp: tlinks_Some)
  show ?case
  proof (cases "node_running n")
    case True
    have "lseg (tlinks H) head (ks @ [a]) (tn_next n)"
      using Cons.prems(1) n by (auto simp: lseg_append tlinks_Some)
    from Cons.IH [OF this n(3)] Cons.prems(3,4) n True show ?thesis
      by (auto simp: cleanup_loop.simps [of head "last_ptr ks" "Some a"] runs_def)
  next
    case False
    with Cons.prems(4) n have fin: "tn_thread n = Finished" by (auto simp: nodes_fine_def tnode_ok_def)
    define H1 where "H1 = (case last_ptr ks of None \<Rightarrow> H
      | Some p \<Rightarrow> (case H p of None \<Rightarrow> H | Some pn \<Rightarrow> H(p \<mapsto> pn\<lparr>tn_next := tn_next n\<rparr>)))"
    define head1 where "head1 = (if ks = [] then tn_next n else head)"
    let ?H2 = "H1(a := None)"
    have a: "a \<notin> set ks" "a \<notin> set rs" "distinct (ks @ rs)" "distinct ks" using Cons.prems(3) by auto
    have data: "dom H1 = dom H" "H1 a = Some n" "\<And>x m. H1 x = Some m \<Longrightarrow> \<exists>k. H x = Some k \<and> same_data k m"
      "\<And>x. x \<notin> set ks \<Longrightarrow> H1 x = H x"
      using n(2) a(1) by (auto simp: H1_def same_data_def last_ptr_def split: option.splits if_splits)
    have runs1: "runs ?H2 x = runs H x" if "x \<noteq> a" for x
    proof -
      have "runs H1 x = runs H x"
        using data by (auto simp: H1_def runs_def node_running_def split: option.splits)
      with that show ?thesis by (simp add: runs_def)
    qed
    have seg: "lseg (tlinks ?H2) head1 ks (tn_next n)"
    proof (cases ks rule: rev_cases)
      case Nil
      then show ?thesis by (simp add: head1_def)
    next
      case (snoc ks' p)
      with Cons.prems(1) obtain pn where p: "lseg (tlinks H) head ks' (Some p)" "H p = Some pn"
        by (auto simp: lseg_append tlinks_Some)
      have "lseg (tlinks ?H2) head ks' (Some p)"
        using p snoc a by (subst lseg_frame [of _ _ "tlinks H"]) (auto simp: tlinks_def H1_def)
      with snoc p a show ?thesis by (auto simp: head1_def lseg_append tlinks_def H1_def)
    qed
    have same: "tlinks ?H2 x = tlinks H x" if "x \<in> set rs" for x
    proof -
      have "x \<notin> set ks" "x \<noteq> a" using that a(2,3) by auto
      with data(4) [of x] show ?thesis by (simp add: tlinks_def)
    qed
    have ch: "chain (tlinks ?H2) (tn_next n) rs"
      using n(3) lseg_frame [OF same] by simp
    have fine: "nodes_fine ?H2"
      using data(3) Cons.prems(4)
      by (fastforce simp: nodes_fine_def tnode_ok_def same_data_def node_running_def)
    from Cons.IH [OF seg ch a(3) fine] obtain head' H' where
      r: "cleanup_loop head1 (last_ptr ks) (tn_next n) ?H2 = Some (head', H')"
      "chain (tlinks H') head' (ks @ filter (runs ?H2) rs)"
      "dom H' = dom ?H2 - {x \<in> set rs. \<not> runs ?H2 x}"
      "\<forall>x m'. H' x = Some m' \<longrightarrow> (\<exists>m. ?H2 x = Some m \<and> same_data m m')"
      "\<forall>x. x \<notin> set (ks @ rs) \<longrightarrow> H' x = ?H2 x" by blast
    have runs2: "runs ?H2 x = runs H x" if "x \<in> set rs" for x using runs1 that a(2) by metis
    have "filter (runs ?H2) rs = filter (runs H) rs" using runs2 by (simp cong: filter_cong)
    moreover have "{x \<in> set rs. \<not> runs ?H2 x} = {x \<in> set rs. \<not> runs H x}"
      using runs2 by (simp cong: conj_cong)
    moreover have "\<not> runs H a" using n(2) False by (simp add: runs_def)
    moreover have "\<forall>x m'. H' x = Some m' \<longrightarrow> (\<exists>m. H x = Some m \<and> same_data m m')"
    proof (intro allI impI)
      fix x m' assume "H' x = Some m'"
      with r(4) obtain m where m: "?H2 x = Some m" "same_data m m'" by blast
      then have "H1 x = Some m" by (simp split: if_splits)
      from data(3) [OF this] m(2) show "\<exists>m. H x = Some m \<and> same_data m m'"
        by (auto simp: same_data_def)
    qed
    moreover have "cleanup_loop head (last_ptr ks) cur H = Some (head', H')"
    proof -
      have "(case last_ptr ks of None \<Rightarrow> Some (tn_next n, H)
          | Some p \<Rightarrow> Option.bind (H p) (\<lambda>pn. Some (head, H(p \<mapsto> pn\<lparr>tn_next := tn_next n\<rparr>)))) =
        Some (head1, H1)"
      proof (cases ks rule: rev_cases)
        case (snoc ks' p)
        with Cons.prems(1) obtain pn where "H p = Some pn" by (auto simp: lseg_append tlinks_Some)
        with snoc show ?thesis by (simp add: H1_def head1_def)
      qed (simp add: H1_def head1_def)
      with n False fin data(2) r(1) show ?thesis
        by (simp add: cleanup_loop.simps [of head "last_ptr ks" "Some a"] tcp_node_final_cleanup_def)
    qed
    ultimately show ?thesis using r(2,3,5) data a
      by (intro exI [of _ head'] exI [of _ H']) auto
  qed
qed

lemma cleanup_chain:
  assumes "chain (tlinks H) head as" "distinct as" "nodes_fine H"
  shows "\<exists>head' H'. cleanup_terminated_threads head H = Some (head', H') \<and>
    chain (tlinks H') head' (filter (runs H) as) \<and> cleaned H as H'"
  using cleanup_loop_chain [of H head "[]" head as] assms
  by (auto simp: cleanup_terminated_threads_def cleaned_def)

end
