(* ===== verification/Tcp_Steps.thy ===== *)
theory Tcp_Steps
  imports Tcp_Invariant
begin

text \<open>
  Every step of the server's threads preserves the invariant of \<open>Tcp_Invariant\<close>; for clients that do
  not leave while they are being admitted, it also keeps the device and the shutdown thread in step
  with the clients.
\<close>

subsection \<open>The invariant\<close>

fun busy :: "acceptor_pc \<Rightarrow> nat list" where
  "busy (Admitting a) = [a]"
| "busy (Waiting_for_stop a) = [a]"
| "busy (Joining_shutdown a) = [a]"
| "busy (Dropping a) = [a]"
| "busy pc = []"

fun starting :: "acceptor_pc \<Rightarrow> bool" where
  "starting (Waiting_for_stop a) = True"
| "starting (Joining_shutdown a) = True"
| "starting pc = False"

text \<open>What an admitted client's configuration satisfies, from \<open>handle_connection\<close>.\<close>

definition client_ok :: "server_config \<Rightarrow> client_config \<Rightarrow> bool" where
  "client_ok cfg c \<longleftrightarrow> center_freq c \<noteq> 0 \<and> sampling_rate c \<noteq> 0 \<and> band_freq c \<noteq> 0 \<and>
     destination c \<in> {REQUEST_DESTINATION_FILE, REQUEST_DESTINATION_SOCKET} \<and>
     band_sampling_rate cfg mod sampling_rate c = 0"

definition band_at :: "node_heap \<Rightarrow> nat \<Rightarrow> u32 option" where
  "band_at H a = map_option (\<lambda>n. band_freq (tn_config n)) (H a)"

definition tinv_at :: "server_config \<Rightarrow> tcp_server \<Rightarrow> nat list \<Rightarrow> bool" where
  "tinv_at cfg S as \<longleftrightarrow>
     chain (tlinks (tcp_heap S)) (tcp_nodes S) as \<and>
     distinct (as @ busy (acceptor S)) \<and> dom (tcp_heap S) = set (as @ busy (acceptor S)) \<and>
     nodes_fine (tcp_heap S) \<and>
     (\<forall>a n. tcp_heap S a = Some n \<longrightarrow> client_ok cfg (tn_config n)) \<and>
     (\<forall>a \<in> set (busy (acceptor S)). tlinks (tcp_heap S) a = Some None) \<and>
     (\<forall>a \<in> set as. band_at (tcp_heap S) a = Some (current_band_freq S)) \<and>
     (starting (acceptor S) \<longrightarrow> as = [] \<and>
        (\<forall>a \<in> set (busy (acceptor S)). band_at (tcp_heap S) a = Some (current_band_freq S))) \<and>
     (shutdown_thread S = No_thread \<longleftrightarrow> \<not> shutdown_thread_created S) \<and>
     (shutdown_thread_created S \<longrightarrow> (\<forall>a \<in> set as. \<not> runs (tcp_heap S) a))"

lemma read_client_config_rate:
  assumes "read_client_config e m cfg sock evs = (Inr c, evs')"
  shows "sampling_rate c = 0 \<or> band_sampling_rate cfg mod sampling_rate c = 0"
proof (rule ccontr)
  assume "\<not> ?thesis"
  then have "0 < sampling_rate c" "band_sampling_rate cfg mod sampling_rate c \<noteq> 0"
    by (simp_all add: word_gt_0)
  with assms show False
    unfolding read_client_config_def Let_def
    by (simp split: if_splits prod.splits) (drule sym [of _ c], simp)
qed

lemma validate_client_ok:
  assumes "\<not> validate_client_config c cfg < 0" "sampling_rate c = 0 \<or> band_sampling_rate cfg mod sampling_rate c = 0"
  shows "client_ok cfg c"
  using assms by (auto simp: validate_client_config_def client_ok_def Let_def split: if_splits)

lemma Ready_client_ok:
  assumes "handle_connection e env cfg counter sock evs = Some (Ready c, evs')"
  shows "client_ok cfg c" "is_running c" "cc_id c = counter"
proof -
  from assms obtain evs1 where "prepare_client e env cfg counter sock evs1 = Some (Ready c, evs')"
    by (auto simp: handle_connection_def Let_def split: if_splits prod.splits)
  then obtain c0 evs2 where c0: "read_client_config e (config_mem env) cfg sock evs1 = (Inr c0, evs2)"
    "\<not> validate_client_config c0 cfg < 0"
    "c = c0\<lparr>is_running := True, cc_id := counter, cc_sdr_type := sdr_type cfg\<rparr>"
    by (auto simp: prepare_client_def Let_def bind_eq_Some_conv split: if_splits prod.splits sum.splits)
  from validate_client_ok [OF c0(2) read_client_config_rate [OF c0(1)]] c0(3)
  show "client_ok cfg c" "is_running c" "cc_id c = counter" by (simp_all add: client_ok_def)
qed

text \<open>Steps that change no link, no band and no running flag of the heap.\<close>

lemma tinv_at_same_heap:
  assumes "tinv_at cfg S as" "tcp_heap S' = tcp_heap S" "tcp_nodes S' = tcp_nodes S"
    "current_band_freq S' = current_band_freq S" "acceptor S' = acceptor S"
    "shutdown_thread_created S' = shutdown_thread_created S"
    "shutdown_thread S' = No_thread \<longleftrightarrow> shutdown_thread S = No_thread"
  shows "tinv_at cfg S' as"
  using assms by (simp add: tinv_at_def)

lemma tinv_connected:
  assumes inv: "tinv_at cfg S as" and pc: "acceptor S = Accepting" and new: "tcp_heap S a = None"
    and c: "client_ok cfg c" "is_running c"
  shows "tinv_at cfg (S\<lparr>client_counter := k, acceptor := Admitting a, tcp_heap := (tcp_heap S)
    (a \<mapsto> \<lparr>tn_next = None, tn_config = c, tn_worker = True, tn_thread = Looping\<rparr>)\<rparr>) as"
proof -
  let ?n = "\<lparr>tn_next = None, tn_config = c, tn_worker = True, tn_thread = Looping\<rparr>"
  let ?H = "(tcp_heap S)(a \<mapsto> ?n)"
  from inv pc have "dom (tcp_heap S) = set as" by (simp add: tinv_at_def)
  with new have a: "a \<notin> set as" by (metis domIff)
  have same: "tlinks ?H x = tlinks (tcp_heap S) x" "band_at ?H x = band_at (tcp_heap S) x"
    "runs ?H x = runs (tcp_heap S) x" if "x \<in> set as" for x
    using that a by (auto simp: tlinks_def band_at_def runs_def)
  have "chain (tlinks ?H) (tcp_nodes S) as"
    using inv lseg_frame [OF same(1)] by (simp add: tinv_at_def)
  moreover have "nodes_fine ?H" using inv c by (simp add: tinv_at_def nodes_fine_def tnode_ok_def node_running_def)
  moreover have "\<forall>x n. ?H x = Some n \<longrightarrow> client_ok cfg (tn_config n)" using inv c by (simp add: tinv_at_def)
  moreover have "tlinks ?H a = Some None" by (simp add: tlinks_def)
  ultimately show ?thesis using inv pc a same by (simp add: tinv_at_def)
qed

lemma chain_same: "(\<And>x. x \<in> set as \<Longrightarrow> tlinks H' x = tlinks H x) \<Longrightarrow> chain (tlinks H) p as \<Longrightarrow> chain (tlinks H') p as"
  using lseg_frame by metis

text \<open>A change of one node that keeps its link and band.\<close>

lemma tinv_node_update:
  assumes inv: "tinv_at cfg S as" and n: "tcp_heap S a = Some n"
    and n': "tn_next n' = tn_next n" "client_ok cfg (tn_config n')"
      "band_freq (tn_config n') = band_freq (tn_config n)" "tnode_ok n'" "node_running n' \<Longrightarrow> node_running n"
  shows "tinv_at cfg (S\<lparr>tcp_heap := (tcp_heap S)(a \<mapsto> n')\<rparr>) as"
proof -
  let ?H = "(tcp_heap S)(a \<mapsto> n')"
  have same: "tlinks ?H x = tlinks (tcp_heap S) x" "band_at ?H x = band_at (tcp_heap S) x" for x
    using n n' by (auto simp: tlinks_def band_at_def)
  have links: "tlinks ?H = tlinks (tcp_heap S)" using same by blast
  have "dom ?H = dom (tcp_heap S)" using n by auto
  moreover have "nodes_fine ?H" using inv n'(4) by (simp add: tinv_at_def nodes_fine_def)
  moreover have "runs ?H x \<Longrightarrow> runs (tcp_heap S) x" for x
    using n n'(5) by (auto simp: runs_def split: if_splits)
  moreover have "\<forall>x m. ?H x = Some m \<longrightarrow> client_ok cfg (tn_config m)" using inv n' by (simp add: tinv_at_def)
  ultimately show ?thesis using inv links same unfolding tinv_at_def by (simp del: fun_upd_apply) blast
qed

lemma tinv_leaves:
  assumes "tinv_at cfg S as" "tcp_heap S a = Some n" "tn_thread n = Looping"
  shows "tinv_at cfg (S\<lparr>tcp_heap := (tcp_heap S)(a \<mapsto> n\<lparr>tn_thread := Locking\<rparr>)\<rparr>) as"
  using assms(1,2)
  by (rule tinv_node_update)
    (use assms in \<open>auto simp: tinv_at_def nodes_fine_def tnode_ok_def node_running_def\<close>)

lemma count_running_tinv:
  assumes "tinv_at cfg S as"
  shows "count_running (tcp_heap S) (tcp_nodes S) = Some (of_bool (\<exists>a \<in> set as. runs (tcp_heap S) a))"
  using assms by (intro count_running_chain) (simp add: tinv_at_def)

lemma worker_terminate_ok:
  assumes inv: "tinv_at cfg S as" and n: "tcp_heap S a = Some n"
  defines "n' \<equiv> n\<lparr>tn_config := (tn_config n)\<lparr>is_running := False\<rparr>, tn_worker := False, tn_thread := Finished\<rparr>"
  defines "none \<equiv> \<forall>x \<in> set as. x \<noteq> a \<longrightarrow> \<not> runs (tcp_heap S) x"
  shows "worker_terminate a S = Some ((if none \<and> \<not> shutdown_thread_created S
      then S\<lparr>shutdown_thread := Stopping, shutdown_thread_created := True\<rparr> else S)
      \<lparr>tcp_heap := (tcp_heap S)(a \<mapsto> n')\<rparr>)"
    and "tinv_at cfg ((if none \<and> \<not> shutdown_thread_created S
      then S\<lparr>shutdown_thread := Stopping, shutdown_thread_created := True\<rparr> else S)
      \<lparr>tcp_heap := (tcp_heap S)(a \<mapsto> n')\<rparr>) as"
proof -
  let ?n1 = "n\<lparr>tn_config := (tn_config n)\<lparr>is_running := False\<rparr>\<rparr>"
  let ?H1 = "(tcp_heap S)(a \<mapsto> ?n1)" and ?H = "(tcp_heap S)(a \<mapsto> n')"
  have "tlinks ?H1 = tlinks (tcp_heap S)" using n by (auto simp: tlinks_def fun_eq_iff)
  with inv have ch: "chain (tlinks ?H1) (tcp_nodes S) as" by (simp add: tinv_at_def)
  have r: "(\<exists>x \<in> set as. runs ?H1 x) \<longleftrightarrow> \<not> none"
    by (auto simp: none_def runs_def node_running_def)
  show "worker_terminate a S = Some ((if none \<and> \<not> shutdown_thread_created S
      then S\<lparr>shutdown_thread := Stopping, shutdown_thread_created := True\<rparr> else S)
      \<lparr>tcp_heap := ?H\<rparr>)"
    using n count_running_chain [OF ch] r by (simp add: worker_terminate_def Let_def n'_def)
  have c: "client_ok cfg (tn_config n)" using inv n by (simp add: tinv_at_def)
  have 1: "tinv_at cfg (S\<lparr>tcp_heap := ?H\<rparr>) as"
    using inv n by (rule tinv_node_update)
      (use c in \<open>simp_all add: n'_def client_ok_def tnode_ok_def node_running_def\<close>)
  have "none \<Longrightarrow> \<forall>x \<in> set as. \<not> runs ?H x"
    by (auto simp: none_def runs_def n'_def node_running_def)
  with 1 show "tinv_at cfg ((if none \<and> \<not> shutdown_thread_created S
      then S\<lparr>shutdown_thread := Stopping, shutdown_thread_created := True\<rparr> else S)
      \<lparr>tcp_heap := ?H\<rparr>) as"
    by (simp add: tinv_at_def del: fun_upd_apply)
qed

subsection \<open>Admission\<close>

lemma cleaned_heap:
  assumes "cleaned H as H'" "nodes_fine H"
  shows "nodes_fine H'" and "\<And>x. x \<in> dom H' \<Longrightarrow> band_at H' x = band_at H x \<and> runs H' x = runs H x"
    and "\<forall>x n. H x = Some n \<longrightarrow> client_ok cfg (tn_config n) \<Longrightarrow> H' y = Some m \<Longrightarrow> client_ok cfg (tn_config m)"
proof -
  have d: "\<exists>n. H a = Some n \<and> same_data n n'" if "H' a = Some n'" for a n'
    using assms(1) that by (auto simp: cleaned_def)
  show "nodes_fine H'"
    using d assms(2) by (fastforce simp: nodes_fine_def tnode_ok_def same_data_def node_running_def)
  show "band_at H' x = band_at H x \<and> runs H' x = runs H x" if "x \<in> dom H'" for x
    using that d [of x] by (auto simp: band_at_def runs_def same_data_def node_running_def)
  show "client_ok cfg (tn_config m)" if "\<forall>x n. H x = Some n \<longrightarrow> client_ok cfg (tn_config n)" "H' y = Some m"
    using d [OF that(2)] that(1) by (metis same_data_def)
qed

lemma admit_cleaned:
  assumes inv: "tinv_at cfg S as" and pc: "acceptor S = Admitting a"
  obtains head H n where
    "cleanup_terminated_threads (tcp_nodes S) (tcp_heap S) = Some (head, H)"
    "chain (tlinks H) head (filter (runs (tcp_heap S)) as)"
    "H a = Some n" "tcp_heap S a = Some n" "tn_next n = None" "a \<notin> set as"
    "nodes_fine H" "dom H = insert a (set (filter (runs (tcp_heap S)) as))"
    "\<And>x m. H x = Some m \<Longrightarrow> client_ok cfg (tn_config m)"
    "\<And>x. x \<in> set (filter (runs (tcp_heap S)) as) \<Longrightarrow> band_at H x = Some (current_band_freq S) \<and> runs H x"
proof -
  from inv pc have ch: "chain (tlinks (tcp_heap S)) (tcp_nodes S) as" and d: "distinct as" "a \<notin> set as"
    and fine: "nodes_fine (tcp_heap S)" and dom: "dom (tcp_heap S) = insert a (set as)"
    and ok: "\<forall>x n. tcp_heap S x = Some n \<longrightarrow> client_ok cfg (tn_config n)"
    and link: "tlinks (tcp_heap S) a = Some None"
    and band: "\<And>x. x \<in> set as \<Longrightarrow> band_at (tcp_heap S) x = Some (current_band_freq S)"
    by (auto simp: tinv_at_def)
  from cleanup_chain [OF ch d(1) fine] obtain head H where
    r: "cleanup_terminated_threads (tcp_nodes S) (tcp_heap S) = Some (head, H)"
    and ch': "chain (tlinks H) head (filter (runs (tcp_heap S)) as)"
    and cl: "cleaned (tcp_heap S) as H" by blast
  from link obtain n where n: "tcp_heap S a = Some n" "tn_next n = None" by (auto simp: tlinks_Some)
  have "H a = Some n" using cl d(2) n(1) by (simp add: cleaned_def)
  moreover have dom': "dom H = insert a (set (filter (runs (tcp_heap S)) as))"
    using cl dom d(2) by (auto simp: cleaned_def)
  moreover have "band_at H x = Some (current_band_freq S) \<and> runs H x"
    if "x \<in> set (filter (runs (tcp_heap S)) as)" for x
    using cleaned_heap(2) [OF cl fine, of x] that dom' band [of x] by simp
  ultimately show ?thesis
    by (intro that [OF r ch' _ n d(2) cleaned_heap(1) [OF cl fine] _ cleaned_heap(3) [OF cl fine ok]])
qed

definition admitted_list :: "tcp_server \<Rightarrow> nat list \<Rightarrow> nat \<Rightarrow> nat list" where
  "admitted_list S as a =
     (let live = filter (runs (tcp_heap S)) as in
      if live = [] \<or> band_at (tcp_heap S) a \<noteq> Some (current_band_freq S) then live else live @ [a])"

lemma answer_simps [simp]:
  "tcp_heap (answer a st d S) = tcp_heap S" "tcp_nodes (answer a st d S) = tcp_nodes S"
  "current_band_freq (answer a st d S) = current_band_freq S" "sdr_stopped (answer a st d S) = sdr_stopped S"
  "shutdown_thread_created (answer a st d S) = shutdown_thread_created S"
  "shutdown_thread (answer a st d S) = shutdown_thread S" "sdr_running (answer a st d S) = sdr_running S"
  "acceptor (answer a st d S) = acceptor S" "tinv_at cfg (answer a st d S) as = tinv_at cfg S as"
  by (simp_all add: answer_def tinv_at_def)

lemma admit_ok:
  assumes inv: "tinv_at cfg S as" and pc: "acceptor S = Admitting a"
  shows "\<exists>S'. admit a S = Some S' \<and> tinv_at cfg S' (admitted_list S as a) \<and>
    sdr_stopped S' = sdr_stopped S \<and> shutdown_thread_created S' = shutdown_thread_created S \<and>
    shutdown_thread S' = shutdown_thread S \<and> sdr_running S' = sdr_running S \<and>
    acceptor S' = (if filter (runs (tcp_heap S)) as = []
      then (if sdr_stopped S then Joining_shutdown a else Waiting_for_stop a)
      else if band_at (tcp_heap S) a = Some (current_band_freq S) then Accepting else Dropping a) \<and>
    (filter (runs (tcp_heap S)) as = [] \<longrightarrow> tcp_heap S' a = tcp_heap S a) \<and>
    (\<forall>x \<in> dom (tcp_heap S'). runs (tcp_heap S') x = runs (tcp_heap S) x)"
proof -
  let ?live = "filter (runs (tcp_heap S)) as"
  from inv pc obtain head H n where
    cl: "cleanup_terminated_threads (tcp_nodes S) (tcp_heap S) = Some (head, H)"
    and ch: "chain (tlinks H) head ?live" and n: "H a = Some n" "tcp_heap S a = Some n" "tn_next n = None"
    and a: "a \<notin> set as" and fine: "nodes_fine H" and dom: "dom H = insert a (set ?live)"
    and ok: "\<And>x m. H x = Some m \<Longrightarrow> client_ok cfg (tn_config m)"
    and live: "\<And>x. x \<in> set ?live \<Longrightarrow> band_at H x = Some (current_band_freq S) \<and> runs H x"
    by (rule admit_cleaned) blast
  from inv have dist: "distinct ?live" "a \<notin> set ?live" "distinct as" and
    sh: "shutdown_thread S = No_thread \<longleftrightarrow> \<not> shutdown_thread_created S"
    and idle: "shutdown_thread_created S \<Longrightarrow> ?live = []"
    using a by (auto simp: tinv_at_def filter_empty_conv)
  have runs_eq: "runs H x = runs (tcp_heap S) x" if "x \<in> dom H" for x
    using that live n dom by (auto simp: runs_def)
  show ?thesis
  proof (cases ?live)
    case Nil
    with ch have "head = None" by simp
    with cl n Nil runs_eq show ?thesis
      using fine dom ok sh
      by (auto simp: admit_def admitted_list_def tinv_at_def tlinks_def band_at_def Let_def)
  next
    case (Cons x xs)
    with ch have head: "head = Some x" by auto
    have "x \<in> set ?live" using Cons by simp
    with live [of x] obtain m where m: "H x = Some m" "band_freq (tn_config m) = current_band_freq S"
      by (auto simp: band_at_def)
    with ok [OF m(1)] have cur: "current_band_freq S \<noteq> 0" by (simp add: client_ok_def)
    show ?thesis
    proof (cases "band_freq (tn_config n) = current_band_freq S")
      case False
      with cl n Cons head cur have "admit a S = Some (answer a RESPONSE_STATUS_FAILURE
          RESPONSE_DETAILS_OUT_OF_BAND_FREQ (S\<lparr>tcp_heap := H, tcp_nodes := head, acceptor := Dropping a\<rparr>))"
        by (auto simp: admit_def Let_def)
      moreover have "tinv_at cfg (S\<lparr>tcp_heap := H, tcp_nodes := head, acceptor := Dropping a\<rparr>) ?live"
        using ch dist dom fine ok live n sh idle Cons by (auto simp: tinv_at_def tlinks_def)
      moreover have "admitted_list S as a = ?live"
        using False n by (auto simp: admitted_list_def Let_def band_at_def)
      ultimately show ?thesis using False n Cons runs_eq by (auto simp: band_at_def)
    next
      case True
      let ?l = "last ?live"
      have l: "?l \<in> set ?live" "?l \<noteq> a" using Cons dist(2) by auto
      with live [of ?l] obtain ln where ln: "H ?l = Some ln" by (auto simp: band_at_def)
      have fl: "find_last H x = Some ?l" using find_last_chain ch head Cons by simp
      let ?H = "H(?l \<mapsto> ln\<lparr>tn_next := Some a\<rparr>)"
      from cl n head fl ln True have ad: "admit a S = Some (answer a RESPONSE_STATUS_SUCCESS
          (cc_id (tn_config n)) (S\<lparr>tcp_nodes := head, tcp_heap := ?H, acceptor := Accepting\<rparr>))"
        by (auto simp: admit_def Let_def)
      have links: "tlinks ?H = (tlinks H)(?l := Some (Some a), a := Some None)"
        using n l(2) by (auto simp: tlinks_def fun_eq_iff)
      have "chain (tlinks ?H) head (?live @ [a])"
        unfolding links using ch dist(1,2) Cons by (intro chain_snoc) auto
      moreover have "dom ?H = set (?live @ [a])" using dom ln by auto
      moreover have "nodes_fine ?H"
        using fine ln by (auto simp: nodes_fine_def tnode_ok_def node_running_def)
      moreover have "\<forall>y m. ?H y = Some m \<longrightarrow> client_ok cfg (tn_config m)" using ok ln by auto
      moreover have band: "band_at ?H y = band_at H y" "runs ?H y = runs H y" for y
        using ln by (auto simp: band_at_def runs_def node_running_def)
      moreover have "band_at H a = Some (current_band_freq S)" using n True by (simp add: band_at_def)
      ultimately have "tinv_at cfg (S\<lparr>tcp_nodes := head, tcp_heap := ?H, acceptor := Accepting\<rparr>) (?live @ [a])"
        using dist live sh idle Cons unfolding tinv_at_def by (simp del: fun_upd_apply) blast
      moreover have "admitted_list S as a = ?live @ [a]"
        using True n Cons by (simp add: admitted_list_def Let_def band_at_def)
      moreover have "\<forall>y \<in> dom ?H. runs ?H y = runs (tcp_heap S) y"
        using runs_eq band(2) ln by (auto simp: dom_def)
      ultimately show ?thesis using ad True n Cons by (simp add: band_at_def del: fun_upd_apply)
    qed
  qed
qed

subsection \<open>The other steps of the acceptor\<close>

lemma start_device_tinv:
  assumes inv: "tinv_at cfg S as" and pc: "acceptor S = Joining_shutdown a" and st: "start_device code a S = Some S'"
  shows "as = [] \<and> tinv_at cfg S' (if code = 0 then [a] else []) \<and> tcp_heap S' = tcp_heap S \<and>
    \<not> shutdown_thread_created S' \<and> shutdown_thread S' = No_thread \<and>
    (if code = 0 then \<not> sdr_stopped S' \<and> sdr_running S' \<and> acceptor S' = Accepting
     else sdr_stopped S' = sdr_stopped S \<and> sdr_running S' = sdr_running S \<and> acceptor S' = Dropping a)"
proof -
  from inv pc have as: "as = []" and link: "tlinks (tcp_heap S) a = Some None"
    and sh: "shutdown_thread S = No_thread \<longleftrightarrow> \<not> shutdown_thread_created S" by (auto simp: tinv_at_def)
  then obtain n where n: "tcp_heap S a = Some n" "tn_next n = None" by (auto simp: tlinks_Some)
  have ch: "chain (tlinks (tcp_heap S)) (Some a) [a]" using link by simp
  from st n(1) sh inv pc as ch show ?thesis
    by (auto simp: start_device_def Let_def tinv_at_def split: if_splits)
qed

lemma remove_node_tinv:
  assumes "distinct (as @ [a])" "dom H = set (as @ [a])" "chain (tlinks H) p as" "nodes_fine H"
  shows "chain (tlinks (H(a := None))) p as" "dom (H(a := None)) = set as" "nodes_fine (H(a := None))"
    "\<And>x. x \<in> set as \<Longrightarrow> band_at (H(a := None)) x = band_at H x \<and> runs (H(a := None)) x = runs H x"
proof -
  have "tlinks (H(a := None)) x = tlinks H x" if "x \<in> set as" for x
    using that assms(1) by (auto simp: tlinks_def)
  then show "chain (tlinks (H(a := None))) p as" using assms(3) by (rule chain_same)
  show "dom (H(a := None)) = set as" using assms(1,2) by auto
  show "nodes_fine (H(a := None))" using assms(4) by (simp add: nodes_fine_def)
  show "band_at (H(a := None)) x = band_at H x \<and> runs (H(a := None)) x = runs H x" if "x \<in> set as" for x
    using that assms(1) by (auto simp: band_at_def runs_def)
qed

lemma drop_tinv:
  assumes inv: "tinv_at cfg S as" and pc: "acceptor S = Dropping a"
    and H: "tcp_node_final_cleanup a (tcp_heap S) = Some H"
  shows "tinv_at cfg (S\<lparr>tcp_heap := H, acceptor := Accepting\<rparr>) as \<and> (\<forall>x \<in> set as. runs H x = runs (tcp_heap S) x)"
proof -
  from H have H': "H = (tcp_heap S)(a := None)"
    by (auto simp: tcp_node_final_cleanup_def bind_eq_Some_conv split: if_splits)
  from inv pc have *: "distinct (as @ [a])" "dom (tcp_heap S) = set (as @ [a])"
    "chain (tlinks (tcp_heap S)) (tcp_nodes S) as" "nodes_fine (tcp_heap S)" by (simp_all add: tinv_at_def)
  from remove_node_tinv [OF *] inv pc show ?thesis
    by (simp add: tinv_at_def H' del: fun_upd_apply) (auto simp: fun_upd_apply)
qed

lemma drain_tinv:
  assumes inv: "tinv_at cfg S as" and pc: "acceptor S = Draining" and S': "drain S = Some S'"
  shows "\<exists>as'. tinv_at cfg S' as' \<and> (acceptor S' = Draining \<or> acceptor S' = Joining_final \<and> sdr_stopped S') \<and>
    (\<forall>x. (x \<in> set as \<and> runs (tcp_heap S) x) = (x \<in> set as' \<and> runs (tcp_heap S') x)) \<and>
    sdr_stopped S' = sdr_stopped S \<and> shutdown_thread_created S' = shutdown_thread_created S \<and>
    shutdown_thread S' = shutdown_thread S \<and> sdr_running S' = sdr_running S"
proof (cases as)
  case Nil
  with inv have "tcp_nodes S = None" by (simp add: tinv_at_def)
  with S' have "S' = (if sdr_stopped S then S\<lparr>acceptor := Joining_final\<rparr> else S)" by (simp add: drain_def)
  with inv pc Nil show ?thesis by (intro exI [of _ "[]"]) (auto simp: tinv_at_def)
next
  case (Cons a bs)
  with inv obtain n where n: "tcp_nodes S = Some a" "tcp_heap S a = Some n"
    "chain (tlinks (tcp_heap S)) (tn_next n) bs" by (auto simp: tinv_at_def tlinks_Some)
  show ?thesis
  proof (cases "node_running n")
    case True
    with S' n have "S' = S" by (simp add: drain_def)
    with inv pc show ?thesis by auto
  next
    case False
    with S' n have s: "S' = S\<lparr>tcp_heap := (tcp_heap S)(a := None), tcp_nodes := tn_next n\<rparr>"
      by (auto simp: drain_def tcp_node_final_cleanup_def bind_eq_Some_conv split: if_splits)
    from inv pc Cons have *: "distinct (bs @ [a])" "dom (tcp_heap S) = set (bs @ [a])" "nodes_fine (tcp_heap S)"
      by (auto simp: tinv_at_def)
    note rem = remove_node_tinv [OF *(1,2) n(3) *(3)]
    have "tinv_at cfg S' bs"
      using rem inv pc Cons s by (simp add: tinv_at_def del: fun_upd_apply) (auto simp: fun_upd_apply)
    moreover have "\<not> runs (tcp_heap S) a" "\<not> runs (tcp_heap S') a"
      using n(2) False by (auto simp: runs_def s)
    ultimately show ?thesis using rem(4) s pc Cons by (intro exI [of _ bs]) auto
  qed
qed

lemma finish_tinv:
  assumes "tinv_at cfg S as" "acceptor S = Joining_final" "finish S = Some S'"
  shows "tinv_at cfg S' as \<and> acceptor S' = Exited \<and> tcp_heap S' = tcp_heap S \<and>
    \<not> shutdown_thread_created S' \<and> shutdown_thread S' = No_thread \<and> sdr_stopped S' = sdr_stopped S \<and>
    sdr_running S' = sdr_running S"
proof -
  from assms(3) have "S' = (if shutdown_thread_created S
      then S\<lparr>shutdown_thread_created := False, shutdown_thread := No_thread\<rparr> else S)\<lparr>acceptor := Exited\<rparr>"
    by (simp add: finish_def split: if_splits)
  with assms(1,2) show ?thesis by (simp add: tinv_at_def)
qed

lemma tstep_tinv:
  assumes inv: "tinv_at cfg S as" and step: "tstep early failing cfg S S'"
  shows "\<exists>as'. tinv_at cfg S' as'"
  using step
proof cases
  case (connected e env sock evs c evs' a)
  with tinv_connected [OF inv] Ready_client_ok [of e env cfg _ sock evs c evs'] show ?thesis by blast
next
  case (admits a)
  with admit_ok [OF inv] show ?thesis by fastforce
next
  case (wakes a)
  with inv show ?thesis by (intro exI [of _ as]) (simp add: tinv_at_def, clarsimp)
next
  case (starts a code)
  with start_device_tinv [OF inv] show ?thesis by blast
next
  case (drops a H)
  with drop_tinv [OF inv] show ?thesis by blast
next
  case (leaves a n)
  with tinv_leaves [OF inv] show ?thesis by blast
next
  case (terminates a n)
  from worker_terminate_ok [OF inv terminates(1)] terminates(4) show ?thesis
    by (intro exI [of _ as]) (simp only: option.inject)
next
  case drains
  with drain_tinv [OF inv] show ?thesis by blast
next
  case exits
  with finish_tinv [OF inv] show ?thesis by blast
next
  case accept_fails
  with inv show ?thesis by (intro exI [of _ as]) (simp add: tinv_at_def)
qed (use inv in \<open>intro exI [of _ as], simp add: tinv_at_def\<close>)+

lemma treach_tinv:
  assumes "treach early failing cfg S"
  shows "\<exists>as. tinv_at cfg S as"
  using assms
proof induction
  case start
  have "tinv_at cfg tstart []" by (simp add: tinv_at_def tstart_def nodes_fine_def)
  then show ?case ..
next
  case (step S S')
  then show ?case using tstep_tinv by blast
qed

end
