(* ===== verification/Tcp_Properties.thy ===== *)
theory Tcp_Properties
  imports Tcp_Steps
begin

text \<open>
  The properties of the server.  They hold for every interleaving of the threads; those that concern
  the life of the device assume that clients do not leave while they are being admitted and that the
  device starts, and the last two show what happens otherwise.
\<close>

subsection \<open>The device and the clients\<close>

definition live :: "tcp_server \<Rightarrow> nat list \<Rightarrow> bool" where
  "live S as \<longleftrightarrow> (\<exists>x \<in> set as. runs (tcp_heap S) x)"

definition pinv :: "tcp_server \<Rightarrow> nat list \<Rightarrow> bool" where
  "pinv S as \<longleftrightarrow>
     (sdr_stopped S \<longrightarrow> \<not> sdr_running S \<and> shutdown_thread S \<noteq> Stopping \<and> shutdown_thread S \<noteq> Reporting) \<and>
     (shutdown_thread S = Reporting \<longrightarrow> \<not> sdr_running S) \<and>
     (shutdown_thread S = Reported \<longrightarrow> sdr_stopped S) \<and>
     (\<not> sdr_stopped S \<and> \<not> shutdown_thread_created S \<longrightarrow> sdr_running S \<and> live S as) \<and>
     (live S as \<longrightarrow> \<not> sdr_stopped S) \<and>
     (\<forall>a n. entering (acceptor S) a \<and> tcp_heap S a = Some n \<longrightarrow> tn_thread n = Looping) \<and>
     (\<forall>a. acceptor S = Dropping a \<longrightarrow> shutdown_thread_created S \<or> \<not> sdr_stopped S) \<and>
     (holds_mutex (acceptor S) \<longrightarrow> sdr_stopped S)"

lemma tinv_created: "tinv_at cfg S as \<Longrightarrow> shutdown_thread S = No_thread \<longleftrightarrow> \<not> shutdown_thread_created S"
  by (simp add: tinv_at_def)

lemma tinv_created_live: "tinv_at cfg S as \<Longrightarrow> shutdown_thread_created S \<Longrightarrow> \<not> live S as"
  by (simp add: tinv_at_def live_def)

lemma tinv_node_running: "tinv_at cfg S as \<Longrightarrow> tcp_heap S a = Some n \<Longrightarrow> tn_thread n \<noteq> Finished \<Longrightarrow> runs (tcp_heap S) a"
  by (auto simp: tinv_at_def nodes_fine_def tnode_ok_def runs_def)

lemma pinv_connected:
  assumes inv: "tinv_at cfg S as" "pinv S as" and pc: "acceptor S = Accepting" "tcp_heap S a = None"
  shows "pinv (S\<lparr>client_counter := k, acceptor := Admitting a, tcp_heap := (tcp_heap S)
    (a \<mapsto> \<lparr>tn_next = None, tn_config = c, tn_worker = True, tn_thread = Looping\<rparr>)\<rparr>) as"
proof -
  from inv(1) pc have "dom (tcp_heap S) = set as" by (simp add: tinv_at_def)
  with pc have "a \<notin> set as" by (metis domIff)
  then have "live (S\<lparr>client_counter := k, acceptor := Admitting a, tcp_heap := (tcp_heap S)
    (a \<mapsto> \<lparr>tn_next = None, tn_config = c, tn_worker = True, tn_thread = Looping\<rparr>)\<rparr>) as = live S as"
    by (auto simp: live_def runs_def)
  with inv(2) show ?thesis by (simp add: pinv_def)
qed

lemma pinv_admits:
  assumes inv: "tinv_at cfg S as" "pinv S as" and pc: "acceptor S = Admitting a" and S': "admit a S = Some S'"
  shows "\<exists>as'. tinv_at cfg S' as' \<and> pinv S' as'"
proof -
  from admit_ok [OF inv(1) pc] S' have t: "tinv_at cfg S' (admitted_list S as a)" and
    same: "sdr_stopped S' = sdr_stopped S" "shutdown_thread_created S' = shutdown_thread_created S"
      "shutdown_thread S' = shutdown_thread S" "sdr_running S' = sdr_running S" and
    pc': "acceptor S' = (if filter (runs (tcp_heap S)) as = []
      then (if sdr_stopped S then Joining_shutdown a else Waiting_for_stop a)
      else if band_at (tcp_heap S) a = Some (current_band_freq S) then Accepting else Dropping a)" and
    heap: "filter (runs (tcp_heap S)) as = [] \<longrightarrow> tcp_heap S' a = tcp_heap S a" and
    runs: "\<forall>x \<in> dom (tcp_heap S'). runs (tcp_heap S') x = runs (tcp_heap S) x" by auto
  have "set (admitted_list S as a) \<subseteq> dom (tcp_heap S')" using t by (auto simp: tinv_at_def)
  then have "live S' (admitted_list S as a) = (\<exists>x \<in> set (admitted_list S as a). runs (tcp_heap S) x)"
    using runs by (auto simp: live_def)
  also have "\<dots> = live S as"
    by (auto simp: admitted_list_def live_def Let_def filter_empty_conv)
  finally have l: "live S' (admitted_list S as a) = live S as" .
  have e: "entering (acceptor S) a" using pc by simp
  have "filter (runs (tcp_heap S)) as \<noteq> [] \<Longrightarrow> live S as" by (auto simp: live_def filter_empty_conv)
  then have "pinv S' (admitted_list S as a)"
    using inv(2) l same pc' heap e unfolding pinv_def by (cases "filter (runs (tcp_heap S)) as = []") auto
  with t show ?thesis by blast
qed

lemma pinv_terminates:
  assumes inv: "tinv_at cfg S as" "pinv S as" and n: "tcp_heap S a = Some n" "tn_thread n = Locking"
    and S': "worker_terminate a S = Some S'"
  shows "\<exists>as'. tinv_at cfg S' as' \<and> pinv S' as'"
proof -
  let ?n = "n\<lparr>tn_config := (tn_config n)\<lparr>is_running := False\<rparr>, tn_worker := False, tn_thread := Finished\<rparr>"
  let ?none = "\<forall>x \<in> set as. x \<noteq> a \<longrightarrow> \<not> runs (tcp_heap S) x"
  from worker_terminate_ok [OF inv(1) n(1)] S' have s: "S' = ((if ?none \<and> \<not> shutdown_thread_created S
      then S\<lparr>shutdown_thread := Stopping, shutdown_thread_created := True\<rparr> else S)
      \<lparr>tcp_heap := (tcp_heap S)(a \<mapsto> ?n)\<rparr>)" and t: "tinv_at cfg S' as" by simp_all
  have live': "live S' as \<longleftrightarrow> \<not> ?none"
    by (auto simp: s live_def runs_def node_running_def)
  have ne: "\<not> entering (acceptor S) a" using inv(2) n by (auto simp: pinv_def)
  have "a \<in> set as \<or> acceptor S = Dropping a"
  proof -
    have "a \<in> set (as @ busy (acceptor S))" using inv(1) n(1) by (auto simp: tinv_at_def)
    with ne show ?thesis by (cases "acceptor S") auto
  qed
  moreover have "runs (tcp_heap S) a" using tinv_node_running [OF inv(1) n(1)] n(2) by simp
  ultimately have st: "\<not> shutdown_thread_created S \<Longrightarrow> \<not> sdr_stopped S"
    using inv(2) by (auto simp: pinv_def live_def)
  have "live S' as \<Longrightarrow> live S as" using live' by (auto simp: live_def)
  moreover have "shutdown_thread_created S \<Longrightarrow> \<not> live S as" using tinv_created_live [OF inv(1)] .
  moreover have "\<forall>x m. entering (acceptor S) x \<and> tcp_heap S' x = Some m \<longrightarrow> tn_thread m = Looping"
    using inv(2) ne by (auto simp: s pinv_def)
  ultimately have "pinv S' as"
    using inv(2) st live' tinv_created [OF inv(1)] unfolding pinv_def s
    by (cases "?none \<and> \<not> shutdown_thread_created S") (simp_all del: fun_upd_apply, blast+)
  with t show ?thesis by blast
qed

lemma tstep_pinv:
  assumes inv: "tinv_at cfg S as" "pinv S as" and step: "tstep False False cfg S S'"
  shows "\<exists>as'. tinv_at cfg S' as' \<and> pinv S' as'"
  using step
proof cases
  case (answered e env sock evs status details evs')
  with inv show ?thesis by (intro exI [of _ as]) (simp add: tinv_at_def pinv_def live_def)
next
  case (connected e env sock evs c evs' a)
  have "tinv_at cfg S' as"
    using tinv_connected [OF inv(1)] connected Ready_client_ok [OF connected(4)] by simp
  moreover have "pinv S' as" using pinv_connected [OF inv connected(2,5)] connected(1) by simp
  ultimately show ?thesis by blast
next
  case (admits a)
  with pinv_admits [OF inv] show ?thesis by blast
next
  case (wakes a)
  then have "tinv_at cfg S' as" using inv(1) by (simp add: tinv_at_def, clarsimp)
  moreover have "pinv S' as" using inv(2) wakes by (simp add: pinv_def live_def)
  ultimately show ?thesis by blast
next
  case (starts a code)
  from start_device_tinv [OF inv(1) starts(1,2)] starts(3) have s: "tinv_at cfg S' [a]"
    "tcp_heap S' = tcp_heap S" "\<not> shutdown_thread_created S'" "shutdown_thread S' = No_thread"
    "\<not> sdr_stopped S'" "sdr_running S'" "acceptor S' = Accepting" by auto
  from s(1) have "chain (tlinks (tcp_heap S')) (tcp_nodes S') [a]" by (simp add: tinv_at_def)
  then obtain n where n: "tcp_heap S a = Some n" using s(2) by (auto simp: tlinks_Some)
  with inv(2) starts(1) have "tn_thread n = Looping" by (auto simp: pinv_def)
  with tinv_node_running [OF inv(1) n] s(2) have "live S' [a]" by (simp add: live_def)
  with s have "pinv S' [a]" by (simp add: pinv_def)
  with s(1) show ?thesis by blast
next
  case (drops a H)
  with drop_tinv [OF inv(1)] have "tinv_at cfg S' as" "live S' as = live S as" by (auto simp: live_def)
  moreover from this drops inv(2) have "pinv S' as" by (simp add: pinv_def)
  ultimately show ?thesis by blast
next
  case (leaves a n)
  have "runs (tcp_heap S') x = runs (tcp_heap S) x" for x
    using leaves by (cases "x = a") (simp_all add: runs_def node_running_def)
  then have "live S' as = live S as" by (simp add: live_def)
  moreover have "tinv_at cfg S' as" using tinv_leaves [OF inv(1)] leaves by simp
  moreover have "pinv S' as" using inv(2) leaves calculation by (simp add: pinv_def)
  ultimately show ?thesis by blast
next
  case (terminates a n)
  with pinv_terminates [OF inv] show ?thesis by blast
next
  case stops_device
  with inv(1) have t: "tinv_at cfg S' as" by (simp add: tinv_at_def)
  have "shutdown_thread_created S" using tinv_created [OF inv(1)] stops_device by simp
  then have "pinv S' as" using inv(2) stops_device by (auto simp: pinv_def live_def)
  with t show ?thesis by blast
next
  case reports
  with inv(1) have t: "tinv_at cfg S' as" by (simp add: tinv_at_def)
  have "shutdown_thread_created S" using tinv_created [OF inv(1)] reports by simp
  then have "pinv S' as" using inv(2) reports tinv_created_live [OF inv(1)] by (auto simp: pinv_def live_def)
  with t show ?thesis by blast
next
  case stop_requested
  with inv show ?thesis by (intro exI [of _ as]) (simp add: tinv_at_def pinv_def live_def)
next
  case accept_fails
  with inv show ?thesis by (intro exI [of _ as]) (simp add: tinv_at_def pinv_def live_def)
next
  case drains
  from drain_tinv [OF inv(1) drains] obtain as' where t: "tinv_at cfg S' as'"
    "acceptor S' = Draining \<or> acceptor S' = Joining_final \<and> sdr_stopped S'"
    "\<forall>x. (x \<in> set as \<and> runs (tcp_heap S) x) = (x \<in> set as' \<and> runs (tcp_heap S') x)"
    "sdr_stopped S' = sdr_stopped S" "shutdown_thread_created S' = shutdown_thread_created S"
    "shutdown_thread S' = shutdown_thread S" "sdr_running S' = sdr_running S" by blast
  have "live S' as' = live S as" using t(3) by (auto simp: live_def)
  with t inv(2) have "pinv S' as'" by (auto simp: pinv_def)
  with t(1) show ?thesis by blast
next
  case exits
  with finish_tinv [OF inv(1)] have t: "tinv_at cfg S' as" "acceptor S' = Exited" "tcp_heap S' = tcp_heap S"
    "\<not> shutdown_thread_created S'" "shutdown_thread S' = No_thread" "sdr_stopped S' = sdr_stopped S"
    "sdr_running S' = sdr_running S" by blast+
  with inv(2) exits have "pinv S' as" by (auto simp: pinv_def live_def)
  with t(1) show ?thesis by blast
qed

lemma treach_pinv:
  assumes "treach False False cfg S"
  shows "\<exists>as. tinv_at cfg S as \<and> pinv S as"
  using assms
proof induction
  case start
  have "tinv_at cfg tstart [] \<and> pinv tstart []"
    by (simp add: tinv_at_def tstart_def nodes_fine_def pinv_def live_def)
  then show ?case ..
next
  case (step S S')
  then show ?case using tstep_pinv by blast
qed

subsection \<open>An executable scheduler\<close>

datatype tevent = Connect nat "u8 list" | Admit | Wake | Start int | Drop | Leave nat | Terminate nat
  | Stop_device | Report

definition good_env :: client_env where
  "good_env = \<lparr>config_mem = True, node_mem = True, start_code = 0, thread_code = 0, junk_worker = None\<rparr>"

fun texec :: "bool \<Rightarrow> bool \<Rightarrow> server_config \<Rightarrow> tevent \<Rightarrow> tcp_server \<Rightarrow> tcp_server option" where
  "texec early failing cfg (Connect a bs) S =
     (if acceptor S = Accepting \<and> ts_is_running S \<and> tcp_heap S a = None then
        (case handle_connection Little good_env cfg (client_counter S + 1) a [Arrive bs] of
           Some (Ready c, evs') \<Rightarrow> Some (S\<lparr>client_counter := client_counter S + 1, acceptor := Admitting a,
             tcp_heap := (tcp_heap S)(a \<mapsto> \<lparr>tn_next = None, tn_config = c, tn_worker = True, tn_thread = Looping\<rparr>)\<rparr>)
         | _ \<Rightarrow> None)
      else None)"
| "texec early failing cfg Admit S = (case acceptor S of Admitting a \<Rightarrow> admit a S | _ \<Rightarrow> None)"
| "texec early failing cfg Wake S =
     (case acceptor S of
        Waiting_for_stop a \<Rightarrow> (if sdr_stopped S then Some (S\<lparr>acceptor := Joining_shutdown a\<rparr>) else None)
      | _ \<Rightarrow> None)"
| "texec early failing cfg (Start code) S =
     (case acceptor S of Joining_shutdown a \<Rightarrow> (if failing \<or> code = 0 then start_device code a S else None) | _ \<Rightarrow> None)"
| "texec early failing cfg Drop S =
     (case acceptor S of
        Dropping a \<Rightarrow> map_option (\<lambda>H. S\<lparr>tcp_heap := H, acceptor := Accepting\<rparr>) (tcp_node_final_cleanup a (tcp_heap S))
      | _ \<Rightarrow> None)"
| "texec early failing cfg (Leave a) S =
     (case tcp_heap S a of
        Some n \<Rightarrow> (if tn_thread n = Looping \<and> (early \<or> \<not> entering (acceptor S) a)
          then Some (S\<lparr>tcp_heap := (tcp_heap S)(a \<mapsto> n\<lparr>tn_thread := Locking\<rparr>)\<rparr>) else None)
      | None \<Rightarrow> None)"
| "texec early failing cfg (Terminate a) S =
     (case tcp_heap S a of
        Some n \<Rightarrow> (if tn_thread n = Locking \<and> \<not> holds_mutex (acceptor S) then worker_terminate a S else None)
      | None \<Rightarrow> None)"
| "texec early failing cfg Stop_device S =
     (if shutdown_thread S = Stopping then Some (S\<lparr>sdr_running := False, shutdown_thread := Reporting\<rparr>) else None)"
| "texec early failing cfg Report S =
     (if shutdown_thread S = Reporting \<and> \<not> holds_mutex (acceptor S)
      then Some (S\<lparr>sdr_stopped := True, shutdown_thread := Reported\<rparr>) else None)"

lemma texec_step: "texec early failing cfg ev S = Some S' \<Longrightarrow> tstep early failing cfg S S'"
  by (cases ev)
    (auto split: if_splits option.splits acceptor_pc.splits outcome.splits
      intro: tstep.connected tstep.admits tstep.wakes tstep.starts tstep.drops tstep.leaves
        tstep.terminates tstep.stops_device tstep.reports)

fun trun :: "bool \<Rightarrow> bool \<Rightarrow> server_config \<Rightarrow> tevent list \<Rightarrow> tcp_server \<Rightarrow> tcp_server option" where
  "trun early failing cfg [] S = Some S"
| "trun early failing cfg (ev # evs) S = Option.bind (texec early failing cfg ev S) (trun early failing cfg evs)"

lemma trun_reach:
  "trun early failing cfg evs S = Some S' \<Longrightarrow> treach early failing cfg S \<Longrightarrow> treach early failing cfg S'"
  by (induction evs arbitrary: S)
    (auto simp: bind_eq_Some_conv dest: texec_step intro: treach.step)

definition demo_cfg :: server_config where
  "demo_cfg = zero_config\<lparr>band_sampling_rate := 2016000\<rparr>"

text \<open>A request for 48 kHz at 436.6 MHz in the band around 436 MHz, or around 437 MHz.\<close>

definition demo_request :: "u8 list" where
  "demo_request = [0, 0, 26, 5, 252, 192, 0, 0, 187, 128, 25, 252, 213, 0, 1]"

definition other_request :: "u8 list" where
  "other_request = [0, 0, 26, 5, 252, 192, 0, 0, 187, 128, 26, 12, 23, 64, 1]"

definition demo_client :: "nat \<Rightarrow> u32 \<Rightarrow> client_config" where
  "demo_client a k = zero_client\<lparr>center_freq := 436600000, sampling_rate := 48000, band_freq := 436000000,
     destination := 1, client_socket := a, is_running := True, cc_id := k\<rparr>"

lemma demo_connection:
  "handle_connection Little good_env demo_cfg k a [Arrive demo_request] = Some (Ready (demo_client a k), [])"
  "handle_connection Little good_env demo_cfg k a [Arrive other_request] =
     Some (Ready (demo_client a k\<lparr>band_freq := 437000000\<rparr>), [])"
  by (simp_all add: handle_connection_def prepare_client_def read_client_config_def read_struct_def good_env_def
      demo_cfg_def demo_request_def other_request_def demo_client_def sizeof_header_def sizeof_request_def
      request_of_bytes_def header_of_bytes_def of_big_bytes_def big_bytes_def zero_client_def Let_def
      validate_client_config_def zero_config_def api_defs)

lemmas server_eval = admit_def start_device_def worker_terminate_def tcp_node_final_cleanup_def answer_def
  cleanup_terminated_threads_def cleanup_loop.simps count_running.simps find_last.simps sdr_callback.simps
  node_running_def demo_connection Let_def tstart_def demo_client_def zero_client_def

definition demo_server :: "bool \<Rightarrow> tevent list \<Rightarrow> tcp_server" where
  "demo_server fault evs = (case trun fault fault demo_cfg evs tstart of None \<Rightarrow> tstart | Some S \<Rightarrow> S)"

lemma demo_treach: "treach fault fault demo_cfg (demo_server fault evs)"
  using trun_reach [of fault fault demo_cfg evs tstart] treach.start
  by (cases "trun fault fault demo_cfg evs tstart") (auto simp: demo_server_def)

subsection \<open>Properties\<close>



text \<open>C2.  One band, whole decimation.  In every reachable state all clients the device callback
  serves have the band the server is tuned to, and every client of the server, listed or being
  admitted, has passed the checks: non-zero frequencies, a rate that divides the band rate and a known
  destination.\<close>

theorem served_clients_share_band:
  assumes "treach early failing cfg S" "sdr_callback (tcp_heap S) (tcp_nodes S) = Some served"
  shows "(\<forall>a \<in> set served. \<exists>n. tcp_heap S a = Some n \<and> band_freq (tn_config n) = current_band_freq S) \<and>
    (\<forall>a n. tcp_heap S a = Some n \<longrightarrow> client_ok cfg (tn_config n))"
proof -
  from treach_tinv [OF assms(1)] obtain as where inv: "tinv_at cfg S as" ..
  have "sdr_callback (tcp_heap S) (tcp_nodes S) = Some (filter (runs (tcp_heap S)) as)"
    using inv by (intro sdr_callback_chain) (simp_all add: tinv_at_def)
  with assms(2) have sub: "\<And>a. a \<in> set served \<Longrightarrow> a \<in> set as" by auto
  have "\<exists>n. tcp_heap S a = Some n \<and> band_freq (tn_config n) = current_band_freq S" if "a \<in> set as" for a
  proof -
    have "band_at (tcp_heap S) a = Some (current_band_freq S)" using inv that by (simp add: tinv_at_def)
    then show ?thesis by (auto simp: band_at_def)
  qed
  with sub inv show ?thesis by (simp add: tinv_at_def)
qed

theorem served_clients_share_band_witness:
  "\<exists>n. tcp_heap (demo_server False [Connect 4 demo_request, Admit, Start 0]) 4 = Some n \<and>
    band_freq (tn_config n) = 436000000 \<and> client_ok demo_cfg (tn_config n)"
proof -
  let ?S = "demo_server False [Connect 4 demo_request, Admit, Start 0]"
  have "sdr_callback (tcp_heap ?S) (tcp_nodes ?S) = Some [4]" "current_band_freq ?S = 436000000"
    by (simp_all add: demo_server_def server_eval)
  with served_clients_share_band [OF demo_treach, of False "[Connect 4 demo_request, Admit, Start 0]" "[4]"]
  show ?thesis by fastforce
qed





text \<open>C22.  The device follows the clients.  When clients do not leave while they are admitted and the
  device starts, then at any time: as long as a client is served the device runs and no shutdown
  thread exists; when the device is not marked as stopped and no shutdown thread exists, some client is
  served; and a device marked as stopped does not run.\<close>

theorem device_follows_clients:
  assumes "treach False False cfg S" "sdr_callback (tcp_heap S) (tcp_nodes S) = Some served"
  shows "(served \<noteq> [] \<longrightarrow> sdr_running S \<and> \<not> sdr_stopped S \<and> shutdown_thread S = No_thread) \<and>
    (\<not> sdr_stopped S \<and> shutdown_thread S = No_thread \<longrightarrow> served \<noteq> []) \<and>
    (sdr_stopped S \<longrightarrow> \<not> sdr_running S)"
proof -
  from treach_pinv [OF assms(1)] obtain as where inv: "tinv_at cfg S as" "pinv S as" by blast
  have "served = filter (runs (tcp_heap S)) as"
    using inv(1) assms(2) sdr_callback_chain [of "tcp_heap S" "tcp_nodes S" as] by (simp add: tinv_at_def)
  then have "served \<noteq> [] \<longleftrightarrow> live S as" by (auto simp: live_def filter_empty_conv)
  with inv(2) tinv_created [OF inv(1)] tinv_created_live [OF inv(1)] show ?thesis
    unfolding pinv_def by blast
qed

theorem device_follows_clients_witness:
  "sdr_running (demo_server False [Connect 4 demo_request, Admit, Start 0, Leave 4]) \<and>
   \<not> sdr_running (demo_server False [Connect 4 demo_request, Admit, Start 0, Leave 4, Terminate 4, Stop_device, Report])"
proof -
  let ?S = "demo_server False [Connect 4 demo_request, Admit, Start 0, Leave 4]"
  let ?T = "demo_server False [Connect 4 demo_request, Admit, Start 0, Leave 4, Terminate 4, Stop_device, Report]"
  have "sdr_callback (tcp_heap ?S) (tcp_nodes ?S) = Some [4]"
    "sdr_callback (tcp_heap ?T) (tcp_nodes ?T) = Some []" "sdr_stopped ?T"
    by (simp_all add: demo_server_def server_eval)
  with device_follows_clients [OF demo_treach, of "[Connect 4 demo_request, Admit, Start 0, Leave 4]" "[4]"]
    device_follows_clients [OF demo_treach, of
      "[Connect 4 demo_request, Admit, Start 0, Leave 4, Terminate 4, Stop_device, Report]" "[]"]
  show ?thesis by blast
qed

text \<open>The end of an admission, step by step: the device starts, a waiting acceptor wakes.\<close>

definition admits_soon :: "server_config \<Rightarrow> tcp_server \<Rightarrow> nat \<Rightarrow> bool" where
  "admits_soon cfg T a \<longleftrightarrow>
     (\<exists>S'. (tstep False False cfg)\<^sup>*\<^sup>* T S' \<and> acceptor S' = Accepting \<and> tcp_nodes S' = Some a \<and> sdr_running S')"

lemma admits_soon_step: "tstep False False cfg T T' \<Longrightarrow> admits_soon cfg T' a \<Longrightarrow> admits_soon cfg T a"
  unfolding admits_soon_def by (meson converse_rtranclp_into_rtranclp)

lemma device_starts:
  assumes T: "treach False False cfg T" "acceptor T = Joining_shutdown a"
  shows "\<exists>S'. start_device 0 a T = Some S' \<and> acceptor S' = Accepting \<and> tcp_nodes S' = Some a \<and> sdr_running S'"
proof -
  from treach_pinv [OF T(1)] obtain as where inv: "tinv_at cfg T as" "pinv T as" by blast
  with T(2) have "sdr_stopped T" "shutdown_thread T \<noteq> Stopping" "shutdown_thread T \<noteq> Reporting"
    by (simp_all add: pinv_def)
  then have "shutdown_thread_created T \<longrightarrow> shutdown_thread T = Reported"
    using tinv_created [OF inv(1)] by (cases "shutdown_thread T") auto
  moreover from inv(1) T(2) obtain n where "tcp_heap T a = Some n" by (auto simp: tinv_at_def tlinks_Some)
  ultimately show ?thesis by (auto simp: start_device_def Let_def)
qed

lemma stopped_admits:
  assumes T: "treach False False cfg T" "acceptor T = Waiting_for_stop a" "sdr_stopped T"
  shows "admits_soon cfg T a"
proof -
  let ?T = "T\<lparr>acceptor := Joining_shutdown a\<rparr>"
  have 1: "tstep False False cfg T ?T" using T(2,3) by (rule tstep.wakes)
  from device_starts [OF treach.step [OF T(1) 1], of a] obtain S' where
    S': "start_device 0 a ?T = Some S'" "acceptor S' = Accepting" "tcp_nodes S' = Some a" "sdr_running S'" by auto
  from S'(1) have "tstep False False cfg ?T S'" by (intro tstep.starts [of _ a 0]) auto
  with S' have "admits_soon cfg ?T a" unfolding admits_soon_def by blast
  with 1 show ?thesis by (rule admits_soon_step)
qed

lemma reporting_admits:
  assumes T: "treach False False cfg T" "acceptor T = Waiting_for_stop a" "shutdown_thread T = Reporting"
  shows "admits_soon cfg T a"
proof -
  let ?T = "T\<lparr>sdr_stopped := True, shutdown_thread := Reported\<rparr>"
  have 1: "tstep False False cfg T ?T" using T(2,3) by (intro tstep.reports) auto
  from stopped_admits [OF treach.step [OF T(1) 1], of a] T(2) have "admits_soon cfg ?T a" by simp
  with 1 show ?thesis by (rule admits_soon_step)
qed

lemma waiting_admits:
  assumes S: "treach False False cfg S" and pc: "acceptor S = Waiting_for_stop a"
  shows "admits_soon cfg S a"
proof -
  from treach_pinv [OF S] obtain as where inv: "tinv_at cfg S as" "pinv S as" by blast
  with pc have idle: "\<not> live S as" by (simp add: tinv_at_def live_def)
  show ?thesis
  proof (cases "shutdown_thread S")
    case No_thread
    with inv idle tinv_created [OF inv(1)] have "sdr_stopped S" by (auto simp: pinv_def)
    with stopped_admits [OF S pc] show ?thesis by blast
  next
    case Stopping
    let ?T = "S\<lparr>sdr_running := False, shutdown_thread := Reporting\<rparr>"
    have 1: "tstep False False cfg S ?T" using Stopping by (rule tstep.stops_device)
    from reporting_admits [OF treach.step [OF S 1], of a] pc have "admits_soon cfg ?T a" by simp
    with 1 show ?thesis by (rule admits_soon_step)
  next
    case Reporting
    with reporting_admits [OF S pc] show ?thesis by blast
  next
    case Reported
    with inv(2) have "sdr_stopped S" by (simp add: pinv_def)
    with stopped_admits [OF S pc] show ?thesis by blast
  qed
qed



subsection \<open>What can go wrong\<close>

lemma stuck_forever:
  assumes "(tstep early failing cfg)\<^sup>*\<^sup>* S S'"
    and "acceptor S = Joining_shutdown a" "shutdown_thread_created S"
      "shutdown_thread S = Stopping \<or> shutdown_thread S = Reporting"
  shows "acceptor S' = Joining_shutdown a \<and> shutdown_thread_created S' \<and>
    (shutdown_thread S' = Stopping \<or> shutdown_thread S' = Reporting)"
  using assms(1)
proof induction
  case base
  with assms show ?case by simp
next
  case (step T T')
  from step(2) step(3) show ?case
    by cases (auto simp: start_device_def)
qed

text \<open>C38.  The acceptor can deadlock.  If the first client disconnects before the acceptor has taken
  the mutex, its worker starts the shutdown thread although the device never ran; the acceptor finds
  the device stopped and joins that thread with the mutex held, which the thread needs to end: the
  server accepts no client any more.  The same happens when the device fails to start for one client
  and the next client comes before the shutdown thread has ended.\<close>

theorem acceptor_can_deadlock:
  "(\<exists>S. treach True False demo_cfg S \<and>
      {S'. (tstep True True demo_cfg)\<^sup>*\<^sup>* S S'} \<subseteq> {S'. acceptor S' = Joining_shutdown 4}) \<and>
   (\<exists>S. treach False True demo_cfg S \<and>
      {S'. (tstep True True demo_cfg)\<^sup>*\<^sup>* S S'} \<subseteq> {S'. acceptor S' = Joining_shutdown 5})"
proof -
  have "\<exists>S. trun True False demo_cfg [Connect 4 demo_request, Leave 4, Terminate 4, Admit] tstart = Some S \<and>
      acceptor S = Joining_shutdown 4 \<and> shutdown_thread_created S \<and> shutdown_thread S = Stopping"
    by (simp add: server_eval)
  moreover have "\<exists>S. trun False True demo_cfg [Connect 4 demo_request, Admit, Start (- 1), Leave 4, Terminate 4,
      Drop, Connect 5 demo_request, Admit] tstart = Some S \<and>
      acceptor S = Joining_shutdown 5 \<and> shutdown_thread_created S \<and> shutdown_thread S = Stopping"
    by (simp add: server_eval)
  moreover have "treach e f demo_cfg S \<and>
      (\<forall>S'. (tstep True True demo_cfg)\<^sup>*\<^sup>* S S' \<longrightarrow> acceptor S' = Joining_shutdown a)"
    if "trun e f demo_cfg evs tstart = Some S" "acceptor S = Joining_shutdown a \<and>
      shutdown_thread_created S \<and> shutdown_thread S = Stopping" for e f evs S a
    using trun_reach [OF that(1) treach.start] stuck_forever [of True True demo_cfg S _ a] that(2) by simp
  ultimately have "(\<exists>S. treach True False demo_cfg S \<and>
      (\<forall>S'. (tstep True True demo_cfg)\<^sup>*\<^sup>* S S' \<longrightarrow> acceptor S' = Joining_shutdown 4)) \<and>
   (\<exists>S. treach False True demo_cfg S \<and>
      (\<forall>S'. (tstep True True demo_cfg)\<^sup>*\<^sup>* S S' \<longrightarrow> acceptor S' = Joining_shutdown 5))" by blast
  then show ?thesis unfolding Collect_mono_iff by blast
qed

end
