(* ===== verification/Server_Start.thy ===== *)
theory Server_Start
  imports Tcp_Server
begin

text \<open>
  Starting and stopping the server: \<open>start_tcp_server\<close>, \<open>stop_tcp_server\<close> and
  \<open>join_tcp_server_thread\<close> of \<open>src/src/tcp_server.c\<close>.  The results of the system calls are
  parameters; what is followed is which resources are held when the call returns.
\<close>

datatype resource = Server_memory | Device | Server_socket int | Acceptor_thread

record start_env =
  se_malloc :: bool
  se_device_code :: int
  se_socket :: int
  se_reuseaddr :: int
  se_reuseport :: int
  se_inet_pton :: int
  se_bind :: int
  se_listen :: int
  se_thread :: int

text \<open>The calls on the socket in their order; on a descriptor below 0 the kernel fails each of them.\<close>

definition start_socket :: "start_env \<Rightarrow> int \<Rightarrow> bool" where
  "start_socket env server_socket \<longleftrightarrow>
     \<not> (se_reuseaddr env \<noteq> 0 \<or> server_socket < 0) \<and> \<not> (se_reuseport env \<noteq> 0) \<and> \<not> (se_inet_pton env \<le> 0) \<and>
     \<not> (se_bind env < 0) \<and> \<not> (se_listen env < 0)"

definition start_tcp_server :: "start_env \<Rightarrow> (int \<times> tcp_server option) \<times> resource set" where
  "start_tcp_server env =
     (if \<not> se_malloc env then ((- ENOMEM, None), {})
      else if se_device_code env \<noteq> 0 then ((- 1, None), {})
      else
        let server_socket = se_socket env in
        if server_socket = 0 then ((- 1, None), {Device, Server_socket 0})
        else
          let held = {Device} \<union> (if server_socket < 0 then {} else {Server_socket server_socket}) in
          if \<not> start_socket env server_socket then ((- 1, None), held)
          else if se_thread env \<noteq> 0 then ((- 1, None), held)
          else ((0, Some tstart), held \<union> {Server_memory, Acceptor_thread}))"

text \<open>
  \<open>stop_tcp_server\<close> and \<open>join_tcp_server_thread\<close>: the flag is cleared, \<open>shutdown\<close> makes \<open>accept\<close> fail;
  only when \<open>shutdown\<close> itself fails is the socket closed.  The acceptor destroys the device before it
  ends, and joining it frees the server.
\<close>

definition stop_tcp_server :: "int \<Rightarrow> tcp_server option \<Rightarrow> resource set \<Rightarrow> tcp_server option \<times> resource set" where
  "stop_tcp_server shutdown_code server held =
     (case server of None \<Rightarrow> (None, held)
      | Some S \<Rightarrow> (Some (S\<lparr>ts_is_running := False\<rparr>),
          if shutdown_code \<noteq> 0 then {r \<in> held. case r of Server_socket s \<Rightarrow> False | _ \<Rightarrow> True} else held))"

definition join_tcp_server_thread :: "tcp_server option \<Rightarrow> resource set \<Rightarrow> resource set" where
  "join_tcp_server_thread server held =
     (case server of None \<Rightarrow> held
      | Some S \<Rightarrow> held - {Device, Acceptor_thread, Server_memory})"

text \<open>Starting the server.  \<open>start_tcp_server\<close> returns 0 exactly when every call it makes
  succeeds, and then the server starts without clients.  On every failure its memory is freed, but a
  device that was created stays open, and so does the socket.\<close>

theorem start_tcp_server_outcome:
  "(fst (fst (start_tcp_server env)) = 0 \<longleftrightarrow>
      se_malloc env \<and> se_device_code env = 0 \<and> 0 < se_socket env \<and> se_reuseaddr env = 0 \<and>
      se_reuseport env = 0 \<and> 0 < se_inet_pton env \<and> 0 \<le> se_bind env \<and> 0 \<le> se_listen env \<and> se_thread env = 0) \<and>
   (fst (fst (start_tcp_server env)) = 0 \<longrightarrow> snd (fst (start_tcp_server env)) = Some tstart \<and>
      snd (start_tcp_server env) = {Device, Server_socket (se_socket env), Server_memory, Acceptor_thread}) \<and>
   (fst (fst (start_tcp_server env)) \<noteq> 0 \<longrightarrow> snd (fst (start_tcp_server env)) = None \<and>
      Server_memory \<notin> snd (start_tcp_server env) \<and>
      (Device \<in> snd (start_tcp_server env) \<longleftrightarrow> se_malloc env \<and> se_device_code env = 0) \<and>
      (\<forall>s. Server_socket s \<in> snd (start_tcp_server env) \<longleftrightarrow>
         se_malloc env \<and> se_device_code env = 0 \<and> s = se_socket env \<and> 0 \<le> s))"
  by (auto simp: start_tcp_server_def start_socket_def Let_def errno_defs)

theorem start_tcp_server_outcome_witness:
  "start_tcp_server \<lparr>se_malloc = True, se_device_code = 0, se_socket = 3, se_reuseaddr = 0, se_reuseport = 0,
     se_inet_pton = 1, se_bind = - 1, se_listen = 0, se_thread = 0\<rparr> = ((- 1, None), {Device, Server_socket 3})"
  using start_tcp_server_outcome [of "\<lparr>se_malloc = True, se_device_code = 0, se_socket = 3, se_reuseaddr = 0,
     se_reuseport = 0, se_inet_pton = 1, se_bind = - 1, se_listen = 0, se_thread = 0\<rparr>"]
  by (auto simp: start_tcp_server_def start_socket_def Let_def)

end
