(* ===== verification/Main_Program.thy ===== *)
theory Main_Program
  imports Server_Start
begin

text \<open>
  The server program, \<open>src/src/main.c\<close>: its main thread, the signal handler and the acceptor thread as a
  step relation.
\<close>

subsection \<open>Steps\<close>

datatype main_pc = Configure | Install_handlers | Start_server | Enter_join | Joining | Destroy_config | Exited int

text \<open>
  \<open>global_server\<close> tells whether the global pointer is set, \<open>joining_server\<close> whether the pointer given to
  \<open>join_tcp_server_thread\<close> was; \<open>flag\<close> is \<open>is_running\<close> of the server, \<open>acceptor_alive\<close> its thread.
\<close>

record program =
  main_at :: main_pc
  global_server :: bool
  joining_server :: bool
  flag :: bool
  acceptor_alive :: bool
  config_held :: bool

definition initial_program :: program where
  "initial_program = \<lparr>main_at = Configure, global_server = False, joining_server = False, flag = False,
     acceptor_alive = False, config_held = False\<rparr>"

text \<open>The main thread: the codes are those of \<open>create_server_config\<close> and \<open>start_tcp_server\<close>.\<close>

definition main_next :: "int \<Rightarrow> int \<Rightarrow> program \<Rightarrow> program option" where
  "main_next config_code start_result s =
     (case main_at s of
        Configure \<Rightarrow> Some (if config_code \<noteq> 0 then s\<lparr>main_at := Exited 1\<rparr>
          else s\<lparr>main_at := Install_handlers, config_held := True\<rparr>)
      | Install_handlers \<Rightarrow> Some (s\<lparr>main_at := Start_server\<rparr>)
      | Start_server \<Rightarrow> Some (if start_result \<noteq> 0 then s\<lparr>main_at := Exited 1, config_held := False\<rparr>
          else s\<lparr>main_at := Enter_join, global_server := True, flag := True, acceptor_alive := True\<rparr>)
      | Enter_join \<Rightarrow> Some (s\<lparr>main_at := Joining, joining_server := global_server s\<rparr>)
      | Joining \<Rightarrow> (if joining_server s \<and> acceptor_alive s then None else Some (s\<lparr>main_at := Destroy_config\<rparr>))
      | Destroy_config \<Rightarrow> Some (s\<lparr>main_at := Exited 0, config_held := False\<rparr>)
      | Exited code \<Rightarrow> None)"

text \<open>The handler: \<open>stop_tcp_server\<close>, which does nothing for \<open>NULL\<close>, then the pointer is cleared.\<close>

definition sdrserver_stop_async :: "program \<Rightarrow> program" where
  "sdrserver_stop_async s = s\<lparr>flag := (if global_server s then False else flag s), global_server := False\<rparr>"

text \<open>
  \<open>allowed\<close> restricts the moments at which a signal comes; before the handlers are installed it ends the
  program, which is not a step here.
\<close>

inductive pstep :: "(main_pc \<Rightarrow> bool) \<Rightarrow> int \<Rightarrow> int \<Rightarrow> program \<Rightarrow> program \<Rightarrow> bool"
  for allowed config_code start_result where
  p_main: "main_next config_code start_result s = Some s' \<Longrightarrow> pstep allowed config_code start_result s s'"
| p_acceptor: "acceptor_alive s \<Longrightarrow> \<not> flag s \<Longrightarrow> pstep allowed config_code start_result s (s\<lparr>acceptor_alive := False\<rparr>)"
| p_signal: "main_at s \<notin> {Configure, Install_handlers} \<Longrightarrow> (\<And>code. main_at s \<noteq> Exited code) \<Longrightarrow> allowed (main_at s) \<Longrightarrow>
    pstep allowed config_code start_result s (sdrserver_stop_async s)"

inductive_cases pstepE: "pstep allowed config_code start_result s s'"

subsection \<open>The life of the configuration\<close>

definition program_inv :: "program \<Rightarrow> bool" where
  "program_inv s \<longleftrightarrow>
     (case main_at s of
        Configure \<Rightarrow> \<not> acceptor_alive s \<and> \<not> global_server s \<and> \<not> config_held s
      | Install_handlers \<Rightarrow> \<not> acceptor_alive s \<and> \<not> global_server s \<and> config_held s
      | Start_server \<Rightarrow> \<not> acceptor_alive s \<and> \<not> global_server s \<and> config_held s
      | Enter_join \<Rightarrow> global_server s \<and> config_held s
      | Joining \<Rightarrow> joining_server s \<and> config_held s
      | Destroy_config \<Rightarrow> \<not> acceptor_alive s \<and> config_held s
      | Exited code \<Rightarrow> \<not> acceptor_alive s \<and> \<not> config_held s)"

lemma program_inv_main:
  assumes "main_next c d s = Some s'" "program_inv s"
  shows "program_inv s'"
  using assms by (cases "main_at s") (auto simp: program_inv_def main_next_def split: if_splits)

lemma program_inv_step:
  assumes "pstep (\<lambda>pc. pc \<noteq> Enter_join) c d s s'" "program_inv s"
  shows "program_inv s'"
  using assms(1)
proof (rule pstepE)
  assume "main_next c d s = Some s'"
  then show ?thesis using program_inv_main assms(2) by blast
next
  assume "s' = s\<lparr>acceptor_alive := False\<rparr>"
  then show ?thesis using assms(2) by (cases "main_at s") (auto simp: program_inv_def)
next
  assume "s' = sdrserver_stop_async s" "main_at s \<noteq> Enter_join"
  then show ?thesis using assms(2) by (cases "main_at s") (auto simp: program_inv_def sdrserver_stop_async_def)
qed

lemma program_inv_reachable:
  "(pstep (\<lambda>pc. pc \<noteq> Enter_join) c d)\<^sup>*\<^sup>* initial_program s \<Longrightarrow> program_inv s"
proof (induction rule: rtranclp_induct)
  case base
  then show ?case by (simp add: initial_program_def program_inv_def)
next
  case (step s s')
  with program_inv_step show ?case by blast
qed

text \<open>C29.  The configuration outlives the server.  As long as no signal comes between the return of
  \<open>start_tcp_server\<close> and the call of \<open>join_tcp_server_thread\<close>, the acceptor thread only runs while the
  configuration exists, and when the program has ended the thread has ended and the configuration is
  released.\<close>

theorem config_outlives_server:
  assumes "(pstep (\<lambda>pc. pc \<noteq> Enter_join) config_code start_result)\<^sup>*\<^sup>* initial_program s"
  shows "(acceptor_alive s \<longrightarrow> config_held s) \<and> (main_at s = Exited code \<longrightarrow> \<not> acceptor_alive s \<and> \<not> config_held s)"
  using program_inv_reachable [OF assms] by (auto simp: program_inv_def split: main_pc.splits)

definition started :: program where
  "started = \<lparr>main_at = Enter_join, global_server = True, joining_server = False, flag = True, acceptor_alive = True,
     config_held = True\<rparr>"

lemma run_to_start: "(pstep allowed 0 0)\<^sup>*\<^sup>* initial_program started"
proof -
  let ?a = "initial_program\<lparr>main_at := Install_handlers, config_held := True\<rparr>"
  let ?b = "?a\<lparr>main_at := Start_server\<rparr>"
  have "pstep allowed 0 0 initial_program ?a" "pstep allowed 0 0 ?a ?b" "pstep allowed 0 0 ?b started"
    by (rule p_main, simp add: main_next_def initial_program_def started_def)+
  then show ?thesis by (rule rtranclp.rtrancl_into_rtrancl [OF rtranclp.rtrancl_into_rtrancl [OF r_into_rtranclp]])
qed

theorem config_outlives_server_witness:
  "acceptor_alive started \<and> config_held started"
  using config_outlives_server [OF run_to_start, of 0] by (simp add: started_def)

text \<open>A signal in that moment frees the configuration of a running server.  The handler clears the
  pointer that \<open>main\<close> reads next, \<open>join_tcp_server_thread\<close> returns at once for \<open>NULL\<close>, and the configuration
  is destroyed while the acceptor thread runs.\<close>

theorem early_signal_frees_config:
  "\<exists>s. (pstep (\<lambda>_. True) 0 0)\<^sup>*\<^sup>* initial_program s \<and> main_at s = Exited 0 \<and> acceptor_alive s \<and> \<not> config_held s"
proof -
  let ?a = "sdrserver_stop_async started"
  let ?b = "?a\<lparr>main_at := Joining, joining_server := False\<rparr>"
  let ?c = "?b\<lparr>main_at := Destroy_config\<rparr>"
  let ?d = "?c\<lparr>main_at := Exited 0, config_held := False\<rparr>"
  have "pstep (\<lambda>_. True) 0 0 started ?a" by (rule p_signal) (simp_all add: started_def)
  moreover have "pstep (\<lambda>_. True) 0 0 ?a ?b" "pstep (\<lambda>_. True) 0 0 ?b ?c" "pstep (\<lambda>_. True) 0 0 ?c ?d"
    by (rule p_main, simp add: main_next_def started_def sdrserver_stop_async_def)+
  ultimately have "(pstep (\<lambda>_. True) 0 0)\<^sup>*\<^sup>* started ?d"
    by (meson converse_rtranclp_into_rtranclp r_into_rtranclp)
  with run_to_start have "(pstep (\<lambda>_. True) 0 0)\<^sup>*\<^sup>* initial_program ?d" by (rule rtranclp_trans)
  then show ?thesis by (auto intro!: exI [of _ ?d] simp: started_def sdrserver_stop_async_def)
qed

text \<open>A signal before the server has started is lost.\<close>

lemma signal_before_start: "\<not> global_server s \<Longrightarrow> sdrserver_stop_async s = s"
  by (simp add: sdrserver_stop_async_def)

end
