(* ===== verification/Xlating.thy ===== *)
theory Xlating
  imports Prelude
begin

text \<open>
  The frequency xlating FIR filter of \<open>src/src/xlating.c\<close>: creation, the native kernels in complex
  float and in 16-bit fixed point, the AVX and NEON kernels, and the conversions from the three
  sample formats.  Floating-point operations are a parameter, a record of the operations the code
  uses; the fixed-point kernel is written with the integer widths of the code.  Arrays are lists; an
  access outside of one is \<open>None\<close>.
\<close>

subsection \<open>Floating point\<close>

text \<open>
  \<open>f_angle c s\<close> is the rounded \<open>2 * M_PI * c / s\<close>, \<open>f_expi t\<close> is \<open>cexpf (t * I)\<close> and \<open>f_to_i16\<close> the
  conversion \<open>(int16_t) (x * k)\<close> with \<open>k\<close> as first argument.
\<close>

record 'f fops =
  f_zero :: 'f
  f_one :: 'f
  f_add :: "'f \<Rightarrow> 'f \<Rightarrow> 'f"
  f_sub :: "'f \<Rightarrow> 'f \<Rightarrow> 'f"
  f_neg :: "'f \<Rightarrow> 'f"
  f_mul :: "'f \<Rightarrow> 'f \<Rightarrow> 'f"
  f_div :: "'f \<Rightarrow> 'f \<Rightarrow> 'f"
  f_hypot :: "'f \<Rightarrow> 'f \<Rightarrow> 'f"
  f_of_int :: "int \<Rightarrow> 'f"
  f_half :: "int \<Rightarrow> 'f"
  f_angle :: "int \<Rightarrow> int \<Rightarrow> 'f"
  f_expi :: "'f \<Rightarrow> 'f \<times> 'f"
  f_to_i16 :: "int \<Rightarrow> 'f \<Rightarrow> int"

type_synonym 'f cplx = "'f \<times> 'f"

definition c_zero :: "'f fops \<Rightarrow> 'f cplx" where
  "c_zero F = (f_zero F, f_zero F)"

definition c_add :: "'f fops \<Rightarrow> 'f cplx \<Rightarrow> 'f cplx \<Rightarrow> 'f cplx" where
  "c_add F x y = (f_add F (fst x) (fst y), f_add F (snd x) (snd y))"

definition c_mul :: "'f fops \<Rightarrow> 'f cplx \<Rightarrow> 'f cplx \<Rightarrow> 'f cplx" where
  "c_mul F x y = (f_sub F (f_mul F (fst x) (fst y)) (f_mul F (snd x) (snd y)),
                  f_add F (f_mul F (fst x) (snd y)) (f_mul F (snd x) (fst y)))"

definition c_scale :: "'f fops \<Rightarrow> 'f \<Rightarrow> 'f cplx \<Rightarrow> 'f cplx" where
  "c_scale F t x = (f_mul F t (fst x), f_mul F t (snd x))"

text \<open>\<open>phase /= hypotf (crealf (phase), cimagf (phase))\<close>\<close>

definition c_normalize :: "'f fops \<Rightarrow> 'f cplx \<Rightarrow> 'f cplx" where
  "c_normalize F x = (let h = f_hypot F (fst x) (snd x) in (f_div F (fst x) h, f_div F (snd x) h))"

subsection \<open>State\<close>

record 'f xlating =
  decimation :: nat
  taps_cf32 :: "'f cplx list list"
  alignment_cf32 :: nat
  taps_cs16 :: "int list list"
  alignment_cs16 :: nat
  taps_len :: nat
  working_buffer_cf32 :: "'f cplx list"
  working_buffer_cs16 :: "int list"
  history_offset :: nat
  working_buffer_len_samples :: nat
  output_len_sampls :: nat
  phase :: "'f cplx"
  phase_incr :: "'f cplx"
  phase_real :: int
  phase_imag :: int
  phase_incr_real :: int
  phase_incr_imag :: int

subsection \<open>Arrays\<close>

definition nth_opt :: "'a list \<Rightarrow> nat \<Rightarrow> 'a option" where
  "nth_opt xs i = (if i < length xs then Some (xs ! i) else None)"

text \<open>Storing \<open>vs\<close> from index \<open>i\<close> on.\<close>

definition store_at :: "nat \<Rightarrow> 'a list \<Rightarrow> 'a list \<Rightarrow> 'a list option" where
  "store_at i vs xs =
     (if i + length vs \<le> length xs then Some (take i xs @ vs @ drop (i + length vs) xs) else None)"

text \<open>\<open>memmove (buf, buf + from, n)\<close>\<close>

definition move_down :: "nat \<Rightarrow> nat \<Rightarrow> 'a list \<Rightarrow> 'a list option" where
  "move_down from n xs =
     (if from + n \<le> length xs then Some (take n (drop from xs) @ drop n xs) else None)"

text \<open>The difference of two \<open>size_t\<close> values.\<close>

definition size_sub :: "nat \<Rightarrow> nat \<Rightarrow> nat" where
  "size_sub a b = (if b \<le> a then a - b else a + 2 ^ 64 - b)"

subsection \<open>The native kernel in complex float\<close>

text \<open>
  The inner loop: \<open>n\<close> products of \<open>buf\<close> from \<open>base\<close> with \<open>taps\<close>, from index \<open>i\<close>.
\<close>

fun dot_cf32 :: "'f fops \<Rightarrow> 'f cplx list \<Rightarrow> nat \<Rightarrow> 'f cplx list \<Rightarrow> nat \<Rightarrow> nat \<Rightarrow> 'f cplx \<Rightarrow> 'f cplx option" where
  "dot_cf32 F buf base taps i 0 temp = Some temp"
| "dot_cf32 F buf base taps i (Suc n) temp = do {
     x \<leftarrow> nth_opt buf (base + i);
     t \<leftarrow> nth_opt taps i;
     dot_cf32 F buf base taps (Suc i) n (c_add F temp (c_mul F x t)) }"

text \<open>
  The working buffer starts at a multiple of the alignment, so the address of sample \<open>k\<close> modulo the
  alignment is that of \<open>8 * k\<close>; \<open>align_index_cf32\<close> is \<open>buf - aligned_buffer\<close>, in samples.
\<close>

definition align_index_cf32 :: "'f xlating \<Rightarrow> nat \<Rightarrow> nat" where
  "align_index_cf32 f current_index = ((8 * current_index) mod alignment_cf32 f) div 8"

definition dot_at_cf32 :: "'f fops \<Rightarrow> 'f xlating \<Rightarrow> nat \<Rightarrow> 'f cplx option" where
  "dot_at_cf32 F f current_index =
     (let align_index = align_index_cf32 f current_index in
      Option.bind (nth_opt (taps_cf32 f) align_index) (\<lambda>taps.
        dot_cf32 F (working_buffer_cf32 f) (current_index - align_index) taps 0
          (taps_len f + align_index) (c_zero F)))"

text \<open>
  The outer loop, for any inner product \<open>dot\<close>: \<open>outs\<close> are the samples stored in the output so far.
  The loop does not end when the decimation is 0.
\<close>

partial_function (option) loop_cf32 :: "'f fops \<Rightarrow> ('f xlating \<Rightarrow> nat \<Rightarrow> 'f cplx option) \<Rightarrow> nat \<Rightarrow> nat
    \<Rightarrow> 'f cplx list \<Rightarrow> 'f xlating \<Rightarrow> ('f cplx list \<times> nat \<times> 'f xlating) option" where
  "loop_cf32 F dot max_index current_index outs f =
     (if \<not> current_index < max_index then Some (outs, current_index, f)
      else Option.bind (dot f current_index) (\<lambda>temp.
        if \<not> length outs < output_len_sampls f then None
        else loop_cf32 F dot max_index (current_index + decimation f) (outs @ [c_mul F temp (phase f)])
          (f\<lparr>phase := c_mul F (phase f) (phase_incr f)\<rparr>)))"

text \<open>History for the next call.\<close>

definition keep_history_cf32 :: "nat \<Rightarrow> nat \<Rightarrow> 'f xlating \<Rightarrow> 'f xlating option" where
  "keep_history_cf32 working_len current_index f = do {
     let h = size_sub working_len current_index;
     wb \<leftarrow> (if 0 < current_index then move_down current_index h (working_buffer_cf32 f)
            else Some (working_buffer_cf32 f));
     Some (f\<lparr>history_offset := h, working_buffer_cf32 := wb\<rparr>) }"

definition process_native_cf32 :: "'f fops \<Rightarrow> nat \<Rightarrow> 'f xlating \<Rightarrow> ('f cplx list \<times> 'f xlating) option" where
  "process_native_cf32 F input_len_samples f = do {
     let working_len = history_offset f + input_len_samples;
     (outs, current_index, f1) \<leftarrow>
       (if working_len > taps_len f - 1 then do {
          (outs, k, f0) \<leftarrow> loop_cf32 F (dot_at_cf32 F) (working_len - (taps_len f - 1)) 0 [] f;
          Some (outs, k, f0\<lparr>phase := c_normalize F (phase f0)\<rparr>) }
        else Some ([], 0, f));
     f2 \<leftarrow> keep_history_cf32 working_len current_index f1;
     Some (outs, f2) }"

subsection \<open>The AVX kernel\<close>

text \<open>
  Vectors of eight floats as lists, and the instructions the kernel uses.
\<close>

definition mm256_mul :: "'f fops \<Rightarrow> 'f list \<Rightarrow> 'f list \<Rightarrow> 'f list" where
  "mm256_mul F x y = map2 (f_mul F) x y"

definition mm256_add :: "'f fops \<Rightarrow> 'f list \<Rightarrow> 'f list \<Rightarrow> 'f list" where
  "mm256_add F x y = map2 (f_add F) x y"

definition mm256_moveldup :: "'f list \<Rightarrow> 'f list" where
  "mm256_moveldup y = map (\<lambda>i. y ! (2 * (i div 2))) [0..<8]"

definition mm256_movehdup :: "'f list \<Rightarrow> 'f list" where
  "mm256_movehdup y = map (\<lambda>i. y ! (2 * (i div 2) + 1)) [0..<8]"

text \<open>\<open>_mm256_shuffle_ps (x, x, 0xB1)\<close> swaps the two floats of every pair.\<close>

definition mm256_swap :: "'f list \<Rightarrow> 'f list" where
  "mm256_swap x = map (\<lambda>i. x ! (if even i then i + 1 else i - 1)) [0..<8]"

definition mm256_addsub :: "'f fops \<Rightarrow> 'f list \<Rightarrow> 'f list \<Rightarrow> 'f list" where
  "mm256_addsub F x y = map (\<lambda>i. if even i then f_sub F (x ! i) (y ! i) else f_add F (x ! i) (y ! i)) [0..<8]"

definition flat :: "'f cplx list \<Rightarrow> 'f list" where
  "flat xs = concat (map (\<lambda>x. [fst x, snd x]) xs)"

text \<open>The block loop: \<open>res\<close> is the accumulator, the pointers are what is left of the two arrays.\<close>

fun avx_blocks :: "'f fops \<Rightarrow> nat \<Rightarrow> 'f list \<Rightarrow> 'f list \<Rightarrow> 'f list \<Rightarrow> 'f list \<times> 'f list \<times> 'f list" where
  "avx_blocks F 0 a b res = (res, a, b)"
| "avx_blocks F (Suc blk) a b res =
     (let x = take 8 a; y = take 8 b;
          yl = mm256_moveldup y;
          yh = mm256_movehdup y;
          tmp1 = mm256_mul F x yl;
          x' = mm256_swap x;
          tmp2 = mm256_mul F x' yh;
          z = mm256_addsub F tmp1 tmp2
      in avx_blocks F blk (drop 8 a) (drop 8 b) (mm256_add F res z))"

text \<open>The tail loop, shared by the AVX and the NEON kernel.\<close>

fun simd_tail :: "'f fops \<Rightarrow> nat \<Rightarrow> 'f list \<Rightarrow> 'f list \<Rightarrow> 'f \<Rightarrow> 'f \<Rightarrow> 'f cplx" where
  "simd_tail F 0 a b real_sum imag_sum = (real_sum, imag_sum)"
| "simd_tail F (Suc n) a b real_sum imag_sum =
     (let a0 = a ! 0; b0 = a ! 1; c0 = b ! 0; d0 = b ! 1;
          real1 = f_add F real_sum (f_mul F a0 c0);
          imag1 = f_add F imag_sum (f_mul F a0 d0);
          real2 = f_sub F real1 (f_mul F b0 d0);
          imag2 = f_add F imag1 (f_mul F b0 c0)
      in simd_tail F n (drop 2 a) (drop 2 b) real2 imag2)"

definition avx_dot :: "'f fops \<Rightarrow> 'f cplx list \<Rightarrow> 'f cplx list \<Rightarrow> nat \<Rightarrow> 'f cplx" where
  "avx_dot F xs ts numSamples =
     (case avx_blocks F (numSamples div 4) (flat xs) (flat ts) (replicate 8 (f_zero F)) of
        (store, a, b) \<Rightarrow>
          let sum_temp = simd_tail F (numSamples mod 4) a b (f_zero F) (f_zero F)
          in c_add F (c_add F (c_add F (c_add F sum_temp (store ! 0, store ! 1)) (store ! 2, store ! 3))
               (store ! 4, store ! 5)) (store ! 6, store ! 7))"

text \<open>Both arrays are read from the aligned address; a read past the end is undefined.\<close>

definition simd_dot_at :: "('f cplx list \<Rightarrow> 'f cplx list \<Rightarrow> nat \<Rightarrow> 'f cplx) \<Rightarrow> 'f xlating \<Rightarrow> nat \<Rightarrow> 'f cplx option" where
  "simd_dot_at dot f current_index =
     (let align_index = align_index_cf32 f current_index;
          numSamples = taps_len f + align_index;
          base = current_index - align_index
      in Option.bind (nth_opt (taps_cf32 f) align_index) (\<lambda>taps.
        if base + numSamples \<le> length (working_buffer_cf32 f) \<and> numSamples \<le> length taps
        then Some (dot (drop base (working_buffer_cf32 f)) taps numSamples) else None))"

definition process_avx_cf32 :: "'f fops \<Rightarrow> nat \<Rightarrow> 'f xlating \<Rightarrow> ('f cplx list \<times> 'f xlating) option" where
  "process_avx_cf32 F input_complex_len f = do {
     let working_len = history_offset f + input_complex_len;
     (outs, current_index, f1) \<leftarrow>
       (if working_len > taps_len f - 1
        then loop_cf32 F (simd_dot_at (avx_dot F)) (working_len - (taps_len f - 1)) 0 [] f
        else Some ([], 0, f));
     f2 \<leftarrow> keep_history_cf32 working_len current_index f1;
     Some (outs, f2) }"

subsection \<open>The NEON kernel\<close>

text \<open>\<open>vld2q_f32\<close> de-interleaves four complex numbers; lanes are lists of four floats.\<close>

definition vld2q :: "'f list \<Rightarrow> 'f list \<times> 'f list" where
  "vld2q a = (map (\<lambda>i. a ! (2 * i)) [0..<4], map (\<lambda>i. a ! (2 * i + 1)) [0..<4])"

definition vmlaq :: "'f fops \<Rightarrow> 'f list \<Rightarrow> 'f list \<Rightarrow> 'f list \<Rightarrow> 'f list" where
  "vmlaq F acc x y = map (\<lambda>i. f_add F (acc ! i) (f_mul F (x ! i) (y ! i))) [0..<4]"

definition vmlsq :: "'f fops \<Rightarrow> 'f list \<Rightarrow> 'f list \<Rightarrow> 'f list \<Rightarrow> 'f list" where
  "vmlsq F acc x y = map (\<lambda>i. f_sub F (acc ! i) (f_mul F (x ! i) (y ! i))) [0..<4]"

definition neon_step :: "'f fops \<Rightarrow> 'f list \<Rightarrow> 'f list \<Rightarrow> 'f list \<times> 'f list \<Rightarrow> 'f list \<times> 'f list" where
  "neon_step F a b acc =
     (case (vld2q a, vld2q b, acc) of ((ar, ai), (br, bi), (accR, accI)) \<Rightarrow>
        (vmlsq F (vmlaq F accR ar br) ai bi, vmlaq F (vmlaq F accI ai br) ar bi))"

fun neon_blocks :: "'f fops \<Rightarrow> nat \<Rightarrow> 'f list \<Rightarrow> 'f list \<Rightarrow> 'f list \<times> 'f list
    \<Rightarrow> ('f list \<times> 'f list) \<times> 'f list \<times> 'f list" where
  "neon_blocks F 0 a b acc = (acc, a, b)"
| "neon_blocks F (Suc blk) a b acc =
     (let acc1 = neon_step F a b acc;
          acc2 = neon_step F (drop 8 a) (drop 8 b) acc1
      in neon_blocks F blk (drop 16 a) (drop 16 b) acc2)"

text \<open>\<open>vpadd\<close> of the two halves and the sum of its two lanes.\<close>

definition vpadd_sum :: "'f fops \<Rightarrow> 'f list \<Rightarrow> 'f" where
  "vpadd_sum F acc = f_add F (f_add F (acc ! 0) (acc ! 1)) (f_add F (acc ! 2) (acc ! 3))"

definition neon_dot :: "'f fops \<Rightarrow> 'f cplx list \<Rightarrow> 'f cplx list \<Rightarrow> nat \<Rightarrow> 'f cplx" where
  "neon_dot F xs ts numSamples =
     (case neon_blocks F (numSamples div 8) (flat xs) (flat ts) (replicate 4 (f_zero F), replicate 4 (f_zero F)) of
        ((accR, accI), a, b) \<Rightarrow>
          simd_tail F (numSamples mod 8) a b
            (f_add F (f_zero F) (vpadd_sum F accR)) (f_add F (f_zero F) (vpadd_sum F accI)))"

definition process_neon_cf32 :: "'f fops \<Rightarrow> nat \<Rightarrow> 'f xlating \<Rightarrow> ('f cplx list \<times> 'f xlating) option" where
  "process_neon_cf32 F input_len_samples f = do {
     let working_len = history_offset f + input_len_samples;
     (outs, current_index, f1) \<leftarrow>
       (if working_len > taps_len f - 1 then do {
          (outs, k, f0) \<leftarrow> loop_cf32 F (simd_dot_at (neon_dot F)) (working_len - (taps_len f - 1)) 0 [] f;
          Some (outs, k, f0\<lparr>phase := c_normalize F (phase f0)\<rparr>) }
        else Some ([], 0, f));
     f2 \<leftarrow> keep_history_cf32 working_len current_index f1;
     Some (outs, f2) }"

subsection \<open>The native kernel in 16-bit fixed point\<close>

text \<open>
  \<open>saturate_to_int16\<close> takes an \<open>int32_t\<close>: its argument, an \<open>int64_t\<close> shifted right, is converted first.
\<close>

definition saturate_to_int16 :: "int \<Rightarrow> int" where
  "saturate_to_int16 value =
     (let v = to_i32 value;
          result = (if v > 32767 then 32767 else v);
          result = (if result < - 32768 then - 32768 else result)
      in result)"

text \<open>
  One step of the inner loop: the products of \<open>int16_t\<close> values and their sum or difference are
  computed in \<open>int\<close>, the accumulators are \<open>int64_t\<close>.
\<close>

definition mac_cs16 :: "int \<times> int \<Rightarrow> int \<Rightarrow> int \<Rightarrow> int \<Rightarrow> int \<Rightarrow> int \<times> int" where
  "mac_cs16 temp ar ai br bi =
     (to_i64 (fst temp + to_i32 (ar * br - ai * bi)), to_i64 (snd temp + to_i32 (ar * bi + ai * br)))"

text \<open>The inner loop: \<open>n\<close> pairs are left, \<open>i\<close> is the index of the next one.\<close>

fun dot_cs16 :: "int list \<Rightarrow> nat \<Rightarrow> int list \<Rightarrow> nat \<Rightarrow> nat \<Rightarrow> int \<times> int \<Rightarrow> (int \<times> int) option" where
  "dot_cs16 buf base taps i 0 temp = Some temp"
| "dot_cs16 buf base taps i (Suc n) temp = do {
     ar \<leftarrow> nth_opt buf (base + i);
     ai \<leftarrow> nth_opt buf (base + i + 1);
     br \<leftarrow> nth_opt taps i;
     bi \<leftarrow> nth_opt taps (i + 1);
     dot_cs16 buf base taps (i + 2) n (mac_cs16 temp ar ai br bi) }"

text \<open>The buffer is aligned, so the address of sample \<open>k\<close> modulo the alignment is that of \<open>4 * k\<close>.\<close>

definition align_index_cs16 :: "'f xlating \<Rightarrow> nat \<Rightarrow> nat" where
  "align_index_cs16 f current_sample = ((4 * current_sample) mod alignment_cs16 f) div 2"

definition dot_at_cs16 :: "'f xlating \<Rightarrow> nat \<Rightarrow> (int \<times> int) option" where
  "dot_at_cs16 f current_sample =
     (let align_index = align_index_cs16 f current_sample in
      Option.bind (nth_opt (taps_cs16 f) align_index) (\<lambda>taps.
        dot_cs16 (working_buffer_cs16 f) (2 * current_sample - align_index) taps 0
          (taps_len f + align_index) (0, 0)))"

text \<open>\<open>(a >> 15)\<close> of a product in \<open>int64_t\<close>, saturated; the products themselves are \<open>int\<close> expressions.\<close>

definition rotate_cs16 :: "int \<times> int \<Rightarrow> int \<times> int \<Rightarrow> int \<times> int" where
  "rotate_cs16 x y =
     (saturate_to_int16 (drop_bit 15 (to_i32 (fst x * fst y - snd x * snd y))),
      saturate_to_int16 (drop_bit 15 (to_i32 (fst x * snd y + snd x * fst y))))"

definition narrow_cs16 :: "int \<times> int \<Rightarrow> int \<times> int" where
  "narrow_cs16 temp = (saturate_to_int16 (drop_bit 15 (fst temp)), saturate_to_int16 (drop_bit 15 (snd temp)))"

partial_function (option) loop_cs16 :: "nat \<Rightarrow> nat \<Rightarrow> int list \<Rightarrow> 'f xlating
    \<Rightarrow> (int list \<times> nat \<times> 'f xlating) option" where
  "loop_cs16 max_sample_index current_sample outs f =
     (if \<not> current_sample < max_sample_index then Some (outs, current_sample, f)
      else Option.bind (dot_at_cs16 f current_sample) (\<lambda>temp.
        let acc = narrow_cs16 temp;
            ph = (phase_real f, phase_imag f);
            out = rotate_cs16 acc ph;
            ph' = rotate_cs16 ph (phase_incr_real f, phase_incr_imag f)
        in if \<not> length outs + 1 < 2 * output_len_sampls f then None
           else loop_cs16 max_sample_index (current_sample + decimation f) (outs @ [fst out, snd out])
             (f\<lparr>phase_real := fst ph', phase_imag := snd ph'\<rparr>)))"

definition process_native_cs16 :: "nat \<Rightarrow> 'f xlating \<Rightarrow> ((int list \<times> nat) \<times> 'f xlating) option" where
  "process_native_cs16 input_len_samples f = do {
     let working_len_samples = history_offset f + input_len_samples;
     (outs, current_sample, f1) \<leftarrow>
       (if working_len_samples > taps_len f - 1
        then loop_cs16 (working_len_samples - (taps_len f - 1)) 0 [] f
        else Some ([], 0, f));
     let h = size_sub working_len_samples current_sample;
     wb \<leftarrow> (if 0 < current_sample then move_down (2 * current_sample) (2 * h) (working_buffer_cs16 f1)
            else Some (working_buffer_cs16 f1));
     Some ((outs, length outs div 2), f1\<lparr>history_offset := h, working_buffer_cs16 := wb\<rparr>) }"

subsection \<open>Conversions of the input\<close>

text \<open>The loops that fill the working buffer behind the history, and the kernel after them.\<close>

definition fill_cf32 :: "'f cplx list \<Rightarrow> 'f xlating \<Rightarrow> 'f xlating option" where
  "fill_cf32 xs f =
     map_option (\<lambda>wb. f\<lparr>working_buffer_cf32 := wb\<rparr>) (store_at (history_offset f) xs (working_buffer_cf32 f))"

definition fill_cs16 :: "int list \<Rightarrow> 'f xlating \<Rightarrow> 'f xlating option" where
  "fill_cs16 xs f =
     map_option (\<lambda>wb. f\<lparr>working_buffer_cs16 := wb\<rparr>) (store_at (2 * history_offset f) xs (working_buffer_cs16 f))"

definition sample_cu8_cf32 :: "'f fops \<Rightarrow> int \<Rightarrow> 'f" where
  "sample_cu8_cf32 F x = f_div F (f_sub F (f_of_int F x) (f_half F 255)) (f_of_int F 128)"

definition sample_cs8_cf32 :: "'f fops \<Rightarrow> int \<Rightarrow> 'f" where
  "sample_cs8_cf32 F x = f_div F (f_of_int F x) (f_of_int F 128)"

definition sample_cs16_cf32 :: "'f fops \<Rightarrow> int \<Rightarrow> 'f" where
  "sample_cs16_cf32 F x = f_div F (f_of_int F x) (f_of_int F 32768)"

definition samples_cf32 :: "(int \<Rightarrow> 'f) \<Rightarrow> int list \<Rightarrow> 'f cplx list" where
  "samples_cf32 conv input = map (\<lambda>i. (conv (input ! (2 * i)), conv (input ! (2 * i + 1)))) [0..<length input div 2]"

definition process_native_cu8_cf32 :: "'f fops \<Rightarrow> int list \<Rightarrow> 'f xlating \<Rightarrow> ('f cplx list \<times> 'f xlating) option" where
  "process_native_cu8_cf32 F input f = do {
     f1 \<leftarrow> fill_cf32 (samples_cf32 (sample_cu8_cf32 F) input) f;
     process_native_cf32 F (length input div 2) f1 }"

definition process_native_cs8_cf32 :: "'f fops \<Rightarrow> int list \<Rightarrow> 'f xlating \<Rightarrow> ('f cplx list \<times> 'f xlating) option" where
  "process_native_cs8_cf32 F input f = do {
     f1 \<leftarrow> fill_cf32 (samples_cf32 (sample_cs8_cf32 F) input) f;
     process_native_cf32 F (length input div 2) f1 }"

definition process_native_cs16_cf32 :: "'f fops \<Rightarrow> int list \<Rightarrow> 'f xlating \<Rightarrow> ('f cplx list \<times> 'f xlating) option" where
  "process_native_cs16_cf32 F input f = do {
     f1 \<leftarrow> fill_cf32 (samples_cf32 (sample_cs16_cf32 F) input) f;
     process_native_cf32 F (length input div 2) f1 }"

text \<open>The optimized wrappers, on a machine with AVX, with NEON or with neither.\<close>

datatype simd = Simd_none | Simd_avx | Simd_neon

fun process_optimized_cf32 :: "simd \<Rightarrow> 'f fops \<Rightarrow> nat \<Rightarrow> 'f xlating \<Rightarrow> ('f cplx list \<times> 'f xlating) option" where
  "process_optimized_cf32 Simd_none F n f = process_native_cf32 F n f"
| "process_optimized_cf32 Simd_avx F n f = process_avx_cf32 F n f"
| "process_optimized_cf32 Simd_neon F n f = process_neon_cf32 F n f"

definition process_optimized_cu8_cf32 :: "simd \<Rightarrow> 'f fops \<Rightarrow> int list \<Rightarrow> 'f xlating \<Rightarrow> ('f cplx list \<times> 'f xlating) option" where
  "process_optimized_cu8_cf32 V F input f = do {
     f1 \<leftarrow> fill_cf32 (samples_cf32 (sample_cu8_cf32 F) input) f;
     process_optimized_cf32 V F (length input div 2) f1 }"

definition process_optimized_cs8_cf32 :: "simd \<Rightarrow> 'f fops \<Rightarrow> int list \<Rightarrow> 'f xlating \<Rightarrow> ('f cplx list \<times> 'f xlating) option" where
  "process_optimized_cs8_cf32 V F input f = do {
     f1 \<leftarrow> fill_cf32 (samples_cf32 (sample_cs8_cf32 F) input) f;
     process_optimized_cf32 V F (length input div 2) f1 }"

definition process_optimized_cs16_cf32 :: "simd \<Rightarrow> 'f fops \<Rightarrow> int list \<Rightarrow> 'f xlating \<Rightarrow> ('f cplx list \<times> 'f xlating) option" where
  "process_optimized_cs16_cf32 V F input f = do {
     f1 \<leftarrow> fill_cf32 (samples_cf32 (sample_cs16_cf32 F) input) f;
     process_optimized_cf32 V F (length input div 2) f1 }"

definition process_native_cu8_cs16 :: "int list \<Rightarrow> 'f xlating \<Rightarrow> ((int list \<times> nat) \<times> 'f xlating) option" where
  "process_native_cu8_cs16 input f = do {
     f1 \<leftarrow> fill_cs16 (map (\<lambda>x. to_i16 (push_bit 8 (to_i16 x - 128))) input) f;
     process_native_cs16 (length input div 2) f1 }"

definition process_native_cs8_cs16 :: "int list \<Rightarrow> 'f xlating \<Rightarrow> ((int list \<times> nat) \<times> 'f xlating) option" where
  "process_native_cs8_cs16 input f = do {
     f1 \<leftarrow> fill_cs16 (map (\<lambda>x. to_i16 (push_bit 8 (to_i16 x))) input) f;
     process_native_cs16 (length input div 2) f1 }"

definition process_native_cs16_cs16 :: "int list \<Rightarrow> 'f xlating \<Rightarrow> ((int list \<times> nat) \<times> 'f xlating) option" where
  "process_native_cs16_cs16 input f = do {
     f1 \<leftarrow> fill_cs16 input f;
     process_native_cs16 (length input div 2) f1 }"

definition process_optimized_cu8_cs16 :: "int list \<Rightarrow> 'f xlating \<Rightarrow> ((int list \<times> nat) \<times> 'f xlating) option" where
  "process_optimized_cu8_cs16 input f = process_native_cu8_cs16 input f"

definition process_optimized_cs8_cs16 :: "int list \<Rightarrow> 'f xlating \<Rightarrow> ((int list \<times> nat) \<times> 'f xlating) option" where
  "process_optimized_cs8_cs16 input f = process_native_cs8_cs16 input f"

definition process_optimized_cs16_cs16 :: "int list \<Rightarrow> 'f xlating \<Rightarrow> ((int list \<times> nat) \<times> 'f xlating) option" where
  "process_optimized_cs16_cs16 input f = process_native_cs16_cs16 input f"

subsection \<open>Creation\<close>

text \<open>
  The tables of \<open>create_aligned_taps\<close>: row \<open>i\<close> holds the taps shifted by \<open>i\<close>.
\<close>

definition number_of_aligned :: "nat \<Rightarrow> nat \<Rightarrow> nat" where
  "number_of_aligned alignment size_of = max 1 (alignment div size_of)"

definition aligned_taps_cf32 :: "'f fops \<Rightarrow> nat \<Rightarrow> 'f cplx list \<Rightarrow> 'f cplx list list" where
  "aligned_taps_cf32 F number bpfTaps =
     map (\<lambda>i. replicate i (c_zero F) @ bpfTaps @ replicate (number - 1 - i) (c_zero F)) [0..<number]"

definition tap_cs16 :: "'f fops \<Rightarrow> 'f cplx \<Rightarrow> int list" where
  "tap_cs16 F t = [f_to_i16 F 32768 (fst t), f_to_i16 F 32768 (snd t)]"

definition aligned_taps_cs16 :: "'f fops \<Rightarrow> nat \<Rightarrow> 'f cplx list \<Rightarrow> int list list" where
  "aligned_taps_cs16 F number bpfTaps =
     map (\<lambda>i. replicate i 0 @ concat (map (tap_cs16 F) bpfTaps) @ replicate (2 * (number - 1) - i) 0) [0..<number]"

text \<open>
  The loop that reverses the taps: it swaps \<open>i\<close> and \<open>taps_len - 1 - i\<close> for \<open>i \<le> taps_len / 2\<close>.
\<close>

definition swap_ends :: "'a list \<Rightarrow> nat \<Rightarrow> 'a list" where
  "swap_ends ts i = (let j = length ts - 1 - i; tmp = ts ! j in ts[j := ts ! i, i := tmp])"

definition reverse_taps :: "'a list \<Rightarrow> 'a list" where
  "reverse_taps ts = foldl swap_ends ts [0..<Suc (length ts div 2)]"

definition bandpass_taps :: "'f fops \<Rightarrow> 'f list \<Rightarrow> 'f \<Rightarrow> 'f cplx list" where
  "bandpass_taps F taps fwT0 =
     map (\<lambda>i. c_scale F (taps ! i) (f_expi F (f_mul F (f_of_int F (int i)) fwT0))) [0..<length taps]"

text \<open>
  \<open>ok k\<close> is the success of allocation number \<open>k\<close> that is checked: the filter, the taps, the two tables,
  the two working buffers and the two outputs; the rows of the tables are not checked by the code and
  assumed to succeed.  The first error returns its code; a decimation of 0 divides by zero.
\<close>

definition create_frequency_xlating_filter :: "'f fops \<Rightarrow> (nat \<Rightarrow> bool) \<Rightarrow> nat \<Rightarrow> 'f list \<Rightarrow> int \<Rightarrow> nat
    \<Rightarrow> nat \<Rightarrow> (int + 'f xlating) option" where
  "create_frequency_xlating_filter F ok decimation_arg taps center_freq sampling_freq max_input_buffer_length =
     (if taps = [] then Some (Inl (- 1))
      else if \<not> ok 0 then Some (Inl (- ENOMEM))
      else if \<not> ok 1 then Some (Inl (- ENOMEM))
      else
        let len = length taps;
            fwT0 = f_angle F center_freq (int sampling_freq);
            bpfTaps = reverse_taps (bandpass_taps F taps fwT0);
            incr = f_expi F (f_mul F (f_neg F fwT0) (f_of_int F (int decimation_arg)));
            samples = max_input_buffer_length div 2
        in if \<not> ok 2 \<or> \<not> ok 3 then Some (Inl (- 1))
           else if \<not> ok 4 \<or> \<not> ok 5 then Some (Inl (- ENOMEM))
           else if decimation_arg = 0 then None
           else if \<not> ok 6 \<or> \<not> ok 7 then Some (Inl (- ENOMEM))
           else Some (Inr
             \<lparr>decimation = decimation_arg,
              taps_cf32 = aligned_taps_cf32 F (number_of_aligned 32 8) bpfTaps,
              alignment_cf32 = 32,
              taps_cs16 = aligned_taps_cs16 F (number_of_aligned 4 2) bpfTaps,
              alignment_cs16 = 4,
              taps_len = len,
              working_buffer_cf32 = replicate (samples + (len - 1)) (c_zero F),
              working_buffer_cs16 = replicate (2 * (samples + (len - 1))) 0,
              history_offset = len - 1,
              working_buffer_len_samples = samples + (len - 1),
              output_len_sampls = samples div decimation_arg + 1,
              phase = (f_one F, f_zero F),
              phase_incr = incr,
              phase_real = 32767,
              phase_imag = 0,
              phase_incr_real = f_to_i16 F 32767 (fst incr),
              phase_incr_imag = f_to_i16 F 32767 (snd incr)\<rparr>))"

end
