(* ===== verification/Fir_Stream.thy ===== *)
theory Fir_Stream
  imports Xlating
begin

text \<open>
  What a decimating FIR filter computes on an unbounded stream, independently of the blocks the
  stream is cut into, and the interface \<open>stream_filter\<close> that carries the statement over to an
  implementation that keeps a history between blocks.
\<close>

subsection \<open>The reference filter\<close>

text \<open>
  \<open>L\<close> is the number of taps and \<open>D\<close> the decimation.  While \<open>L\<close> samples are there, one output \<open>out w p\<close>
  is produced from the window \<open>w\<close> and the oscillator state \<open>p\<close>, the oscillator advances and \<open>D\<close> samples
  are dropped.  The results are the outputs, the last oscillator state and the samples left.
\<close>

function fir_ref :: "nat \<Rightarrow> nat \<Rightarrow> ('x list \<Rightarrow> 'p \<Rightarrow> 'o) \<Rightarrow> ('p \<Rightarrow> 'p) \<Rightarrow> 'p \<Rightarrow> 'x list \<Rightarrow> 'o list \<times> 'p \<times> 'x list" where
  "fir_ref L D out adv p xs =
     (if length xs < L \<or> D = 0 \<or> xs = [] then ([], p, xs)
      else apfst ((#) (out (take L xs) p)) (fir_ref L D out adv (adv p) (drop D xs)))"
  by pat_completeness auto
termination
  by (relation "measure (\<lambda>(L, D, out, adv, p, xs). length xs)") auto

declare fir_ref.simps [simp del]

lemma fir_ref_short [simp]: "length xs < L \<Longrightarrow> fir_ref L D out adv p xs = ([], p, xs)"
  by (simp add: fir_ref.simps)

lemma fir_ref_step:
  "0 < D \<Longrightarrow> 0 < L \<Longrightarrow> L \<le> length xs \<Longrightarrow>
    fir_ref L D out adv p xs = apfst ((#) (out (take L xs) p)) (fir_ref L D out adv (adv p) (drop D xs))"
  by (subst fir_ref.simps) auto

lemma fir_ref_append:
  assumes "0 < D" "D \<le> L" "fir_ref L D out adv p xs = (os, p1, r)"
  shows "fir_ref L D out adv p (xs @ ys) = apfst ((@) os) (fir_ref L D out adv p1 (r @ ys))"
  using assms
proof (induction L D out adv p xs arbitrary: os rule: fir_ref.induct)
  case (1 L D out adv p xs)
  show ?case
  proof (cases "length xs < L")
    case True
    with 1(4) show ?thesis by (simp add: apfst_def map_prod_def split_beta)
  next
    case False
    with 1(2,3) have c: "\<not> (length xs < L \<or> D = 0 \<or> xs = [])" "0 < L" "L \<le> length xs" by auto
    from 1(4) obtain os' where os: "fir_ref L D out adv (adv p) (drop D xs) = (os', p1, r)"
      "os = out (take L xs) p # os'"
      by (auto simp: fir_ref_step [OF 1(2) c(2,3)] apfst_def map_prod_def split: prod.splits)
    from 1(1) [OF c(1) 1(2,3) os(1)] c os(2) 1(2,3) show ?thesis
      by (simp add: fir_ref_step [OF 1(2) c(2)] apfst_def map_prod_def split_beta)
  qed
qed

lemma fir_ref_rest: 
  assumes "0 < D" "0 < L" "fir_ref L D out adv p xs = (os, p1, r)"
  shows "length r < L" "\<exists>k. r = drop k xs \<and> k = D * length os"
  using assms
proof (induction L D out adv p xs arbitrary: os rule: fir_ref.induct)
  case (1 L D out adv p xs)
  {
    case 1
    show ?case
    proof (cases "length xs < L")
      case False
      then have c: "\<not> (length xs < L \<or> D = 0 \<or> xs = [])" "L \<le> length xs" using 1(1,2) by auto
      from 1(3) obtain os' where "fir_ref L D out adv (adv p) (drop D xs) = (os', p1, r)"
        by (auto simp: fir_ref_step [OF 1(1,2) c(2)] apfst_def map_prod_def split: prod.splits)
      with "1.IH"(1) [OF c(1) 1(1,2)] show ?thesis by blast
    qed (use 1 in simp)
  next
    case 2
    show ?case
    proof (cases "length xs < L")
      case False
      then have c: "\<not> (length xs < L \<or> D = 0 \<or> xs = [])" "L \<le> length xs" using 2(1,2) by auto
      from 2(3) obtain os' where os: "fir_ref L D out adv (adv p) (drop D xs) = (os', p1, r)"
        "os = out (take L xs) p # os'"
        by (auto simp: fir_ref_step [OF 2(1,2) c(2)] apfst_def map_prod_def split: prod.splits)
      from "1.IH"(2) [OF c(1) 2(1,2) os(1)] os(2) show ?thesis by (auto simp: add.commute)
    qed (use 2 in auto)
  }
qed

text \<open>\<open>n\<close> new samples behind at most \<open>L - 1\<close> old ones give at most \<open>n div D + 1\<close> outputs.\<close>

lemma fir_ref_count:
  assumes "0 < D" "0 < L" "fir_ref L D out adv p xs = (os, p1, r)" "length xs < L + n"
  shows "length os \<le> n div D + 1"
proof (cases "os = []")
  case False
  have "D * (length os - 1) \<le> n"
    using assms
  proof (induction L D out adv p xs arbitrary: os n rule: fir_ref.induct)
    case (1 L D out adv p xs)
    show ?case
    proof (cases "length xs < L")
      case True
      with 1(4) show ?thesis by simp
    next
      case False
      then have c: "\<not> (length xs < L \<or> D = 0 \<or> xs = [])" "L \<le> length xs" using 1(2,3) by auto
      from 1(4) obtain os' where os: "fir_ref L D out adv (adv p) (drop D xs) = (os', p1, r)"
        "os = out (take L xs) p # os'"
        by (auto simp: fir_ref_step [OF 1(2,3) c(2)] apfst_def map_prod_def split: prod.splits)
      show ?thesis
      proof (cases "length (drop D xs) < L")
        case True
        with os(1) have "os' = []" by simp
        with os(2) show ?thesis by simp
      next
        case False
        then have "D \<le> n" "length (drop D xs) < L + (n - D)" "os' \<noteq> []"
          using 1(5) fir_ref_step [of D L "drop D xs" out adv "adv p"] 1(2,3) os(1)
          by (auto simp: apfst_def map_prod_def split: prod.splits)
        with 1(1) [OF c(1) 1(2,3) os(1), of "n - D"] have "D * (length os' - 1) \<le> n - D" "0 < length os'" by auto
        with \<open>D \<le> n\<close> os(2) show ?thesis by (cases os') auto
      qed
    qed
  qed
  then have "(length os - 1) \<le> n div D" using assms(1) by (simp add: less_eq_div_iff_mult_less_eq mult.commute)
  then show ?thesis by simp
qed simp

subsection \<open>Filters that keep a history\<close>

fun run_blocks :: "('b \<Rightarrow> 's \<Rightarrow> ('o list \<times> 's) option) \<Rightarrow> 'b list \<Rightarrow> 's \<Rightarrow> ('o list \<times> 's) option" where
  "run_blocks step [] s = Some ([], s)"
| "run_blocks step (b # bs) s =
     Option.bind (step b s) (\<lambda>(os, s1). map_option (apfst ((@) os)) (run_blocks step bs s1))"

text \<open>
  The interface: an implementation \<open>step\<close> that represents an abstract filter state and, for every
  block that fits, does what \<open>spec\<close> does; \<open>spec\<close> on two blocks is \<open>spec\<close> on their concatenation.
\<close>

locale stream_filter =
  fixes rep :: "'s \<Rightarrow> 'a \<Rightarrow> bool"
    and room :: "'a \<Rightarrow> nat"
    and step :: "'x list \<Rightarrow> 's \<Rightarrow> ('o list \<times> 's) option"
    and spec :: "'x list \<Rightarrow> 'a \<Rightarrow> 'o list \<times> 'a"
  assumes step_law: "rep s a \<Longrightarrow> length xs \<le> room a \<Longrightarrow> spec xs a = (os, a') \<Longrightarrow>
      \<exists>s'. step xs s = Some (os, s') \<and> rep s' a' \<and> room a' = room a"
    and spec_Nil: "rep s a \<Longrightarrow> spec [] a = ([], a)"
    and spec_append: "rep s a \<Longrightarrow> spec xs a = (os, a1) \<Longrightarrow> spec (xs @ ys) a = apfst ((@) os) (spec ys a1)"
begin

lemma run_blocks_concat:
  assumes "rep s a" "\<And>b. b \<in> set bs \<Longrightarrow> length b \<le> room a"
  shows "\<exists>s'. run_blocks step bs s = Some (fst (spec (concat bs) a), s') \<and> rep s' (snd (spec (concat bs) a))"
  using assms
proof (induction bs arbitrary: s a)
  case Nil
  then show ?case by (simp add: spec_Nil)
next
  case (Cons b bs)
  obtain os a1 where b: "spec b a = (os, a1)" by (cases "spec b a")
  from step_law [OF Cons.prems(1) _ b] Cons.prems(2) obtain s1 where
    s1: "step b s = Some (os, s1)" "rep s1 a1" "room a1 = room a" by auto
  from Cons.IH [OF s1(2)] Cons.prems(2) s1(3) obtain s' where
    "run_blocks step bs s1 = Some (fst (spec (concat bs) a1), s')" "rep s' (snd (spec (concat bs) a1))" by auto
  with s1(1) spec_append [OF Cons.prems(1) b, of "concat bs"] show ?case
    by (cases "spec (concat bs) a1") auto
qed

text \<open>How the stream is cut does not matter.\<close>

lemma run_blocks_cut:
  assumes "rep s a" "\<And>b. b \<in> set bs \<union> set cs \<Longrightarrow> length b \<le> room a" "concat bs = concat cs"
  shows "map_option fst (run_blocks step bs s) = map_option fst (run_blocks step cs s)"
  using run_blocks_concat [OF assms(1), of bs] run_blocks_concat [OF assms(1), of cs] assms(2,3) by auto

end

end
