(* ===== verification/Xlating_Fixed.thy ===== *)
theory Xlating_Fixed
  imports Fir_Stream
begin

text \<open>
  The fixed-point kernel implements the reference filter: the loops of \<open>process_native_cs16\<close> against
  \<open>fir_ref\<close>, the representation of a filter state, and the interpretation of \<open>stream_filter\<close>.
\<close>

subsection \<open>Flat arrays of pairs\<close>

lemma flat_simps [simp]: "flat [] = []" "flat (x # xs) = fst x # snd x # flat xs"
  "flat (xs @ ys) = flat xs @ flat ys" "length (flat xs) = 2 * length xs"
  by (simp_all add: flat_def) (induction xs; simp)

lemma flat_replicate [simp]: "flat (replicate n (z, z)) = replicate (2 * n) z"
  by (induction n) auto

lemma flat_take: "take (2 * n) (flat xs) = flat (take n xs)"
proof (induction n arbitrary: xs)
  case (Suc n)
  then show ?case by (cases xs) auto
qed simp

lemma flat_drop: "drop (2 * n) (flat xs) = flat (drop n xs)"
proof (induction n arbitrary: xs)
  case (Suc n)
  then show ?case by (cases xs) auto
qed simp

lemma nth_opt_take:
  assumes "take (Suc (Suc k)) (drop i xs) = a # b # r"
  shows "nth_opt xs i = Some a" "nth_opt xs (i + 1) = Some b" "take k (drop (i + 2) xs) = r"
proof -
  obtain ys where d: "drop i xs = a # b # ys" "take k ys = r"
    using assms by (cases "drop i xs"; cases "tl (drop i xs)") auto
  have "length xs - i = Suc (Suc (length ys))" by (metis d(1) length_drop length_Cons)
  then have len: "i + 2 \<le> length xs" by simp
  have "xs ! i = a" "xs ! (i + 1) = b" using d(1) len
    by (metis nth_Cons_0 nth_drop add.right_neutral add_leD1, metis nth_Cons_0 nth_Cons_Suc nth_drop add_leD1 One_nat_def)
  moreover have "drop (i + 2) xs = ys" using d(1) by (metis add.commute drop_drop drop0 drop_Suc_Cons numeral_2_eq_2)
  ultimately show "nth_opt xs i = Some a" "nth_opt xs (i + 1) = Some b" "take k (drop (i + 2) xs) = r"
    using len d(2) by (simp_all add: nth_opt_def)
qed

subsection \<open>The inner loop\<close>

definition mac_pair :: "int \<times> int \<Rightarrow> (int \<times> int) \<times> (int \<times> int) \<Rightarrow> int \<times> int" where
  "mac_pair temp xt = mac_cs16 temp (fst (fst xt)) (snd (fst xt)) (fst (snd xt)) (snd (snd xt))"

definition dot16 :: "(int \<times> int) list \<Rightarrow> (int \<times> int) list \<Rightarrow> int \<times> int" where
  "dot16 ts w = foldl mac_pair (0, 0) (zip w ts)"

lemma dot_cs16_foldl:
  assumes "length xs = length ts"
    and "take (2 * length ts) (drop (base + i) buf) = flat xs" "take (2 * length ts) (drop i taps) = flat ts"
  shows "dot_cs16 buf base taps i (length ts) temp = Some (foldl mac_pair temp (zip xs ts))"
  using assms
proof (induction xs ts arbitrary: i temp rule: list_induct2)
  case Nil
  then show ?case by simp
next
  case (Cons x xs t ts)
  note b = nth_opt_take [of "2 * length ts" "base + i" buf "fst x" "snd x" "flat xs"]
  note c = nth_opt_take [of "2 * length ts" i taps "fst t" "snd t" "flat ts"]
  from Cons.prems b c Cons.IH [of "i + 2"] show ?case by (simp add: mac_pair_def add.assoc)
qed

subsection \<open>Abstract filters\<close>

record fir16 =
  a_taps :: "(int \<times> int) list"
  a_dec :: nat
  a_room :: nat
  a_incr :: "int \<times> int"
  a_phase :: "int \<times> int"
  a_pend :: "(int \<times> int) list"

definition out16 :: "(int \<times> int) list \<Rightarrow> (int \<times> int) list \<Rightarrow> int \<times> int \<Rightarrow> int \<times> int" where
  "out16 ts w p = rotate_cs16 (narrow_cs16 (dot16 ts w)) p"

definition ref16 :: "fir16 \<Rightarrow> (int \<times> int) list \<Rightarrow> (int \<times> int) list \<times> (int \<times> int) \<times> (int \<times> int) list" where
  "ref16 a xs = fir_ref (length (a_taps a)) (a_dec a) (out16 (a_taps a)) (\<lambda>p. rotate_cs16 p (a_incr a)) (a_phase a) xs"

definition spec16 :: "(int \<times> int) list \<Rightarrow> fir16 \<Rightarrow> int list \<times> fir16" where
  "spec16 xs a = (case ref16 a (a_pend a @ xs) of (os, p, r) \<Rightarrow> (flat os, a\<lparr>a_phase := p, a_pend := r\<rparr>))"

definition step16 :: "(int \<times> int) list \<Rightarrow> 'f xlating \<Rightarrow> (int list \<times> 'f xlating) option" where
  "step16 xs f = map_option (apfst fst) (process_native_cs16_cs16 (flat xs) f)"

definition rep16 :: "'f xlating \<Rightarrow> fir16 \<Rightarrow> bool" where
  "rep16 f a \<longleftrightarrow>
     0 < a_dec a \<and> a_dec a \<le> length (a_taps a) \<and> decimation f = a_dec a \<and> taps_len f = length (a_taps a) \<and>
     alignment_cs16 f = 4 \<and> (\<exists>row rows. taps_cs16 f = row # rows \<and> take (2 * length (a_taps a)) row = flat (a_taps a)) \<and>
     history_offset f = length (a_pend a) \<and> length (a_pend a) < length (a_taps a) \<and>
     take (2 * length (a_pend a)) (working_buffer_cs16 f) = flat (a_pend a) \<and>
     length (working_buffer_cs16 f) = 2 * (a_room a + (length (a_taps a) - 1)) \<and>
     a_room a div a_dec a + 1 \<le> output_len_sampls f \<and>
     (phase_real f, phase_imag f) = a_phase a \<and> (phase_incr_real f, phase_incr_imag f) = a_incr a"

subsection \<open>The outer loop\<close>

lemma dot_at_cs16_window:
  assumes "alignment_cs16 f = 4" "taps_cs16 f = row # rows" "take (2 * length ts) row = flat ts"
    "taps_len f = length ts" "take (2 * length w) (working_buffer_cs16 f) = flat w"
    "cur + length ts \<le> length w"
  shows "dot_at_cs16 f cur = Some (dot16 ts (take (length ts) (drop cur w)))"
proof -
  have a: "align_index_cs16 f cur = 0" using assms(1) by (simp add: align_index_cs16_def)
  have "take (2 * length ts) (drop (2 * cur) (working_buffer_cs16 f)) =
      take (2 * length ts) (drop (2 * cur) (take (2 * length w) (working_buffer_cs16 f)))"
    using assms(6) by (simp add: take_drop min_def)
  also have "\<dots> = flat (take (length ts) (drop cur w))" by (simp add: assms(5) flat_take flat_drop)
  finally have "take (2 * length ts) (drop (2 * cur + 0) (working_buffer_cs16 f)) =
    flat (take (length ts) (drop cur w))" by simp
  from dot_cs16_foldl [OF _ this, of row] assms(2,3,4,6) show ?thesis
    by (simp add: dot_at_cs16_def a nth_opt_def dot16_def)
qed

lemma loop_cs16_ref:
  assumes "0 < D" "D \<le> length ts" "decimation f = D" "taps_len f = length ts" "alignment_cs16 f = 4"
    "taps_cs16 f = row # rows" "take (2 * length ts) row = flat ts"
    "take (2 * length w) (working_buffer_cs16 f) = flat w" "cur \<le> length w" "length ts \<le> length w + 1"
    "fir_ref (length ts) D (out16 ts) (\<lambda>p. rotate_cs16 p incr) ph (drop cur w) = (os, p', r)"
    "ph = (phase_real f, phase_imag f)" "incr = (phase_incr_real f, phase_incr_imag f)"
    "length outs + 2 * length os \<le> 2 * output_len_sampls f"
  shows "loop_cs16 (length w - (length ts - 1)) cur outs f =
    Some (outs @ flat os, length w - length r, f\<lparr>phase_real := fst p', phase_imag := snd p'\<rparr>)"
  using assms
proof (induction "length w - cur" arbitrary: cur outs f os ph rule: less_induct)
  case less
  let ?L = "length ts"
  show ?case
  proof (cases "length (drop cur w) < ?L")
    case True
    with less.prems(9,10) have "\<not> cur < length w - (?L - 1)" by auto
    moreover from True less.prems(11) have "os = []" "p' = ph" "r = drop cur w" by auto
    ultimately show ?thesis using less.prems(9,12)
      by (subst loop_cs16.simps) simp
  next
    case False
    then have win: "cur + ?L \<le> length w" using less.prems(9) by auto
    have L: "0 < ?L" using less.prems(1,2) by linarith
    from False have "?L \<le> length (drop cur w)" by simp
    from less.prems(11) obtain os' where os:
      "fir_ref ?L D (out16 ts) (\<lambda>p. rotate_cs16 p incr) (rotate_cs16 ph incr) (drop (cur + D) w) = (os', p', r)"
      "os = out16 ts (take ?L (drop cur w)) ph # os'"
      by (auto simp: fir_ref_step [OF less.prems(1) L \<open>?L \<le> length (drop cur w)\<close>] add.commute apfst_def map_prod_def
          split: prod.splits)
    let ?f = "f\<lparr>phase_real := fst (rotate_cs16 ph incr), phase_imag := snd (rotate_cs16 ph incr)\<rparr>"
    let ?o = "out16 ts (take ?L (drop cur w)) ph"
    have "cur + D \<le> length w" using win less.prems(2) by simp
    moreover have "length w - (cur + D) < length w - cur" using win L less.prems(1) by linarith
    ultimately have "loop_cs16 (length w - (?L - 1)) (cur + D) (outs @ [fst ?o, snd ?o]) ?f =
      Some ((outs @ [fst ?o, snd ?o]) @ flat os', length w - length r, ?f\<lparr>phase_real := fst p', phase_imag := snd p'\<rparr>)"
      using less.prems os by (intro less.hyps) simp_all
    moreover have "dot_at_cs16 f cur = Some (dot16 ts (take ?L (drop cur w)))"
      using less.prems win by (intro dot_at_cs16_window) auto
    moreover have "cur < length w - (?L - 1)" using win L by linarith
    moreover have "length outs + 1 < 2 * output_len_sampls f" using less.prems(14) os(2) by simp
    ultimately show ?thesis using os(2) less.prems(3,12,13)
      by (subst loop_cs16.simps) (simp add: Let_def out16_def)
  qed
qed

subsection \<open>One block\<close>

lemma store_at_append:
  assumes "take n buf = xs" "n \<le> length buf" "n + length ys \<le> length buf"
  shows "\<exists>buf'. store_at n ys buf = Some buf' \<and> length buf' = length buf \<and> take (n + length ys) buf' = xs @ ys"
proof -
  have "length xs = n" using assms(1,2) by auto
  with assms show ?thesis by (simp add: store_at_def)
qed

lemma move_down_take:
  assumes "take W buf = w" "W \<le> length buf" "from + n = W"
  shows "\<exists>buf'. move_down from n buf = Some buf' \<and> length buf' = length buf \<and> take n buf' = drop from w"
proof -
  have "take n (drop from buf) = drop from w"
    using assms by (auto simp: drop_take)
  with assms show ?thesis by (auto simp: move_down_def min_def)
qed

lemma process_native_cs16_ref:
  assumes rep: "rep16 f a" and w: "take (2 * length w) (working_buffer_cs16 f') = flat w"
    "length w = length (a_pend a) + n" "n \<le> a_room a"
    and f': "f' = f\<lparr>working_buffer_cs16 := buf\<rparr>" "length buf = length (working_buffer_cs16 f)"
    and ref: "ref16 a w = (os, p', r)"
  shows "\<exists>f''. process_native_cs16 n f' = Some ((flat os, length os), f'') \<and>
    rep16 f'' (a\<lparr>a_phase := p', a_pend := r\<rparr>)"
proof -
  let ?L = "length (a_taps a)" and ?D = "a_dec a" and ?W = "length w"
  from rep obtain row rows where rows: "taps_cs16 f = row # rows" "take (2 * ?L) row = flat (a_taps a)"
    by (auto simp: rep16_def)
  from rep have D: "0 < ?D" "?D \<le> ?L" and L: "0 < ?L" and hist: "history_offset f = length (a_pend a)"
    and short: "length (a_pend a) < ?L" and buf: "length buf = 2 * (a_room a + (?L - 1))"
    and room: "a_room a div ?D + 1 \<le> output_len_sampls f" and al: "alignment_cs16 f = 4"
    and tl: "taps_len f = ?L" "decimation f = ?D"
    and ph: "a_phase a = (phase_real f, phase_imag f)" "a_incr a = (phase_incr_real f, phase_incr_imag f)"
    using f'(2) by (auto simp: rep16_def)
  have fir: "fir_ref ?L ?D (out16 (a_taps a)) (\<lambda>p. rotate_cs16 p (a_incr a)) (a_phase a) (drop 0 w) = (os, p', r)"
    using ref by (simp add: ref16_def)
  have r: "length r < ?L" "r = drop (?D * length os) w" using fir_ref_rest [OF D(1) L fir] by auto
  have "?W < ?L + n" using w(2) short by simp
  with fir_ref_count [OF D(1) L fir] have "length os \<le> n div ?D + 1" by simp
  also have "\<dots> \<le> a_room a div ?D + 1" using w(3) div_le_mono by simp
  finally have count: "2 * length os \<le> 2 * output_len_sampls f" using room by simp
  have "?W \<le> a_room a + (?L - 1)" using w(2,3) short by arith
  then have Wbuf: "2 * ?W \<le> length buf" using buf by simp
  have kW: "?D * length os + length r = ?W \<or> r = [] \<and> ?W \<le> ?D * length os" using r(2) by auto
  show ?thesis
  proof (cases "?W > ?L - 1")
    case False
    with L have "?W < ?L" by linarith
    with fir have "os = []" "p' = a_phase a" "r = w" by auto
    moreover have "process_native_cs16 n f' = Some (([], 0), f'\<lparr>history_offset := ?W\<rparr>)"
      using False tl f'(1) hist w(2) by (simp add: process_native_cs16_def size_sub_def Let_def)
    moreover have "rep16 (f'\<lparr>history_offset := ?W\<rparr>) (a\<lparr>a_phase := a_phase a, a_pend := w\<rparr>)"
      using rep w f' \<open>?W < ?L\<close> by (auto simp: rep16_def)
    ultimately show ?thesis by auto
  next
    case True
    have loop: "loop_cs16 (?W - (?L - 1)) 0 [] f' =
      Some (flat os, ?W - length r, f'\<lparr>phase_real := fst p', phase_imag := snd p'\<rparr>)"
      using loop_cs16_ref [OF D, of f' row rows w 0 "a_incr a" "a_phase a" os p' r "[]"] fir rows al tl w(1) True count ph f'(1)
      by simp
    let ?k = "?W - length r"
    have rW: "length r \<le> ?W" "drop ?k w = r"
      using r(2) by (cases "?D * length os \<le> ?W"; simp)+
    have sub: "size_sub ?W ?k = length r" using rW by (simp add: size_sub_def)
    have "\<exists>wb. (if 0 < ?k then move_down (2 * ?k) (2 * length r) buf else Some buf) = Some wb \<and>
        length wb = length buf \<and> take (2 * length r) wb = flat r"
    proof (cases "0 < ?k")
      case True
      have "2 * ?k + 2 * length r = 2 * ?W" using rW(1) by simp
      from move_down_take [OF w(1) [unfolded f'(1), simplified] Wbuf this]
      show ?thesis using True flat_drop [of ?k w] rW(2) by simp
    next
      case False
      with rW have "r = w" by auto
      with False w(1) f'(1) show ?thesis by auto
    qed
    then obtain wb where wb: "(if 0 < ?k then move_down (2 * ?k) (2 * length r) buf else Some buf) = Some wb"
      "length wb = length buf" "take (2 * length r) wb = flat r" by blast
    let ?f = "f'\<lparr>phase_real := fst p', phase_imag := snd p', history_offset := length r, working_buffer_cs16 := wb\<rparr>"
    have "process_native_cs16 n f' = Some ((flat os, length os), ?f)"
      using True tl hist loop sub wb(1) f'(1) w(2) [symmetric]
      by (cases "0 < ?k") (simp_all add: process_native_cs16_def Let_def)
    moreover have "rep16 ?f (a\<lparr>a_phase := p', a_pend := r\<rparr>)"
      using rep wb r(1) f' rows by (auto simp: rep16_def)
    ultimately show ?thesis by blast
  qed
qed

lemma step16_law:
  assumes rep: "rep16 f a" and n: "length xs \<le> a_room a" and spec: "spec16 xs a = (os, a')"
  shows "\<exists>f'. step16 xs f = Some (os, f') \<and> rep16 f' a' \<and> a_room a' = a_room a"
proof -
  let ?w = "a_pend a @ xs"
  obtain zs p r where ref: "ref16 a ?w = (zs, p, r)" by (cases "ref16 a ?w") auto
  with spec have s: "os = flat zs" "a' = a\<lparr>a_phase := p, a_pend := r\<rparr>" by (simp_all add: spec16_def)
  from rep have buf: "take (2 * length (a_pend a)) (working_buffer_cs16 f) = flat (a_pend a)"
    "length (working_buffer_cs16 f) = 2 * (a_room a + (length (a_taps a) - 1))"
    "length (a_pend a) < length (a_taps a)" "history_offset f = length (a_pend a)" by (auto simp: rep16_def)
  have fits: "2 * length (a_pend a) \<le> length (working_buffer_cs16 f)"
    "2 * length (a_pend a) + length (flat xs) \<le> length (working_buffer_cs16 f)"
    using buf(2,3) n by simp_all
  from store_at_append [OF buf(1) fits] obtain wb where wb:
    "store_at (2 * length (a_pend a)) (flat xs) (working_buffer_cs16 f) = Some wb"
    "length wb = length (working_buffer_cs16 f)" "take (2 * length ?w) wb = flat ?w" by auto
  have "\<exists>f''. process_native_cs16 (length xs) (f\<lparr>working_buffer_cs16 := wb\<rparr>) = Some ((flat zs, length zs), f'') \<and>
    rep16 f'' (a\<lparr>a_phase := p, a_pend := r\<rparr>)"
    using process_native_cs16_ref [OF rep _ _ n refl wb(2) ref] wb(3) by simp
  with wb(1) s buf(4) show ?thesis
    by (auto simp: step16_def process_native_cs16_cs16_def fill_cs16_def)
qed

lemma spec16_append:
  assumes "rep16 f a" "spec16 xs a = (os, a1)"
  shows "spec16 (xs @ ys) a = apfst ((@) os) (spec16 ys a1)"
proof -
  obtain zs p r where ref: "ref16 a (a_pend a @ xs) = (zs, p, r)" by (cases "ref16 a (a_pend a @ xs)") auto
  with assms(2) have s: "os = flat zs" "a1 = a\<lparr>a_phase := p, a_pend := r\<rparr>" by (simp_all add: spec16_def)
  from assms(1) have D: "0 < a_dec a" "a_dec a \<le> length (a_taps a)" by (auto simp: rep16_def)
  from fir_ref_append [OF D ref [unfolded ref16_def], of ys] s show ?thesis
    by (auto simp: spec16_def ref16_def split: prod.splits)
qed

lemma spec16_Nil: "rep16 f a \<Longrightarrow> spec16 [] a = ([], a)"
  by (simp add: rep16_def spec16_def ref16_def)

interpretation fx: stream_filter rep16 a_room step16 spec16
  by unfold_locales (rule step16_law spec16_Nil spec16_append; assumption)+

end
