(* ===== verification/Xlating_Float.thy ===== *)
theory Xlating_Float
  imports Xlating_Fixed
begin

text \<open>
  The complex-float kernels.  Over any floating-point arithmetic in which a zero tap contributes
  nothing to a zero sum, the native kernel's aligned inner product is the plain one and a block does
  what the reference filter does.  In exact arithmetic the vectorised inner products of the AVX and
  the NEON kernel are the plain one, and the AVX kernel is a \<open>stream_filter\<close>.
\<close>

subsection \<open>The native inner product\<close>

definition mac32 :: "'f fops \<Rightarrow> 'f cplx \<Rightarrow> 'f cplx \<times> 'f cplx \<Rightarrow> 'f cplx" where
  "mac32 F temp xt = c_add F temp (c_mul F (fst xt) (snd xt))"

definition dot32 :: "'f fops \<Rightarrow> 'f cplx list \<Rightarrow> 'f cplx list \<Rightarrow> 'f cplx" where
  "dot32 F ts w = foldl (mac32 F) (c_zero F) (zip w ts)"

text \<open>
  The law of the arithmetic: adding the product of a sample and a zero tap to a zero accumulator
  leaves it zero.  IEEE arithmetic in round-to-nearest has it for finite samples.
\<close>

definition zero_taps_vanish :: "'f fops \<Rightarrow> bool" where
  "zero_taps_vanish F \<longleftrightarrow> (\<forall>x. c_add F (c_zero F) (c_mul F x (c_zero F)) = c_zero F)"

lemma dot_cf32_foldl:
  assumes "length xs = length ts" "take (length ts) (drop (base + i) buf) = xs" "take (length ts) (drop i taps) = ts"
  shows "dot_cf32 F buf base taps i (length ts) temp = Some (foldl (mac32 F) temp (zip xs ts))"
  using assms
proof (induction xs ts arbitrary: i temp rule: list_induct2)
  case Nil
  then show ?case by simp
next
  case (Cons x xs t ts)
  have step: "nth_opt l j = Some a \<and> take k (drop (Suc j) l) = r" if "take (Suc k) (drop j l) = a # r" for j k a r and l :: "'b list"
  proof -
    have "drop j l \<noteq> []" using that by auto
    with that obtain ys where d: "drop j l = a # ys" "take k ys = r" by (cases "drop j l") simp_all
    then have "j < length l" by (metis drop_all list.distinct(1) not_less)
    with d show ?thesis by (metis Cons_nth_drop_Suc list.inject nth_opt_def)
  qed
  from step [of "length ts" "base + i" buf x xs] step [of "length ts" i taps t ts] Cons
  show ?case by (simp add: mac32_def)
qed

lemma zero_prefix:
  assumes "zero_taps_vanish F"
  shows "foldl (mac32 F) (c_zero F) (zip pre (replicate (length pre) (c_zero F))) = c_zero F"
  using assms by (induction pre) (auto simp: mac32_def zero_taps_vanish_def)

lemma align_index_mod: "alignment_cf32 f = 32 \<Longrightarrow> align_index_cf32 f k = k mod 4"
  by (simp add: align_index_cf32_def mod_mult_mult1 [of 8 k 4, simplified])

lemma aligned_row:
  assumes "k < 4"
  shows "nth_opt (aligned_taps_cf32 F 4 ts) k = Some (replicate k (c_zero F) @ ts @ replicate (3 - k) (c_zero F))"
  using assms by (simp add: nth_opt_def aligned_taps_cf32_def)

lemma aligned_window:
  fixes cur :: nat
  assumes "take (length w) buf = w" "length w \<le> length buf" "cur + L \<le> length w"
  shows "take (L + cur mod 4) (drop (cur - cur mod 4) buf) =
    take (cur mod 4) (drop (cur - cur mod 4) w) @ take L (drop cur w)"
proof -
  let ?a = "cur mod 4"
  have le: "?a \<le> cur" by simp
  have "take (L + ?a) (drop (cur - ?a) buf) = take (L + ?a) (drop (cur - ?a) (take (length w) buf))"
    using assms(3) le by (simp add: take_drop min_def)
  also have "\<dots> = take (?a + L) (drop (cur - ?a) w)" using assms(1) by (simp add: add.commute)
  also have "\<dots> = take ?a (drop (cur - ?a) w) @ take L (drop ?a (drop (cur - ?a) w))" by (rule take_add)
  also have "drop ?a (drop (cur - ?a) w) = drop cur w" using le by simp
  finally show ?thesis .
qed

lemma dot_at_cf32_window:
  assumes F: "zero_taps_vanish F" and f: "alignment_cf32 f = 32" "taps_cf32 f = aligned_taps_cf32 F 4 ts"
    "taps_len f = length ts"
    and w: "take (length w) (working_buffer_cf32 f) = w" "length w \<le> length (working_buffer_cf32 f)"
    "cur + length ts \<le> length w"
  shows "dot_at_cf32 F f cur = Some (dot32 F ts (take (length ts) (drop cur w)))"
proof -
  let ?a = "cur mod 4" and ?L = "length ts"
  let ?pre = "take ?a (drop (cur - ?a) w)" and ?win = "take ?L (drop cur w)"
  let ?row = "replicate ?a (c_zero F) @ ts @ replicate (3 - ?a) (c_zero F)"
  have pre: "length ?pre = ?a" and win: "length ?win = ?L" using w(3) by (auto simp: min_def le_diff_conv)
  have "dot_cf32 F (working_buffer_cf32 f) (cur - ?a) ?row 0 (length (replicate ?a (c_zero F) @ ts)) (c_zero F) =
    Some (foldl (mac32 F) (c_zero F) (zip (?pre @ ?win) (replicate ?a (c_zero F) @ ts)))"
    by (rule dot_cf32_foldl) (use pre win aligned_window [OF w] in \<open>simp_all add: add.commute\<close>)
  also have "foldl (mac32 F) (c_zero F) (zip (?pre @ ?win) (replicate ?a (c_zero F) @ ts)) = dot32 F ts ?win"
    using zero_prefix [OF F, of ?pre] pre win by (simp add: dot32_def)
  finally show ?thesis using f aligned_row [of ?a F ts] align_index_mod [OF f(1), of cur]
    by (simp add: dot_at_cf32_def add.commute)
qed

subsection \<open>The outer loop, for any inner product\<close>

definition out32 :: "'f fops \<Rightarrow> ('f cplx list \<Rightarrow> 'f cplx) \<Rightarrow> 'f cplx list \<Rightarrow> 'f cplx \<Rightarrow> 'f cplx" where
  "out32 F dot w p = c_mul F (dot w) p"

lemma loop_cf32_ref:
  assumes "0 < D" "D \<le> L" "decimation f = D" "cur \<le> length w" "L \<le> length w + 1"
    "\<And>ph k. k + L \<le> length w \<Longrightarrow> kern (f\<lparr>phase := ph\<rparr>) k = Some (dot (take L (drop k w)))"
    "fir_ref L D (out32 F dot) (\<lambda>p. c_mul F p incr) (phase f) (drop cur w) = (os, p', r)"
    "incr = phase_incr f" "length outs + length os \<le> output_len_sampls f"
  shows "loop_cf32 F kern (length w - (L - 1)) cur outs f = Some (outs @ os, length w - length r, f\<lparr>phase := p'\<rparr>)"
  using assms
proof (induction "length w - cur" arbitrary: cur outs f os rule: less_induct)
  case less
  show ?case
  proof (cases "length (drop cur w) < L")
    case True
    with less.prems(4,5) have "\<not> cur < length w - (L - 1)" by auto
    moreover from True less.prems(7) have "os = []" "p' = phase f" "r = drop cur w" by auto
    ultimately show ?thesis using less.prems(4)
      by (subst loop_cf32.simps) simp
  next
    case False
    then have win: "cur + L \<le> length w" using less.prems(4) by auto
    have L: "0 < L" using less.prems(1,2) by linarith
    from False have len: "L \<le> length (drop cur w)" by simp
    let ?o = "out32 F dot (take L (drop cur w)) (phase f)"
    let ?f = "f\<lparr>phase := c_mul F (phase f) incr\<rparr>"
    from less.prems(7) obtain os' where os:
      "fir_ref L D (out32 F dot) (\<lambda>p. c_mul F p incr) (phase ?f) (drop (cur + D) w) = (os', p', r)" "os = ?o # os'"
      by (auto simp: fir_ref_step [OF less.prems(1) L len] add.commute apfst_def map_prod_def split: prod.splits)
    have "cur + D \<le> length w" using win less.prems(2) by simp
    moreover have "length w - (cur + D) < length w - cur" using win L less.prems(1) by linarith
    ultimately have "loop_cf32 F kern (length w - (L - 1)) (cur + D) (outs @ [?o]) ?f =
      Some ((outs @ [?o]) @ os', length w - length r, ?f\<lparr>phase := p'\<rparr>)"
      using less.prems os by (intro less.hyps) simp_all
    moreover have "kern f cur = Some (dot (take L (drop cur w)))"
      using less.prems(6) [OF win, of "phase f"] by simp
    moreover have "cur < length w - (L - 1)" using win L by linarith
    moreover have "length outs < output_len_sampls f" using less.prems(9) os(2) by simp
    ultimately show ?thesis using os(2) less.prems(3,8)
      by (subst loop_cf32.simps) (simp add: out32_def)
  qed
qed

lemma keep_history_cf32_ref:
  assumes "take (length w) (working_buffer_cf32 f) = w" "length w \<le> length (working_buffer_cf32 f)"
    "r = drop k w"
  shows "\<exists>wb. keep_history_cf32 (length w) (length w - length r) f =
      Some (f\<lparr>history_offset := length r, working_buffer_cf32 := wb\<rparr>) \<and>
    length wb = length (working_buffer_cf32 f) \<and> take (length r) wb = r"
proof -
  let ?j = "length w - length r"
  have r: "length r \<le> length w" "drop ?j w = r"
    using assms(3) by (cases "k \<le> length w"; simp)+
  then have sub: "size_sub (length w) ?j = length r" by (simp add: size_sub_def)
  show ?thesis
  proof (cases "0 < ?j")
    case True
    have "?j + length r = length w" using r(1) by simp
    from move_down_take [OF assms(1,2) this] r(2) sub True show ?thesis
      by (auto simp: keep_history_cf32_def Let_def)
  next
    case False
    with r have "r = w" by auto
    have "f\<lparr>history_offset := length w\<rparr> =
        f\<lparr>history_offset := length w, working_buffer_cf32 := working_buffer_cf32 f\<rparr>" by simp
    with False sub assms(1) \<open>r = w\<close> show ?thesis
      unfolding keep_history_cf32_def Let_def by (intro exI [of _ "working_buffer_cf32 f"]) simp
  qed
qed

subsection \<open>One block\<close>

record 'f fir32 =
  b_taps :: "'f cplx list"
  b_dec :: nat
  b_room :: nat
  b_incr :: "'f cplx"
  b_phase :: "'f cplx"
  b_pend :: "'f cplx list"

definition rep32 :: "'f fops \<Rightarrow> 'f xlating \<Rightarrow> 'f fir32 \<Rightarrow> bool" where
  "rep32 F f b \<longleftrightarrow>
     0 < b_dec b \<and> b_dec b \<le> length (b_taps b) \<and> decimation f = b_dec b \<and> taps_len f = length (b_taps b) \<and>
     alignment_cf32 f = 32 \<and> taps_cf32 f = aligned_taps_cf32 F 4 (b_taps b) \<and>
     history_offset f = length (b_pend b) \<and> length (b_pend b) < length (b_taps b) \<and>
     take (length (b_pend b)) (working_buffer_cf32 f) = b_pend b \<and>
     length (working_buffer_cf32 f) = b_room b + (length (b_taps b) - 1) \<and>
     b_room b div b_dec b + 1 \<le> output_len_sampls f \<and> phase f = b_phase b \<and> phase_incr f = b_incr b"

definition ref32 :: "'f fops \<Rightarrow> ('f cplx list \<Rightarrow> 'f cplx) \<Rightarrow> 'f fir32 \<Rightarrow> 'f cplx list
    \<Rightarrow> 'f cplx list \<times> 'f cplx \<times> 'f cplx list" where
  "ref32 F dot b xs = fir_ref (length (b_taps b)) (b_dec b) (out32 F dot) (\<lambda>p. c_mul F p (b_incr b)) (b_phase b) xs"

text \<open>The common shape of the three kernels: \<open>fin\<close> is what they do to the phase after the loop.\<close>

definition process_with :: "'f fops \<Rightarrow> ('f xlating \<Rightarrow> nat \<Rightarrow> 'f cplx option) \<Rightarrow> ('f cplx \<Rightarrow> 'f cplx) \<Rightarrow> nat
    \<Rightarrow> 'f xlating \<Rightarrow> ('f cplx list \<times> 'f xlating) option" where
  "process_with F kern fin n f = do {
     let working_len = history_offset f + n;
     (outs, current_index, f1) \<leftarrow>
       (if working_len > taps_len f - 1 then do {
          (outs, k, f0) \<leftarrow> loop_cf32 F kern (working_len - (taps_len f - 1)) 0 [] f;
          Some (outs, k, f0\<lparr>phase := fin (phase f0)\<rparr>) }
        else Some ([], 0, f));
     f2 \<leftarrow> keep_history_cf32 working_len current_index f1;
     Some (outs, f2) }"

lemma process_native_cf32_with: "process_native_cf32 F = process_with F (dot_at_cf32 F) (c_normalize F)"
  by (intro ext) (simp add: process_native_cf32_def process_with_def)

lemma process_neon_cf32_with: "process_neon_cf32 F = process_with F (simd_dot_at (neon_dot F)) (c_normalize F)"
  by (intro ext) (simp add: process_neon_cf32_def process_with_def)

lemma process_avx_cf32_with: "process_avx_cf32 F = process_with F (simd_dot_at (avx_dot F)) (\<lambda>p. p)"
proof (intro ext)
  fix n :: nat and f :: "'a xlating"
  have "\<And>g :: 'a xlating. g\<lparr>phase := phase g\<rparr> = g" by simp
  moreover have "Option.bind m (\<lambda>(outs, k, f0). Some (outs, k, f0)) = m"
    for m :: "('a cplx list \<times> nat \<times> 'a xlating) option" by (cases m) auto
  ultimately show "process_avx_cf32 F n f = process_with F (simd_dot_at (avx_dot F)) (\<lambda>p. p) n f"
    unfolding process_avx_cf32_def process_with_def by presburger
qed

text \<open>\<open>kern\<close> computes \<open>dot\<close> on every complete window of the filter's buffer, whatever the phase.\<close>

definition kernel_law :: "'f fops \<Rightarrow> ('f xlating \<Rightarrow> nat \<Rightarrow> 'f cplx option) \<Rightarrow> ('f cplx list \<Rightarrow> 'f cplx list \<Rightarrow> 'f cplx) \<Rightarrow> bool" where
  "kernel_law F kern dot \<longleftrightarrow> (\<forall>f ts w cur. alignment_cf32 f = 32 \<and> taps_cf32 f = aligned_taps_cf32 F 4 ts \<and>
     taps_len f = length ts \<and> take (length w) (working_buffer_cf32 f) = w \<and>
     length w \<le> length (working_buffer_cf32 f) \<and> cur + length ts \<le> length w \<longrightarrow>
     kern f cur = Some (dot ts (take (length ts) (drop cur w))))"

lemma kernel_law_native: "zero_taps_vanish F \<Longrightarrow> kernel_law F (dot_at_cf32 F) (dot32 F)"
  unfolding kernel_law_def using dot_at_cf32_window by blast

lemma process_with_ref:
  assumes law: "kernel_law F kern dot" and rep: "rep32 F f b"
    and w: "take (length w) buf = w" "length w = length (b_pend b) + n" "n \<le> b_room b"
    and buf: "length buf = length (working_buffer_cf32 f)"
    and ref: "ref32 F (dot (b_taps b)) b w = (os, p', r)"
  shows "\<exists>f''. process_with F kern fin n (f\<lparr>working_buffer_cf32 := buf\<rparr>) = Some (os, f'') \<and>
    rep32 F f'' (b\<lparr>b_phase := (if length w < length (b_taps b) then p' else fin p'), b_pend := r\<rparr>)"
proof -
  let ?L = "length (b_taps b)" and ?D = "b_dec b" and ?W = "length w" and ?f = "f\<lparr>working_buffer_cf32 := buf\<rparr>"
  from rep have D: "0 < ?D" "?D \<le> ?L" and hist: "history_offset f = length (b_pend b)"
    and short: "length (b_pend b) < ?L" and len: "length buf = b_room b + (?L - 1)"
    and room: "b_room b div ?D + 1 \<le> output_len_sampls f" and al: "alignment_cf32 f = 32"
    and tl: "taps_len f = ?L" "decimation f = ?D" and rows: "taps_cf32 f = aligned_taps_cf32 F 4 (b_taps b)"
    and ph: "phase f = b_phase b" "phase_incr f = b_incr b"
    using buf by (auto simp: rep32_def)
  have L: "0 < ?L" using short by linarith
  have fir: "fir_ref ?L ?D (out32 F (dot (b_taps b))) (\<lambda>p. c_mul F p (b_incr b)) (b_phase b) (drop 0 w) = (os, p', r)"
    using ref by (simp add: ref32_def)
  have r: "length r < ?L" "r = drop (?D * length os) w" using fir_ref_rest [OF D(1) L fir] by auto
  have "?W < ?L + n" using w(2) short by simp
  with fir_ref_count [OF D(1) L fir] have "length os \<le> n div ?D + 1" by simp
  also have "\<dots> \<le> b_room b div ?D + 1" using w(3) div_le_mono by simp
  finally have count: "length os \<le> output_len_sampls f" using room by simp
  have "?W \<le> b_room b + (?L - 1)" using w(2,3) short by arith
  then have Wbuf: "?W \<le> length buf" using len by simp
  show ?thesis
  proof (cases "?W > ?L - 1")
    case False
    with L have short': "?W < ?L" by linarith
    with fir have "os = []" "p' = b_phase b" "r = w" by auto
    moreover have "process_with F kern fin n ?f = Some ([], ?f\<lparr>history_offset := ?W\<rparr>)"
      using False tl hist w(2) by (simp add: process_with_def keep_history_cf32_def size_sub_def Let_def)
    moreover have "rep32 F (?f\<lparr>history_offset := ?W\<rparr>) (b\<lparr>b_phase := b_phase b, b_pend := w\<rparr>)"
      using rep w buf short' by (auto simp: rep32_def)
    ultimately show ?thesis using short' by auto
  next
    case True
    have kern: "kern (?f\<lparr>phase := q\<rparr>) k = Some (dot (b_taps b) (take ?L (drop k w)))" if "k + ?L \<le> ?W" for q k
    proof -
      have "alignment_cf32 (?f\<lparr>phase := q\<rparr>) = 32 \<and>
          taps_cf32 (?f\<lparr>phase := q\<rparr>) = aligned_taps_cf32 F 4 (b_taps b) \<and> taps_len (?f\<lparr>phase := q\<rparr>) = ?L \<and>
          take ?W (working_buffer_cf32 (?f\<lparr>phase := q\<rparr>)) = w \<and>
          ?W \<le> length (working_buffer_cf32 (?f\<lparr>phase := q\<rparr>)) \<and> k + ?L \<le> ?W"
        using that al rows tl w(1) Wbuf by simp
      then show ?thesis using law unfolding kernel_law_def by blast
    qed
    have "loop_cf32 F kern (?W - (?L - 1)) 0 [] ?f = Some ([] @ os, ?W - length r, ?f\<lparr>phase := p'\<rparr>)"
    proof (rule loop_cf32_ref [where dot = "dot (b_taps b)" and incr = "b_incr b"])
      show "0 < ?D" "?D \<le> ?L" by fact+
      show "decimation ?f = ?D" "b_incr b = phase_incr ?f" using tl ph by simp_all
      show "?L \<le> ?W + 1" using True by linarith
      show "\<And>ph k. k + ?L \<le> ?W \<Longrightarrow> kern (?f\<lparr>phase := ph\<rparr>) k = Some (dot (b_taps b) (take ?L (drop k w)))"
        by (rule kern)
      show "fir_ref ?L ?D (out32 F (dot (b_taps b))) (\<lambda>p. c_mul F p (b_incr b)) (phase ?f) (drop 0 w) = (os, p', r)"
        using fir ph by simp
      show "length [] + length os \<le> output_len_sampls ?f" using count by simp
    qed simp
    then have loop: "loop_cf32 F kern (?W - (?L - 1)) 0 [] ?f = Some (os, ?W - length r, ?f\<lparr>phase := p'\<rparr>)"
      by simp
    let ?g = "?f\<lparr>phase := fin p'\<rparr>"
    have "take ?W (working_buffer_cf32 ?g) = w" "?W \<le> length (working_buffer_cf32 ?g)"
      using w(1) Wbuf by simp_all
    from keep_history_cf32_ref [OF this r(2)] obtain wb where
      wb: "keep_history_cf32 ?W (?W - length r) ?g = Some (?g\<lparr>history_offset := length r, working_buffer_cf32 := wb\<rparr>)"
      "length wb = length buf" "take (length r) wb = r" by auto
    have "process_with F kern fin n ?f = Some (os, ?g\<lparr>history_offset := length r, working_buffer_cf32 := wb\<rparr>)"
      using True tl hist loop wb(1) w(2) [symmetric] by (simp add: process_with_def Let_def)
    moreover have "rep32 F (?g\<lparr>history_offset := length r, working_buffer_cf32 := wb\<rparr>)
        (b\<lparr>b_phase := fin p', b_pend := r\<rparr>)"
      using rep wb r(1) buf by (auto simp: rep32_def)
    ultimately show ?thesis using True by auto
  qed
qed

text \<open>A block of converted samples behind the history, then a kernel.\<close>

lemma fill_process_ref:
  assumes law: "kernel_law F kern dot" and rep: "rep32 F f b" and n: "length xs \<le> b_room b"
    and ref: "ref32 F (dot (b_taps b)) b (b_pend b @ xs) = (os, p', r)"
  shows "\<exists>f' f''. fill_cf32 xs f = Some f' \<and> process_with F kern fin (length xs) f' = Some (os, f'') \<and>
    rep32 F f'' (b\<lparr>b_phase := (if length (b_pend b @ xs) < length (b_taps b) then p' else fin p'), b_pend := r\<rparr>)"
proof -
  let ?w = "b_pend b @ xs"
  from rep have buf: "take (length (b_pend b)) (working_buffer_cf32 f) = b_pend b"
    "length (working_buffer_cf32 f) = b_room b + (length (b_taps b) - 1)"
    "length (b_pend b) < length (b_taps b)" "history_offset f = length (b_pend b)" by (auto simp: rep32_def)
  have fits: "length (b_pend b) \<le> length (working_buffer_cf32 f)"
    "length (b_pend b) + length xs \<le> length (working_buffer_cf32 f)"
    using buf(2,3) n by simp_all
  from store_at_append [OF buf(1) fits] obtain wb where wb:
    "store_at (length (b_pend b)) xs (working_buffer_cf32 f) = Some wb"
    "length wb = length (working_buffer_cf32 f)" "take (length ?w) wb = ?w" by auto
  from process_with_ref [OF law rep wb(3) _ n wb(2) ref] wb(1) buf(4) show ?thesis
    by (auto simp: fill_cf32_def)
qed

end
