(* ===== verification/Xlating_Simd.thy ===== *)
theory Xlating_Simd
  imports Xlating_Float
begin

text \<open>
  The vectorised inner products in exact arithmetic, over any commutative ring: the four lanes of the
  AVX kernel and the eight of the NEON kernel, with their tails, add up to the plain inner product.
\<close>

subsection \<open>Exact arithmetic\<close>

definition exact :: "'r::comm_ring_1 fops \<Rightarrow> 'r fops" where
  "exact F = F\<lparr>f_zero := 0, f_one := 1, f_add := (+), f_sub := (-), f_neg := uminus, f_mul := (*)\<rparr>"

lemma exact_simps [simp]:
  "f_zero (exact F) = 0" "f_one (exact F) = 1" "f_add (exact F) = (+)" "f_sub (exact F) = (-)"
  "f_mul (exact F) = (*)" "c_zero (exact F) = (0, 0)"
  by (simp_all add: exact_def c_zero_def)

lemma exact_zero_taps_vanish: "zero_taps_vanish (exact F)"
  by (simp add: zero_taps_vanish_def c_add_def c_mul_def)

definition prod_re :: "'r::comm_ring_1 cplx \<Rightarrow> 'r cplx \<Rightarrow> 'r" where
  "prod_re x t = fst x * fst t - snd x * snd t"

definition prod_im :: "'r::comm_ring_1 cplx \<Rightarrow> 'r cplx \<Rightarrow> 'r" where
  "prod_im x t = fst x * snd t + snd x * fst t"

text \<open>The sum of \<open>g\<close> over the first \<open>n\<close> pairs.\<close>

fun dsum :: "('a \<Rightarrow> 'b \<Rightarrow> 'r::comm_ring_1) \<Rightarrow> nat \<Rightarrow> 'a list \<Rightarrow> 'b list \<Rightarrow> 'r" where
  "dsum g 0 xs ts = 0"
| "dsum g (Suc n) [] ts = 0"
| "dsum g (Suc n) (x # xs) [] = 0"
| "dsum g (Suc n) (x # xs) (t # ts) = g x t + dsum g n xs ts"

lemma dsum_Nil [simp]: "dsum g n [] ts = 0" "dsum g n xs [] = 0"
  by (cases n; simp) (cases n; cases xs; simp)

lemma dsum_add: "dsum g (m + n) xs ts = dsum g m xs ts + dsum g n (drop m xs) (drop m ts)"
proof (induction m arbitrary: xs ts)
  case (Suc m)
  then show ?case by (cases xs; cases ts) (simp_all add: add.assoc)
qed simp

lemma dot32_exact:
  assumes "length w = length ts"
  shows "dot32 (exact F) ts w = (dsum prod_re (length ts) w ts, dsum prod_im (length ts) w ts)"
proof -
  have "foldl (mac32 (exact F)) z (zip w ts) =
      (fst z + dsum prod_re (length ts) w ts, snd z + dsum prod_im (length ts) w ts)" for z
    using assms
  proof (induction w ts arbitrary: z rule: list_induct2)
    case (Cons x xs t ts)
    then show ?case by (simp add: mac32_def c_add_def c_mul_def prod_re_def prod_im_def add.assoc)
  qed simp
  then show ?thesis by (simp add: dot32_def)
qed

subsection \<open>Blocks\<close>

lemma upt8: "[0..<8] = [0, 1, 2, 3, 4, 5, 6, 7::nat]" and upt4: "[0..<4] = [0, 1, 2, 3::nat]"
  by (simp_all add: upt_rec)

lemma four_samples:
  assumes "4 \<le> length xs"
  obtains x0 x1 x2 x3 ys where "xs = [x0, x1, x2, x3] @ ys"
proof -
  from assms obtain x0 a where a: "xs = x0 # a" "3 \<le> length a" by (cases xs) auto
  then obtain x1 b where b: "a = x1 # b" "2 \<le> length b" by (cases a) auto
  then obtain x2 c where c: "b = x2 # c" "1 \<le> length c" by (cases b) auto
  then obtain x3 d where "c = x3 # d" by (cases c) auto
  with a b c that show ?thesis by simp
qed

abbreviation "even_lanes v \<equiv> v ! 0 + v ! 2 + v ! 4 + v ! (6::nat)"
abbreviation "odd_lanes v \<equiv> v ! 1 + v ! 3 + v ! 5 + v ! (7::nat)"

lemma eight_floats:
  assumes "length v = 8"
  obtains v0 v1 v2 v3 v4 v5 v6 v7 where "v = [v0, v1, v2, v3, v4, v5, v6, v7]"
  using assms by (auto simp: numeral_eq_Suc length_Suc_conv)

lemma avx_blocks_exact:
  assumes "4 * blk \<le> length xs" "4 * blk \<le> length ts" "length res = 8"
  shows "\<exists>res'. avx_blocks (exact F) blk (flat xs) (flat ts) res =
      (res', flat (drop (4 * blk) xs), flat (drop (4 * blk) ts)) \<and> length res' = 8 \<and>
    even_lanes res' = even_lanes res + dsum prod_re (4 * blk) xs ts \<and> odd_lanes res' = odd_lanes res + dsum prod_im (4 * blk) xs ts"
  using assms
proof (induction blk arbitrary: xs ts res)
  case 0
  then show ?case by simp
next
  case (Suc blk)
  from Suc.prems(1,2) have l: "4 \<le> length xs" "4 \<le> length ts" by simp_all
  from l(1) obtain x0 x1 x2 x3 ys where xs: "xs = [x0, x1, x2, x3] @ ys" by (rule four_samples)
  from l(2) obtain t0 t1 t2 t3 us where ts: "ts = [t0, t1, t2, t3] @ us" by (rule four_samples)
  from Suc.prems(3) obtain v0 v1 v2 v3 v4 v5 v6 v7 where res: "res = [v0, v1, v2, v3, v4, v5, v6, v7]"
    by (rule eight_floats)
  let ?res = "[v0 + prod_re x0 t0, v1 + prod_im x0 t0, v2 + prod_re x1 t1, v3 + prod_im x1 t1, v4 + prod_re x2 t2, v5 + prod_im x2 t2,
    v6 + prod_re x3 t3, v7 + prod_im x3 t3]"
  have step: "avx_blocks (exact F) (Suc blk) (flat xs) (flat ts) res =
      avx_blocks (exact F) blk (flat ys) (flat us) ?res"
    by (simp add: xs ts res Let_def mm256_moveldup_def mm256_movehdup_def mm256_mul_def mm256_add_def
        mm256_swap_def mm256_addsub_def upt8 prod_re_def prod_im_def mult.commute add.commute)
  from Suc.IH [of ys us ?res] Suc.prems obtain res' where r:
    "avx_blocks (exact F) blk (flat ys) (flat us) ?res = (res', flat (drop (4 * blk) ys), flat (drop (4 * blk) us))"
    "length res' = 8" "even_lanes res' = even_lanes ?res + dsum prod_re (4 * blk) ys us"
    "odd_lanes res' = odd_lanes ?res + dsum prod_im (4 * blk) ys us"
    by (auto simp: xs ts)
  have d: "dsum g (4 * Suc blk) xs ts = (g x0 t0 + g x1 t1 + g x2 t2 + g x3 t3) + dsum g (4 * blk) ys us"
    for g :: "'a cplx \<Rightarrow> 'a cplx \<Rightarrow> 'a"
    by (simp add: xs ts numeral_eq_Suc)
  have tl: "drop (4 * Suc blk) xs = drop (4 * blk) ys" "drop (4 * Suc blk) ts = drop (4 * blk) us"
    unfolding xs ts by (simp_all only: drop_append) simp_all
  have lanes: "even_lanes ?res = even_lanes res + (prod_re x0 t0 + prod_re x1 t1 + prod_re x2 t2 + prod_re x3 t3)"
    "odd_lanes ?res = odd_lanes res + (prod_im x0 t0 + prod_im x1 t1 + prod_im x2 t2 + prod_im x3 t3)"
    by (simp_all add: res algebra_simps)
  have "even_lanes res' = even_lanes res + dsum prod_re (4 * Suc blk) xs ts"
    unfolding r(3) d lanes(1) by (rule add.assoc)
  moreover have "odd_lanes res' = odd_lanes res + dsum prod_im (4 * Suc blk) xs ts"
    unfolding r(4) d lanes(2) by (rule add.assoc)
  ultimately show ?case unfolding step tl using r(1,2) by blast
qed

lemma simd_tail_exact:
  assumes "n \<le> length xs" "n \<le> length ts"
  shows "simd_tail (exact F) n (flat xs) (flat ts) r i = (r + dsum prod_re n xs ts, i + dsum prod_im n xs ts)"
  using assms
proof (induction n arbitrary: xs ts r i)
  case (Suc n)
  then obtain x ys t us where "xs = x # ys" "ts = t # us" by (cases xs; cases ts) auto
  with Suc show ?case by (simp add: Let_def numeral_2_eq_2 prod_re_def prod_im_def algebra_simps)
qed simp

lemma avx_dot_exact:
  assumes "n \<le> length xs" "n \<le> length ts"
  shows "avx_dot (exact F) xs ts n = (dsum prod_re n xs ts, dsum prod_im n xs ts)"
proof -
  let ?b = "n div 4"
  have b: "4 * ?b \<le> length xs" "4 * ?b \<le> length ts" using assms by linarith+
  have t: "n mod 4 \<le> length (drop (4 * ?b) xs)" "n mod 4 \<le> length (drop (4 * ?b) ts)"
    using assms by (simp_all add: minus_mod_eq_mult_div [symmetric] le_diff_conv2 mod_less_eq_dividend)
  from avx_blocks_exact [OF b, of "replicate 8 0" F] obtain v where
    v: "avx_blocks (exact F) ?b (flat xs) (flat ts) (replicate 8 0) =
      (v, flat (drop (4 * ?b) xs), flat (drop (4 * ?b) ts))"
    "even_lanes v = dsum prod_re (4 * ?b) xs ts" "odd_lanes v = dsum prod_im (4 * ?b) xs ts" by auto
  have "4 * ?b + n mod 4 = n" by simp
  with dsum_add [of prod_re "4 * ?b" "n mod 4" xs ts] dsum_add [of prod_im "4 * ?b" "n mod 4" xs ts]
  have "dsum prod_re n xs ts = dsum prod_re (4 * ?b) xs ts + dsum prod_re (n mod 4) (drop (4 * ?b) xs) (drop (4 * ?b) ts)"
    "dsum prod_im n xs ts = dsum prod_im (4 * ?b) xs ts + dsum prod_im (n mod 4) (drop (4 * ?b) xs) (drop (4 * ?b) ts)"
    by metis+
  with v simd_tail_exact [OF t, of F 0 0] show ?thesis
    by (simp add: avx_dot_def Let_def c_add_def add_ac)
qed

subsection \<open>NEON\<close>

abbreviation "lanes4 v \<equiv> v ! 0 + v ! 1 + v ! 2 + v ! (3::nat)"

lemma four_floats:
  assumes "length v = 4"
  obtains v0 v1 v2 v3 where "v = [v0, v1, v2, v3]"
  using assms by (auto simp: numeral_eq_Suc length_Suc_conv)

lemma neon_step_exact:
  assumes "4 \<le> length xs" "4 \<le> length ts" "length R = 4" "length I = 4"
  shows "\<exists>R' I'. neon_step (exact F) (flat xs) (flat ts) (R, I) = (R', I') \<and> length R' = 4 \<and> length I' = 4 \<and>
    lanes4 R' = lanes4 R + dsum prod_re 4 xs ts \<and> lanes4 I' = lanes4 I + dsum prod_im 4 xs ts"
proof -
  from assms(1) obtain x0 x1 x2 x3 ys where xs: "xs = [x0, x1, x2, x3] @ ys" by (rule four_samples)
  from assms(2) obtain t0 t1 t2 t3 us where ts: "ts = [t0, t1, t2, t3] @ us" by (rule four_samples)
  from assms(3) obtain r0 r1 r2 r3 where R: "R = [r0, r1, r2, r3]" by (rule four_floats)
  from assms(4) obtain i0 i1 i2 i3 where I: "I = [i0, i1, i2, i3]" by (rule four_floats)
  show ?thesis
    by (simp add: neon_step_def vld2q_def vmlaq_def vmlsq_def upt4 xs ts R I numeral_eq_Suc prod_re_def prod_im_def
        algebra_simps)
qed

lemma neon_blocks_exact:
  assumes "8 * blk \<le> length xs" "8 * blk \<le> length ts" "length R = 4" "length I = 4"
  shows "\<exists>R' I'. neon_blocks (exact F) blk (flat xs) (flat ts) (R, I) =
      ((R', I'), flat (drop (8 * blk) xs), flat (drop (8 * blk) ts)) \<and> length R' = 4 \<and> length I' = 4 \<and>
    lanes4 R' = lanes4 R + dsum prod_re (8 * blk) xs ts \<and> lanes4 I' = lanes4 I + dsum prod_im (8 * blk) xs ts"
  using assms
proof (induction blk arbitrary: xs ts R I)
  case 0
  then show ?case by simp
next
  case (Suc blk)
  then have l: "4 \<le> length xs" "4 \<le> length ts" "4 \<le> length (drop 4 xs)" "4 \<le> length (drop 4 ts)"
    "8 * blk \<le> length (drop 8 xs)" "8 * blk \<le> length (drop 8 ts)" by auto
  from neon_step_exact [OF l(1,2) Suc.prems(3,4), of F] obtain R1 I1 where
    s1: "neon_step (exact F) (flat xs) (flat ts) (R, I) = (R1, I1)" "length R1 = 4" "length I1 = 4"
    "lanes4 R1 = lanes4 R + dsum prod_re 4 xs ts" "lanes4 I1 = lanes4 I + dsum prod_im 4 xs ts" by blast
  from neon_step_exact [OF l(3,4) s1(2,3), of F] obtain R2 I2 where
    s2: "neon_step (exact F) (flat (drop 4 xs)) (flat (drop 4 ts)) (R1, I1) = (R2, I2)" "length R2 = 4"
    "length I2 = 4" "lanes4 R2 = lanes4 R1 + dsum prod_re 4 (drop 4 xs) (drop 4 ts)"
    "lanes4 I2 = lanes4 I1 + dsum prod_im 4 (drop 4 xs) (drop 4 ts)" by blast
  from Suc.IH [OF l(5,6) s2(2,3)] obtain R3 I3 where
    s3: "neon_blocks (exact F) blk (flat (drop 8 xs)) (flat (drop 8 ts)) (R2, I2) =
      ((R3, I3), flat (drop (8 * blk) (drop 8 xs)), flat (drop (8 * blk) (drop 8 ts)))" "length R3 = 4" "length I3 = 4"
    "lanes4 R3 = lanes4 R2 + dsum prod_re (8 * blk) (drop 8 xs) (drop 8 ts)"
    "lanes4 I3 = lanes4 I2 + dsum prod_im (8 * blk) (drop 8 xs) (drop 8 ts)" by blast
  have flat8: "drop 8 (flat zs) = flat (drop 4 zs)" "drop 16 (flat zs) = flat (drop 8 zs)" for zs :: "'a cplx list"
    using flat_drop [of 4 zs] flat_drop [of 8 zs] by simp_all
  have sum: "dsum g (8 * Suc blk) xs ts =
      dsum g 4 xs ts + dsum g 4 (drop 4 xs) (drop 4 ts) + dsum g (8 * blk) (drop 8 xs) (drop 8 ts)"
    for g :: "'a cplx \<Rightarrow> 'a cplx \<Rightarrow> 'a"
    using dsum_add [of g 4 "4 + 8 * blk" xs ts] dsum_add [of g 4 "8 * blk" "drop 4 xs" "drop 4 ts"]
    by (simp add: add.assoc)
  have "neon_blocks (exact F) (Suc blk) (flat xs) (flat ts) (R, I) =
      ((R3, I3), flat (drop (8 * Suc blk) xs), flat (drop (8 * Suc blk) ts))"
    using s1(1) s2(1) s3(1) by (simp add: flat8 Let_def add.commute)
  moreover have "lanes4 R3 = lanes4 R + dsum prod_re (8 * Suc blk) xs ts" "lanes4 I3 = lanes4 I + dsum prod_im (8 * Suc blk) xs ts"
    unfolding sum s3(4,5) s2(4,5) s1(4,5) by (simp_all add: add_ac)
  ultimately show ?case using s3(2,3) by blast
qed

lemma neon_dot_exact:
  assumes "n \<le> length xs" "n \<le> length ts"
  shows "neon_dot (exact F) xs ts n = (dsum prod_re n xs ts, dsum prod_im n xs ts)"
proof -
  let ?b = "n div 8"
  have b: "8 * ?b \<le> length xs" "8 * ?b \<le> length ts" using assms by linarith+
  have t: "n mod 8 \<le> length (drop (8 * ?b) xs)" "n mod 8 \<le> length (drop (8 * ?b) ts)"
    using assms by (simp_all add: minus_mod_eq_mult_div [symmetric] le_diff_conv2 mod_less_eq_dividend)
  from neon_blocks_exact [OF b, of "replicate 4 0" "replicate 4 0" F] obtain R I where
    v: "neon_blocks (exact F) ?b (flat xs) (flat ts) (replicate 4 0, replicate 4 0) =
      ((R, I), flat (drop (8 * ?b) xs), flat (drop (8 * ?b) ts))"
    "lanes4 R = dsum prod_re (8 * ?b) xs ts" "lanes4 I = dsum prod_im (8 * ?b) xs ts" by auto
  have "8 * ?b + n mod 8 = n" by simp
  with dsum_add [of prod_re "8 * ?b" "n mod 8" xs ts] dsum_add [of prod_im "8 * ?b" "n mod 8" xs ts]
  have "dsum prod_re n xs ts = dsum prod_re (8 * ?b) xs ts + dsum prod_re (n mod 8) (drop (8 * ?b) xs) (drop (8 * ?b) ts)"
    "dsum prod_im n xs ts = dsum prod_im (8 * ?b) xs ts + dsum prod_im (n mod 8) (drop (8 * ?b) xs) (drop (8 * ?b) ts)"
    by metis+
  with v simd_tail_exact [OF t, of F "0 + vpadd_sum (exact F) R" "0 + vpadd_sum (exact F) I"] show ?thesis
    by (simp add: neon_dot_def vpadd_sum_def add_ac)
qed

end
