(* ===== verification/Xlating_Properties.thy ===== *)
theory Xlating_Properties
  imports Complex_Main Xlating_Simd
begin

text \<open>
  The properties of the frequency xlating filter: what a freshly created filter represents, the
  streaming behaviour of the fixed-point and of the float kernels, the native float kernel on one block,
  the agreement of the three float kernels in exact arithmetic, and the exactness of the fixed-point
  sums.
\<close>

subsection \<open>Vectorised kernels\<close>

lemma dsum_take: "dsum g n xs ts = dsum g n (take n xs) (take n ts)"
proof (induction n arbitrary: xs ts)
  case (Suc n)
  then show ?case by (cases xs; cases ts) auto
qed simp

lemma dsum_zero: "(\<And>x. g x z = 0) \<Longrightarrow> dsum g k xs (replicate k z @ ts) = 0"
  by (induction k arbitrary: xs) (simp, case_tac xs, auto)

lemma kernel_law_simd:
  fixes F :: "'r::comm_ring_1 fops"
  assumes dot: "\<And>n xs ts. n \<le> length xs \<Longrightarrow> n \<le> length ts \<Longrightarrow> dot xs ts n = (dsum prod_re n xs ts, dsum prod_im n xs ts)"
  shows "kernel_law (exact F) (simd_dot_at dot) (dot32 (exact F))"
  unfolding kernel_law_def
proof (intro allI impI, elim conjE)
  fix f :: "'r xlating" and ts w :: "'r cplx list" and cur :: nat
  assume al: "alignment_cf32 f = 32" and rows: "taps_cf32 f = aligned_taps_cf32 (exact F) 4 ts"
    and tl: "taps_len f = length ts" and w: "take (length w) (working_buffer_cf32 f) = w"
    "length w \<le> length (working_buffer_cf32 f)" "cur + length ts \<le> length w"
  let ?a = "cur mod 4" and ?L = "length ts"
  let ?row = "replicate ?a (0, 0) @ ts @ replicate (3 - ?a) (0, 0)"
  let ?buf = "drop (cur - ?a) (working_buffer_cf32 f)"
  have le: "?a \<le> cur" by simp
  have row: "nth_opt (taps_cf32 f) ?a = Some ?row" using aligned_row [of ?a "exact F" ts] rows by simp
  have fits: "(cur - ?a) + (?L + ?a) \<le> length (working_buffer_cf32 f)" "?L + ?a \<le> length ?row"
    using w(2,3) le by simp_all
  have win: "take ?L (drop ?a ?buf) = take ?L (drop cur w)"
  proof -
    have "take ?L (drop cur (take (length w) (working_buffer_cf32 f))) = take ?L (drop cur (working_buffer_cf32 f))"
      using w(3) by (simp add: drop_take min_def)
    then show ?thesis using w(1) le by simp
  qed
  have sum: "dsum g (?L + ?a) ?buf ?row = dsum g ?L (take ?L (drop cur w)) ts"
    if "\<And>x. g x (0, 0) = 0" for g :: "'r cplx \<Rightarrow> 'r cplx \<Rightarrow> 'r"
  proof -
    have "dsum g (?a + ?L) ?buf ?row = dsum g ?L (drop ?a ?buf) (ts @ replicate (3 - ?a) (0, 0))"
      using dsum_add [of g ?a ?L ?buf ?row] dsum_zero [of g "(0, 0)", OF that] by simp
    also have "\<dots> = dsum g ?L (take ?L (drop cur w)) ts"
      using dsum_take [of g ?L "drop ?a ?buf" "ts @ replicate (3 - ?a) (0, 0)"] win by simp
    finally show ?thesis by (simp add: add.commute)
  qed
  have "dot ?buf ?row (?L + ?a) = dot32 (exact F) ts (take ?L (drop cur w))"
    using dot [of "?L + ?a" ?buf ?row] fits sum [of prod_re] sum [of prod_im] w(3)
    by (simp add: dot32_exact prod_re_def prod_im_def)
  then show "simd_dot_at dot f cur = Some (dot32 (exact F) ts (take ?L (drop cur w)))"
    using row fits tl align_index_mod [OF al, of cur] by (simp add: simd_dot_at_def Let_def)
qed

lemma kernel_law_avx: "kernel_law (exact F) (simd_dot_at (avx_dot (exact F))) (dot32 (exact F))"
  by (rule kernel_law_simd) (rule avx_dot_exact)

lemma kernel_law_neon: "kernel_law (exact F) (simd_dot_at (neon_dot (exact F))) (dot32 (exact F))"
  by (rule kernel_law_simd) (rule neon_dot_exact)

lemma kernel_law_plain: "kernel_law (exact F) (dot_at_cf32 (exact F)) (dot32 (exact F))"
  by (rule kernel_law_native) (rule exact_zero_taps_vanish)

subsection \<open>The float kernels as stream filters\<close>

text \<open>
  The native and the NEON kernel divide the phase by its modulus after every block, the AVX kernel does
  not.  In exact arithmetic the phases are powers of \<open>phase_incr\<close>; on the unit circle, where the
  increment lies, the division does nothing.
\<close>

definition phase_turns :: "'r::comm_ring_1 fops \<Rightarrow> 'r cplx \<Rightarrow> nat \<Rightarrow> 'r cplx" where
  "phase_turns F incr n = ((\<lambda>p. c_mul (exact F) p incr) ^^ n) (1, 0)"

definition unit_phases :: "'r::comm_ring_1 fops \<Rightarrow> simd \<Rightarrow> 'r cplx \<Rightarrow> bool" where
  "unit_phases F V incr \<longleftrightarrow> V = Simd_avx \<or> (\<forall>n. c_normalize (exact F) (phase_turns F incr n) = phase_turns F incr n)"

definition step32 :: "simd \<Rightarrow> 'r::comm_ring_1 fops \<Rightarrow> 'r cplx list \<Rightarrow> 'r xlating \<Rightarrow> ('r cplx list \<times> 'r xlating) option" where
  "step32 V F xs f = Option.bind (fill_cf32 xs f) (process_optimized_cf32 V (exact F) (length xs))"

definition spec32 :: "'r::comm_ring_1 fops \<Rightarrow> 'r cplx list \<Rightarrow> 'r fir32 \<Rightarrow> 'r cplx list \<times> 'r fir32" where
  "spec32 F xs b =
     (case ref32 (exact F) (dot32 (exact F) (b_taps b)) b (b_pend b @ xs) of
        (os, p, r) \<Rightarrow> (os, b\<lparr>b_phase := p, b_pend := r\<rparr>))"

definition rep_build :: "simd \<Rightarrow> 'r::comm_ring_1 fops \<Rightarrow> 'r xlating \<Rightarrow> 'r fir32 \<Rightarrow> bool" where
  "rep_build V F f b \<longleftrightarrow> rep32 (exact F) f b \<and> unit_phases F V (b_incr b) \<and> (\<exists>n. b_phase b = phase_turns F (b_incr b) n)"

lemma fir_ref_phase:
  assumes "0 < D" "0 < L" "fir_ref L D out adv p xs = (os, p1, r)"
  shows "p1 = (adv ^^ length os) p"
  using assms
proof (induction L D out adv p xs arbitrary: os rule: fir_ref.induct)
  case (1 L D out adv p xs)
  show ?case
  proof (cases "length xs < L")
    case True
    with 1(4) show ?thesis by simp
  next
    case False
    with 1(2,3) have c: "\<not> (length xs < L \<or> D = 0 \<or> xs = [])" "L \<le> length xs" by auto
    from 1(4) obtain os' where os: "fir_ref L D out adv (adv p) (drop D xs) = (os', p1, r)" "os = out (take L xs) p # os'"
      by (auto simp: fir_ref_step [OF 1(2,3) c(2)] apfst_def map_prod_def split: prod.splits)
    from 1(1) [OF c(1) 1(2,3) os(1)] os(2) show ?thesis by (simp add: funpow_swap1)
  qed
qed

lemma phase_turns_add: "((\<lambda>p. c_mul (exact F) p incr) ^^ k) (phase_turns F incr n) = phase_turns F incr (k + n)"
  by (simp add: phase_turns_def funpow_add)

lemma step32_law:
  assumes rep: "rep_build V F f b" and n: "length xs \<le> b_room b" and spec: "spec32 F xs b = (os, b')"
  shows "\<exists>f'. step32 V F xs f = Some (os, f') \<and> rep_build V F f' b' \<and> b_room b' = b_room b"
proof -
  obtain p r where ref: "ref32 (exact F) (dot32 (exact F) (b_taps b)) b (b_pend b @ xs) = (os, p, r)"
    and b': "b' = b\<lparr>b_phase := p, b_pend := r\<rparr>"
    using spec by (auto simp: spec32_def split: prod.splits)
  from rep have r32: "rep32 (exact F) f b" and unit: "unit_phases F V (b_incr b)" and D: "0 < b_dec b" "0 < length (b_taps b)"
    by (auto simp: rep_build_def rep32_def)
  from rep obtain k where k: "b_phase b = phase_turns F (b_incr b) k" by (auto simp: rep_build_def)
  have p: "p = phase_turns F (b_incr b) (length os + k)"
    using fir_ref_phase [OF D ref [unfolded ref32_def]] by (simp add: k phase_turns_add)
  have fin: "V = Simd_avx \<or> c_normalize (exact F) p = p" using unit p by (auto simp: unit_phases_def)
  have "\<exists>f'. step32 V F xs f = Some (os, f') \<and> rep32 (exact F) f' b'"
  proof (cases V)
    case Simd_none
    then have "(if t then p else c_normalize (exact F) p) = p" for t using fin by simp
    from fill_process_ref [OF kernel_law_plain r32 n ref, of "c_normalize (exact F)", unfolded this] b' Simd_none show ?thesis
      by (auto simp: step32_def process_native_cf32_with)
  next
    case Simd_avx
    from fill_process_ref [OF kernel_law_avx r32 n ref, of "\<lambda>p. p"] b' Simd_avx show ?thesis
      by (auto simp: step32_def process_avx_cf32_with)
  next
    case Simd_neon
    then have "(if t then p else c_normalize (exact F) p) = p" for t using fin by simp
    from fill_process_ref [OF kernel_law_neon r32 n ref, of "c_normalize (exact F)", unfolded this] b' Simd_neon show ?thesis
      by (auto simp: step32_def process_neon_cf32_with)
  qed
  with unit p b' show ?thesis by (auto simp: rep_build_def)
qed

lemma spec32_append:
  assumes "rep_build V F f b" "spec32 F xs b = (os, b1)"
  shows "spec32 F (xs @ ys) b = apfst ((@) os) (spec32 F ys b1)"
proof -
  obtain p r where ref: "ref32 (exact F) (dot32 (exact F) (b_taps b)) b (b_pend b @ xs) = (os, p, r)"
    and b1: "b1 = b\<lparr>b_phase := p, b_pend := r\<rparr>"
    using assms(2) by (auto simp: spec32_def split: prod.splits)
  from assms(1) have D: "0 < b_dec b" "b_dec b \<le> length (b_taps b)" by (auto simp: rep_build_def rep32_def)
  from fir_ref_append [OF D ref [unfolded ref32_def], of ys] b1 show ?thesis
    by (auto simp: spec32_def ref32_def split: prod.splits)
qed

lemma spec32_Nil: "rep_build V F f b \<Longrightarrow> spec32 F [] b = ([], b)"
  by (simp add: rep_build_def rep32_def spec32_def ref32_def)

interpretation fl: stream_filter "rep_build V F" b_room "step32 V F" "spec32 F"
  for V :: simd and F :: "'r::comm_ring_1 fops"
  by unfold_locales (rule step32_law spec32_Nil spec32_append; assumption)+

text \<open>The condition holds in the reals, whatever the angle.\<close>

lemma real_unit_phases:
  fixes F :: "real fops"
  assumes "\<And>x y. f_hypot F x y = sqrt (x\<^sup>2 + y\<^sup>2)" "\<And>x y. f_div F x y = x / y" "(fst incr)\<^sup>2 + (snd incr)\<^sup>2 = 1"
  shows "unit_phases F V incr"
proof -
  have "(fst (phase_turns F incr n))\<^sup>2 + (snd (phase_turns F incr n))\<^sup>2 = 1" for n
  proof (induction n)
    case (Suc n)
    obtain a b where t: "phase_turns F incr n = (a, b)" by (cases "phase_turns F incr n")
    obtain x y where i: "incr = (x, y)" by (cases incr)
    have "phase_turns F incr (Suc n) = (a * x - b * y, a * y + b * x)"
      using t i by (simp add: phase_turns_def c_mul_def algebra_simps)
    moreover have "(a * x - b * y)\<^sup>2 + (a * y + b * x)\<^sup>2 = (a\<^sup>2 + b\<^sup>2) * (x\<^sup>2 + y\<^sup>2)" by algebra
    ultimately show ?case using Suc assms(3) t i by simp
  qed (simp add: phase_turns_def)
  then show ?thesis
    using assms(1,2) by (simp add: unit_phases_def c_normalize_def exact_def Let_def)
qed

subsection \<open>Fresh filters\<close>

definition filter_taps :: "'f fops \<Rightarrow> 'f list \<Rightarrow> int \<Rightarrow> nat \<Rightarrow> 'f cplx list" where
  "filter_taps F taps center_freq sampling_freq =
     reverse_taps (bandpass_taps F taps (f_angle F center_freq (int sampling_freq)))"

definition filter_incr :: "'f fops \<Rightarrow> nat \<Rightarrow> int \<Rightarrow> nat \<Rightarrow> 'f cplx" where
  "filter_incr F D center_freq sampling_freq =
     f_expi F (f_mul F (f_neg F (f_angle F center_freq (int sampling_freq))) (f_of_int F (int D)))"

definition tap16 :: "'f fops \<Rightarrow> 'f cplx \<Rightarrow> int \<times> int" where
  "tap16 F t = (f_to_i16 F 32768 (fst t), f_to_i16 F 32768 (snd t))"

lemma length_reverse_taps [simp]: "length (reverse_taps ts) = length ts"
proof -
  have "length (foldl swap_ends ts is) = length ts" for "is"
    by (induction "is" arbitrary: ts) (auto simp: swap_ends_def Let_def)
  then show ?thesis unfolding reverse_taps_def by blast
qed

lemma length_filter_taps [simp]: "length (filter_taps F taps c s) = length taps"
  by (simp add: filter_taps_def bandpass_taps_def)

definition fresh16 :: "'f fops \<Rightarrow> nat \<Rightarrow> 'f list \<Rightarrow> int \<Rightarrow> nat \<Rightarrow> nat \<Rightarrow> fir16" where
  "fresh16 F D taps c s m =
     \<lparr>a_taps = map (tap16 F) (filter_taps F taps c s), a_dec = D, a_room = m div 2,
      a_incr = (f_to_i16 F 32767 (fst (filter_incr F D c s)), f_to_i16 F 32767 (snd (filter_incr F D c s))),
      a_phase = (32767, 0), a_pend = replicate (length taps - 1) (0, 0)\<rparr>"

definition fresh32 :: "'f fops \<Rightarrow> nat \<Rightarrow> 'f list \<Rightarrow> int \<Rightarrow> nat \<Rightarrow> nat \<Rightarrow> 'f fir32" where
  "fresh32 F D taps c s m =
     \<lparr>b_taps = filter_taps F taps c s, b_dec = D, b_room = m div 2, b_incr = filter_incr F D c s,
      b_phase = (f_one F, f_zero F), b_pend = replicate (length taps - 1) (c_zero F)\<rparr>"

lemma flat_tap_cs16: "concat (map (tap_cs16 F) ts) = flat (map (tap16 F) ts)"
  by (induction ts) (simp_all add: tap_cs16_def tap16_def)

lemma aligned_numbers: "number_of_aligned 32 8 = 4" "number_of_aligned 4 2 = 2"
  by (simp_all add: number_of_aligned_def)

lemma created_filter:
  assumes "create_frequency_xlating_filter F ok D taps c s m = Some (Inr f)" "D \<le> length taps"
  shows "rep16 f (fresh16 F D taps c s m)" "rep32 F f (fresh32 F D taps c s m)"
proof -
  from assms have D: "0 < D" "taps \<noteq> []"
    by (auto simp: create_frequency_xlating_filter_def Let_def split: if_splits)
  let ?ts = "filter_taps F taps c s"
  from assms(1) have f: "decimation f = D" "taps_len f = length taps" "alignment_cs16 f = 4" "alignment_cf32 f = 32"
    "taps_cs16 f = aligned_taps_cs16 F 2 ?ts" "taps_cf32 f = aligned_taps_cf32 F 4 ?ts"
    "history_offset f = length taps - 1" "working_buffer_cs16 f = replicate (2 * (m div 2 + (length taps - 1))) 0"
    "working_buffer_cf32 f = replicate (m div 2 + (length taps - 1)) (c_zero F)"
    "output_len_sampls f = m div 2 div D + 1" "phase f = (f_one F, f_zero F)" "phase_incr f = filter_incr F D c s"
    "phase_real f = 32767" "phase_imag f = 0" "phase_incr_real f = f_to_i16 F 32767 (fst (filter_incr F D c s))"
    "phase_incr_imag f = f_to_i16 F 32767 (snd (filter_incr F D c s))"
    by (auto simp: create_frequency_xlating_filter_def Let_def filter_taps_def filter_incr_def
        aligned_numbers split: if_splits)
  have rows: "aligned_taps_cs16 F 2 ?ts = (flat (map (tap16 F) ?ts) @ replicate 2 0) #
      [[0] @ flat (map (tap16 F) ?ts) @ [0]]"
    by (simp add: aligned_taps_cs16_def flat_tap_cs16 numeral_2_eq_2)
  show "rep16 f (fresh16 F D taps c s m)"
    using f D assms(2) by (simp add: rep16_def fresh16_def rows)
  show "rep32 F f (fresh32 F D taps c s m)"
    using f D assms(2) by (simp add: rep32_def fresh32_def)
qed

subsection \<open>Properties\<close>

text \<open>Integer arithmetic as an instance of the floating-point parameter, for the concrete runs.\<close>

definition demo_ops :: "int fops" where
  "demo_ops = \<lparr>f_zero = 0, f_one = 1, f_add = (+), f_sub = (-), f_neg = uminus, f_mul = (*),
     f_div = \<lambda>a b. a, f_hypot = \<lambda>a b. 1, f_of_int = \<lambda>i. i, f_half = \<lambda>i. i div 2, f_angle = \<lambda>c s. 0,
     f_expi = \<lambda>t. (1, 0), f_to_i16 = \<lambda>k x. 8192 * x\<rparr>"

lemma demo_created:
  "\<exists>f. create_frequency_xlating_filter demo_ops (\<lambda>_. True) 2 [1, 2, 1] 0 48000 8 = Some (Inr f)"
  by (simp add: create_frequency_xlating_filter_def Let_def)

lemma demo_incr: "filter_incr demo_ops 2 0 48000 = (1, 0)"
  by (simp add: filter_incr_def demo_ops_def)

lemma demo_incr16:
  "f_to_i16 demo_ops 32767 (fst (filter_incr demo_ops 2 0 48000)) = 8192"
  "f_to_i16 demo_ops 32767 (snd (filter_incr demo_ops 2 0 48000)) = 0"
  unfolding demo_incr by (simp_all add: demo_ops_def)

lemma demo_history:
  "replicate (3 - 1) ((0, 0) :: int \<times> int) @ concat [[(a, b), (c, d), (e, g)], [(h, i)], [(j, k), (l, n)]] =
    [(0, 0), (0, 0), (a, b), (c, d), (e, g), (h, i), (j, k), (l, n)]"
  "length [1, 2, 1 :: int] = 3"
  by (simp_all add: eval_nat_numeral)

lemmas demo_values = demo_incr16 demo_history

text \<open>C4.  The fixed-point filter is one stream.  A filter created with a positive decimation not
  above the number of taps, fed with any blocks that fit its buffer, produces in all exactly what the
  decimating FIR filter with a rotating phase computes on the concatenation of the blocks behind
  \<open>taps_len - 1\<close> zero samples: no output is lost, repeated or disturbed at a block border, no access
  leaves a buffer, and the result does not depend on how the stream was cut.\<close>

theorem fixed_point_stream:
  assumes "create_frequency_xlating_filter F ok D taps c s m = Some (Inr f)" "D \<le> length taps"
    and "\<forall>b \<in> set blocks. length b \<le> m div 2"
  shows "\<exists>f'. run_blocks (\<lambda>xs g. map_option (apfst fst) (process_native_cs16_cs16 (flat xs) g)) blocks f =
    Some (flat (fst (fir_ref (length taps) D (out16 (map (tap16 F) (filter_taps F taps c s)))
      (\<lambda>p. rotate_cs16 p (f_to_i16 F 32767 (fst (filter_incr F D c s)), f_to_i16 F 32767 (snd (filter_incr F D c s))))
      (32767, 0) (replicate (length taps - 1) (0, 0) @ concat blocks))), f')"
proof -
  have "step16 = (\<lambda>xs g :: 'a xlating. map_option (apfst fst) (process_native_cs16_cs16 (flat xs) g))"
    by (intro ext) (simp add: step16_def)
  moreover have "\<exists>f'. run_blocks step16 blocks f = Some (fst (spec16 (concat blocks) (fresh16 F D taps c s m)), f')"
    using fx.run_blocks_concat [OF created_filter(1) [OF assms(1,2)], of blocks] assms(3)
    by (auto simp: fresh16_def)
  moreover have "fst (spec16 xs a) = flat (fst (ref16 a (a_pend a @ xs)))" for xs a
    by (simp add: spec16_def split: prod.splits)
  ultimately show ?thesis by (simp add: ref16_def fresh16_def)
qed

theorem fixed_point_stream_witness:
  "\<exists>f f'. create_frequency_xlating_filter demo_ops (\<lambda>_. True) 2 [1, 2, 1] 0 48000 8 = Some (Inr f) \<and>
    run_blocks (\<lambda>xs g. map_option (apfst fst) (process_native_cs16_cs16 (flat xs) g))
      [[(1000, 0), (2000, 0), (3000, 0)], [(4000, 8)], [(0, 5000), (6000, 0)]] f =
    Some (flat (fst (fir_ref 3 2 (out16 (map (tap16 demo_ops) (filter_taps demo_ops [1, 2, 1] 0 48000)))
      (\<lambda>p. rotate_cs16 p (8192, 0)) (32767, 0)
      [(0, 0), (0, 0), (1000, 0), (2000, 0), (3000, 0), (4000, 8), (0, 5000), (6000, 0)])), f')"
proof -
  from demo_created obtain f where f:
    "create_frequency_xlating_filter demo_ops (\<lambda>_. True) 2 [1, 2, 1] 0 48000 8 = Some (Inr f)" ..
  let ?blocks = "[[(1000, 0), (2000, 0), (3000, 0)], [(4000, 8)], [(0, 5000), (6000, 0)]] :: (int \<times> int) list list"
  have fits: "2 \<le> length [1, 2, 1 :: int]" "\<forall>b \<in> set ?blocks. length b \<le> 8 div 2" by simp_all
  from f fixed_point_stream [OF f fits] show ?thesis unfolding demo_values by blast
qed

text \<open>
  Every float filter is one stream, in exact arithmetic: the blocks fed to a kernel produce what the
  decimating FIR filter computes on their concatenation, although the vectorised kernels read from an
  aligned address, through shifted tap tables and in four lanes.
\<close>

lemma float_stream:
  fixes F :: "'r::comm_ring_1 fops"
  assumes "create_frequency_xlating_filter (exact F) ok D taps c s m = Some (Inr f)" "D \<le> length taps"
    and "\<forall>b \<in> set blocks. length b \<le> m div 2" "unit_phases F V (filter_incr (exact F) D c s)"
  shows "\<exists>f'. run_blocks (step32 V F) blocks f =
    Some (fst (fir_ref (length taps) D (out32 (exact F) (dot32 (exact F) (filter_taps (exact F) taps c s)))
      (\<lambda>p. c_mul (exact F) p (filter_incr (exact F) D c s)) (1, 0)
      (replicate (length taps - 1) (0, 0) @ concat blocks)), f')"
proof -
  have "phase_turns F i 0 = (1, 0)" for i by (simp add: phase_turns_def)
  then have "\<exists>n. (1, 0) = phase_turns F i n" for i by metis
  then have "rep_build V F f (fresh32 (exact F) D taps c s m)"
    using created_filter(2) [OF assms(1,2)] assms(4) unfolding rep_build_def by (simp add: fresh32_def)
  from fl.run_blocks_concat [OF this, of blocks] assms(3)
  have "\<exists>f'. run_blocks (step32 V F) blocks f =
      Some (fst (spec32 F (concat blocks) (fresh32 (exact F) D taps c s m)), f')"
    by (auto simp: fresh32_def)
  moreover have "fst (spec32 F xs b) = fst (ref32 (exact F) (dot32 (exact F) (b_taps b)) b (b_pend b @ xs))" for xs b
    by (simp add: spec32_def split: prod.splits)
  ultimately show ?thesis by (simp add: ref32_def fresh32_def)
qed



text \<open>The native float kernel on one block, for the rounding of any floating-point arithmetic in
  which zero taps vanish.  \<open>process_native_cu8_cf32\<close> converts the bytes, produces what the decimating
  FIR filter computes from the history and the new samples, keeps the unconsumed samples as history
  and leaves the phase normalised, once per block that produced an output.\<close>

theorem native_float_block:
  assumes "zero_taps_vanish F" "rep32 F f b" "length input div 2 \<le> b_room b"
    and "fir_ref (length (b_taps b)) (b_dec b) (out32 F (dot32 F (b_taps b))) (\<lambda>p. c_mul F p (b_incr b)) (b_phase b)
      (b_pend b @ samples_cf32 (sample_cu8_cf32 F) input) = (os, p, r)"
  shows "\<exists>f'. process_native_cu8_cf32 F input f = Some (os, f') \<and>
    rep32 F f' (b\<lparr>b_phase := (if length (b_pend b) + length input div 2 < length (b_taps b) then p
      else c_normalize F p), b_pend := r\<rparr>)"
proof -
  let ?xs = "samples_cf32 (sample_cu8_cf32 F) input"
  have len: "length ?xs = length input div 2" by (simp add: samples_cf32_def)
  have "length ?xs \<le> b_room b" using assms(3) len by simp
  from fill_process_ref [OF kernel_law_native [OF assms(1)] assms(2) this, of os p r "c_normalize F"] assms(4)
  show ?thesis
    by (auto simp: process_native_cu8_cf32_def process_native_cf32_with ref32_def len)
qed

theorem native_float_block_witness:
  "\<exists>f os f'. create_frequency_xlating_filter demo_ops (\<lambda>_. True) 2 [1, 2, 1] 0 48000 8 = Some (Inr f) \<and>
    process_native_cu8_cf32 demo_ops [1, 2, 3, 4, 5, 6] f = Some (os, f')"
proof -
  from demo_created obtain f where f:
    "create_frequency_xlating_filter demo_ops (\<lambda>_. True) 2 [1, 2, 1] 0 48000 8 = Some (Inr f)" ..
  have r: "rep32 demo_ops f (fresh32 demo_ops 2 [1, 2, 1] 0 48000 8)"
    by (rule created_filter(2) [OF f]) simp
  have z: "zero_taps_vanish demo_ops"
    by (simp add: zero_taps_vanish_def demo_ops_def c_add_def c_mul_def c_zero_def)
  let ?b = "fresh32 demo_ops 2 [1, 2, 1] 0 48000 8"
  obtain os p rs where "fir_ref (length (b_taps ?b)) (b_dec ?b) (out32 demo_ops (dot32 demo_ops (b_taps ?b)))
      (\<lambda>p. c_mul demo_ops p (b_incr ?b)) (b_phase ?b)
      (b_pend ?b @ samples_cf32 (sample_cu8_cf32 demo_ops) [1, 2, 3, 4, 5, 6]) = (os, p, rs)"
    by (rule prod_cases3)
  from native_float_block [OF z r _ this] f show ?thesis by (auto simp: fresh32_def)
qed

end
