(* ===== verification/Xlating_Arithmetic.thy ===== *)
theory Xlating_Arithmetic
  imports Xlating_Fixed
begin

text \<open>
  What the fixed-point arithmetic and the reversal of the taps compute: the inner loop is the exact
  inner product with one rounding and one saturation at its end, the rotation neither wraps nor leaves
  the sixteen bits, and the loop that swaps the taps in place is the reversal for an odd number of taps.
\<close>

subsection \<open>Saturation\<close>

definition clamp16 :: "int \<Rightarrow> int" where
  "clamp16 v = max (- 32768) (min 32767 v)"

lemma clamp16_range [simp]: "in_i16 (clamp16 v)"
  by (simp add: clamp16_def in_i16_def)

lemma saturate_clamp:
  assumes "- (2 ^ 46) \<le> v" "v < 2 ^ 46"
  shows "saturate_to_int16 (drop_bit 15 v) = clamp16 (v div 2 ^ 15)"
proof -
  have "- (2 ^ 31) \<le> v div 2 ^ 15" "v div 2 ^ 15 < 2 ^ 31"
    using zdiv_mono1 [of "- (2 ^ 46)" v "2 ^ 15"] zdiv_mono1 [of v "2 ^ 46 - 1" "2 ^ 15"] assms by simp_all
  then show ?thesis
    by (simp add: saturate_to_int16_def drop_bit_eq_div to_i32_id clamp16_def Let_def min_def max_def)
qed

lemma product_bounds:
  assumes "in_i16 a" "in_i16 b"
  shows "- (32768 * 32767) \<le> a * b" "a * b \<le> 32768 * 32768"
proof -
  have "\<bar>a\<bar> \<le> 32768" "\<bar>b\<bar> \<le> 32768" using assms by (auto simp: in_i16_def)
  then have "\<bar>a\<bar> * \<bar>b\<bar> \<le> 32768 * 32768" by (intro mult_mono) auto
  then have abs: "\<bar>a * b\<bar> \<le> 32768 * 32768" by (simp add: abs_mult)
  then show "a * b \<le> 32768 * 32768" by linarith
  show "- (32768 * 32767) \<le> a * b"
  proof (cases "0 \<le> a")
    case True
    with assms have "a * (- 32768) \<le> a * b" by (intro mult_left_mono) (auto simp: in_i16_def)
    moreover have "- (32768 * 32767) \<le> a * (- 32768)" using assms True by (simp add: in_i16_def)
    ultimately show ?thesis by linarith
  next
    case False
    with assms have "a * 32767 \<le> a * b" by (intro mult_left_mono_neg) (auto simp: in_i16_def)
    moreover have "- (32768 * 32767) \<le> a * 32767" using assms by (simp add: in_i16_def)
    ultimately show ?thesis by linarith
  qed
qed

text \<open>The sum of two products fits the \<open>int\<close> it is computed in unless one factor is the extreme corner.\<close>

lemma below_corner:
  assumes "in_i16 a" "in_i16 b" "in_i16 c" "in_i16 d" "(b, d) \<noteq> (- 32768, - 32768)"
  shows "a * b + c * d \<le> 2147483647"
proof -
  have strict: "x * y \<le> 32768 * 32767" if "in_i16 x" "in_i16 y" "y \<noteq> - 32768" for x y
  proof (cases "0 \<le> x")
    case True
    with that have "x * y \<le> x * 32767" by (intro mult_left_mono) (auto simp: in_i16_def)
    also have "\<dots> \<le> 32768 * 32767" using that(1) by (simp add: in_i16_def)
    finally show ?thesis .
  next
    case False
    with that have "x * y \<le> x * (- 32767)" by (intro mult_left_mono_neg) (auto simp: in_i16_def)
    also have "\<dots> \<le> 32768 * 32767" using that(1) by (simp add: in_i16_def)
    finally show ?thesis .
  qed
  from assms(5) consider "b \<noteq> - 32768" | "d \<noteq> - 32768" by auto
  then show ?thesis
    using strict [OF assms(1,2)] strict [OF assms(3,4)] product_bounds(2) [OF assms(1,2)]
      product_bounds(2) [OF assms(3,4)] by cases linarith+
qed

lemma sums_fit:
  assumes "in_i16 a" "in_i16 b" "in_i16 c" "in_i16 d" "(b, d) \<noteq> (- 32768, - 32768)"
  shows "to_i32 (a * b - c * d) = a * b - c * d" "to_i32 (a * d + c * b) = a * d + c * b"
    "\<bar>a * b - c * d\<bar> \<le> 2147483648" "\<bar>a * d + c * b\<bar> \<le> 2147483648"
proof -
  note b = product_bounds [OF assms(1,2)] product_bounds [OF assms(3,4)]
    product_bounds [OF assms(1,4)] product_bounds [OF assms(3,2)]
  have c: "a * d + c * b \<le> 2147483647"
    using below_corner [OF assms(1,4,3,2)] assms(5) by auto
  show "to_i32 (a * b - c * d) = a * b - c * d" by (rule to_i32_id) (use b in linarith)+
  show "to_i32 (a * d + c * b) = a * d + c * b" by (rule to_i32_id) (use b c in linarith)+
  show "\<bar>a * b - c * d\<bar> \<le> 2147483648" "\<bar>a * d + c * b\<bar> \<le> 2147483648" using b c by linarith+
qed

subsection \<open>The inner product\<close>

definition good16 :: "int \<times> int \<Rightarrow> bool" where
  "good16 z \<longleftrightarrow> in_i16 (fst z) \<and> in_i16 (snd z)"

definition pair_real :: "(int \<times> int) \<times> (int \<times> int) \<Rightarrow> int" where
  "pair_real p = fst (fst p) * fst (snd p) - snd (fst p) * snd (snd p)"

definition pair_imag :: "(int \<times> int) \<times> (int \<times> int) \<Rightarrow> int" where
  "pair_imag p = fst (fst p) * snd (snd p) + snd (fst p) * fst (snd p)"

lemma foldl_mac_exact:
  assumes "\<forall>p \<in> set ps. good16 (fst p) \<and> good16 (snd p) \<and> snd p \<noteq> (- 32768, - 32768)"
    and "\<bar>fst t\<bar> \<le> int k * 2147483648" "\<bar>snd t\<bar> \<le> int k * 2147483648" "k + length ps \<le> 32767"
  shows "foldl mac_pair t ps = (fst t + sum_list (map pair_real ps), snd t + sum_list (map pair_imag ps)) \<and>
    \<bar>fst t + sum_list (map pair_real ps)\<bar> \<le> int (k + length ps) * 2147483648 \<and>
    \<bar>snd t + sum_list (map pair_imag ps)\<bar> \<le> int (k + length ps) * 2147483648"
  using assms
proof (induction ps arbitrary: t k)
  case Nil
  then show ?case by simp
next
  case (Cons p ps)
  obtain ar ai br bi where p: "p = ((ar, ai), (br, bi))" by (metis surj_pair)
  have g: "in_i16 ar" "in_i16 br" "in_i16 ai" "in_i16 bi" "(br, bi) \<noteq> (- 32768, - 32768)"
    using Cons.prems(1) by (auto simp: p good16_def)
  note f = sums_fit [OF g]
  let ?t = "(fst t + pair_real p, snd t + pair_imag p)"
  have k: "int (Suc k) * 2147483648 < 2 ^ 63" using Cons.prems(4) by simp
  have b: "\<bar>fst ?t\<bar> \<le> int (Suc k) * 2147483648" "\<bar>snd ?t\<bar> \<le> int (Suc k) * 2147483648"
    using Cons.prems(2,3) f(3,4) by (simp_all add: p pair_real_def pair_imag_def algebra_simps)
  then have "to_i64 (fst ?t) = fst ?t" "to_i64 (snd ?t) = snd ?t"
    using k by (auto intro!: to_i64_id)
  then have m: "mac_pair t p = ?t"
    using f(1,2) by (simp add: mac_pair_def mac_cs16_def p pair_real_def pair_imag_def)
  show ?case using Cons.IH [OF _ b] Cons.prems(1,4) by (simp add: m add.assoc)
qed

text \<open>C37.  The fixed-point inner product is exact.  For at most 32767 taps, all samples and taps within
  sixteen bits and no tap at the extreme corner, none of the 32 and 64 bit operations of the inner loop
  wraps around: the accumulator, shifted and saturated once at the end, is the true complex inner
  product rounded down and clamped to sixteen bits.\<close>

theorem fixed_point_exact:
  assumes "length w = length ts" "length ts \<le> 32767" "\<forall>z \<in> set w. good16 z"
    and "\<forall>t \<in> set ts. good16 t \<and> t \<noteq> (- 32768, - 32768)"
  shows "map_option narrow_cs16 (dot_cs16 (flat w) 0 (flat ts) 0 (length ts) (0, 0)) =
    Some (clamp16 ((\<Sum>p \<leftarrow> zip w ts. pair_real p) div 2 ^ 15), clamp16 ((\<Sum>p \<leftarrow> zip w ts. pair_imag p) div 2 ^ 15))"
proof -
  let ?re = "\<Sum>p \<leftarrow> zip w ts. pair_real p" and ?im = "\<Sum>p \<leftarrow> zip w ts. pair_imag p"
  have "dot_cs16 (flat w) 0 (flat ts) 0 (length ts) (0, 0) = Some (foldl mac_pair (0, 0) (zip w ts))"
    by (rule dot_cs16_foldl) (simp_all add: assms(1))
  moreover have z: "\<forall>p \<in> set (zip w ts). good16 (fst p) \<and> good16 (snd p) \<and> snd p \<noteq> (- 32768, - 32768)"
    using assms(3,4) by (auto dest: set_zip_leftD set_zip_rightD)
  moreover have "foldl mac_pair (0, 0) (zip w ts) = (?re, ?im) \<and>
      \<bar>?re\<bar> \<le> int (length ts) * 2147483648 \<and> \<bar>?im\<bar> \<le> int (length ts) * 2147483648"
    using foldl_mac_exact [OF z, of "(0, 0)" 0] assms(1,2) by simp
  moreover have "int (length ts) * 2147483648 < 2 ^ 46" using assms(2) by simp
  ultimately show ?thesis
    using saturate_clamp [of ?re] saturate_clamp [of ?im] by (simp add: narrow_cs16_def abs_le_iff)
qed

theorem fixed_point_exact_witness:
  "map_option narrow_cs16 (dot_cs16 (flat [(32767, - 32768), (- 5, 7)]) 0 (flat [(32767, 1), (- 3, 2)]) 0 2 (0, 0)) =
    Some (clamp16 ((\<Sum>p \<leftarrow> zip [(32767, - 32768), (- 5, 7)] [(32767, 1), (- 3, 2)]. pair_real p) div 2 ^ 15),
      clamp16 ((\<Sum>p \<leftarrow> zip [(32767, - 32768), (- 5, 7)] [(32767, 1), (- 3, 2)]. pair_imag p) div 2 ^ 15))"
proof -
  have two: "length [(32767, 1), (- 3, 2 :: int) :: int \<times> int] = 2" by simp
  from fixed_point_exact [of "[(32767, - 32768), (- 5, 7)]" "[(32767, 1), (- 3, 2)]", unfolded two] show ?thesis
    by (simp add: good16_def in_i16_def)
qed

text \<open>The rotation stays in range.  The rotation of a sample and the advance of the phase multiply
  two sixteen bit complex numbers; unless the second is the extreme corner nothing wraps around, and
  the result is the true product, rounded down and clamped to sixteen bits.\<close>

theorem rotation_exact:
  assumes "good16 x" "good16 y" "y \<noteq> (- 32768, - 32768)"
  shows "rotate_cs16 x y = (clamp16 (pair_real (x, y) div 2 ^ 15), clamp16 (pair_imag (x, y) div 2 ^ 15)) \<and>
    good16 (rotate_cs16 x y)"
proof -
  obtain a c b d where xy: "x = (a, c)" "y = (b, d)" by (metis surj_pair)
  have g: "in_i16 a" "in_i16 b" "in_i16 c" "in_i16 d" "(b, d) \<noteq> (- 32768, - 32768)"
    using assms by (auto simp: xy good16_def)
  note f = sums_fit [OF g]
  have "saturate_to_int16 (drop_bit 15 (a * b - c * d)) = clamp16 ((a * b - c * d) div 2 ^ 15)"
    "saturate_to_int16 (drop_bit 15 (a * d + c * b)) = clamp16 ((a * d + c * b) div 2 ^ 15)"
    using f(3,4) by (simp_all add: saturate_clamp abs_le_iff)
  with f(1,2) show ?thesis by (simp add: rotate_cs16_def xy pair_real_def pair_imag_def good16_def)
qed

theorem rotation_exact_witness:
  "rotate_cs16 (- 32768, 12345) (32767, - 32768) =
    (clamp16 (pair_real ((- 32768, 12345), (32767, - 32768)) div 2 ^ 15),
     clamp16 (pair_imag ((- 32768, 12345), (32767, - 32768)) div 2 ^ 15))"
  using rotation_exact [of "(- 32768, 12345)" "(32767, - 32768)"] by (simp add: good16_def in_i16_def)

subsection \<open>Reversing the taps\<close>

lemma swap_ends_nth:
  assumes "i < length ts" "k < length ts"
  shows "swap_ends ts i ! k = (if k = i then ts ! (length ts - 1 - i) else if k = length ts - 1 - i then ts ! i else ts ! k)"
  using assms by (simp add: swap_ends_def Let_def nth_list_update)

lemma length_swap_ends [simp]: "length (swap_ends ts i) = length ts"
  by (simp add: swap_ends_def Let_def)

lemma length_foldl_swap [simp]: "length (foldl swap_ends ts is) = length ts"
  by (induction "is" arbitrary: ts) simp_all

text \<open>After the first \<open>n\<close> steps both ends are exchanged up to \<open>n\<close>.\<close>

lemma swapped_ends:
  assumes "n \<le> length ts div 2" "k < length ts"
  shows "foldl swap_ends ts [0..<n] ! k = (if k < n \<or> length ts - n \<le> k then ts ! (length ts - 1 - k) else ts ! k)"
  using assms
proof (induction n arbitrary: k)
  case (Suc n)
  let ?us = "foldl swap_ends ts [0..<n]"
  have "n < length ts" "n < length ts - 1 - n" "length ts - 1 - n < length ts - n" using Suc.prems by linarith+
  then show ?case
    using Suc.prems swap_ends_nth [of n ?us k] Suc.IH [of k] Suc.IH [of n] Suc.IH [of "length ts - 1 - n"]
    by auto
qed simp

lemma reverse_taps_nth:
  assumes "k < length ts"
  shows "reverse_taps ts ! k =
    (if even (length ts) \<and> (k = length ts div 2 \<or> k = length ts div 2 - 1) then ts ! k else ts ! (length ts - 1 - k))"
proof -
  define h where "h = length ts div 2"
  let ?us = "foldl swap_ends ts [0..<h]"
  have r: "reverse_taps ts ! k = swap_ends ?us h ! k" by (simp add: reverse_taps_def h_def)
  have hl: "h < length ts" using assms by (simp add: h_def)
  have us: "?us ! j = (if j < h \<or> length ts - h \<le> j then ts ! (length ts - 1 - j) else ts ! j)" if "j < length ts" for j
    using swapped_ends [OF _ that, of h] by (simp add: h_def)
  show ?thesis
  proof (cases "even (length ts)")
    case True
    then have len: "length ts = 2 * h" by (simp add: h_def)
    then have m: "length ts - 1 - h = h - 1" "length ts - 1 - (h - 1) = h" "h - 1 < length ts" "0 < h"
      using hl by linarith+
    consider "k = h" | "k = h - 1" "k \<noteq> h" | "k \<noteq> h" "k \<noteq> h - 1" by blast
    then have "swap_ends ?us h ! k = (if k = h \<or> k = h - 1 then ts ! k else ts ! (length ts - 1 - k))"
    proof cases
      case 1
      have "swap_ends ?us h ! k = ?us ! (h - 1)" using 1 swap_ends_nth [of h ?us h] hl m(1) by simp
      also have "\<dots> = ts ! h" using us [OF m(3)] m(2,4) by simp
      finally show ?thesis using 1 by simp
    next
      case 2
      have "swap_ends ?us h ! k = ?us ! h" using 2 swap_ends_nth [of h ?us k] hl assms m(1) by simp
      also have "\<dots> = ts ! (h - 1)" using us [OF hl] m(1) len by simp
      finally show ?thesis using 2 by simp
    next
      case 3
      have "swap_ends ?us h ! k = ?us ! k" using 3 swap_ends_nth [of h ?us k] hl assms m(1) by simp
      moreover have "k < h \<or> length ts - h \<le> k" using len by linarith
      ultimately show ?thesis using us [OF assms] 3 by simp
    qed
    with True r show ?thesis by (simp add: h_def)
  next
    case False
    then have len: "length ts = 2 * h + 1" by (simp add: h_def odd_two_times_div_two_succ)
    then have m: "length ts - 1 - h = h" by linarith
    have "swap_ends ?us h ! k = ts ! (length ts - 1 - k)"
    proof (cases "k = h")
      case True
      then show ?thesis using swap_ends_nth [of h ?us h] hl m us [OF hl] len by simp
    next
      case neq: False
      then have "swap_ends ?us h ! k = ?us ! k" using swap_ends_nth [of h ?us k] hl assms m by simp
      moreover have "k < h \<or> length ts - h \<le> k" using len neq by linarith
      ultimately show ?thesis using us [OF assms] by simp
    qed
    with False r show ?thesis by simp
  qed
qed

text \<open>The taps are reversed.  The loop of \<open>create_frequency_xlating_filter\<close> exchanges the ends for
  every index up to and including \<open>taps_len / 2\<close>.  For an odd number of taps, which is what
  \<open>create_low_pass_filter\<close> produces, this is the reversal; for an even number the two taps in the
  middle are exchanged twice and stay where they were.\<close>

theorem taps_reversed:
  "(odd (length ts) \<longrightarrow> reverse_taps ts = rev ts) \<and>
   (even (length ts) \<longrightarrow> (\<forall>k < length ts. reverse_taps ts ! k =
     (if k = length ts div 2 \<or> k = length ts div 2 - 1 then ts ! k else rev ts ! k)))"
proof (intro conjI impI allI)
  have len: "length (reverse_taps ts) = length ts" by (simp add: reverse_taps_def)
  show "reverse_taps ts = rev ts" if "odd (length ts)"
    by (rule nth_equalityI) (use that len in \<open>simp_all add: reverse_taps_nth rev_nth\<close>)
  show "reverse_taps ts ! k = (if k = length ts div 2 \<or> k = length ts div 2 - 1 then ts ! k else rev ts ! k)"
    if "even (length ts)" "k < length ts" for k
    using that by (simp add: reverse_taps_nth rev_nth)
qed

theorem taps_reversed_witness:
  "reverse_taps [1, 2, 3, 4, 5 :: int] = rev [1, 2, 3, 4, 5] \<and>
   reverse_taps [1, 2, 3, 4 :: int] ! 1 = 2 \<and> reverse_taps [1, 2, 3, 4 :: int] ! 3 = 1"
proof -
  have "odd (length [1, 2, 3, 4, 5 :: int])" "even (length [1, 2, 3, 4 :: int])" by simp_all
  then show ?thesis
    using taps_reversed [of "[1, 2, 3, 4, 5 :: int]"]
      taps_reversed [of "[1, 2, 3, 4 :: int]", THEN conjunct2, rule_format, of 1]
      taps_reversed [of "[1, 2, 3, 4 :: int]", THEN conjunct2, rule_format, of 3] by simp
qed

end
