(* ===== verification/Xlating_Memory.thy ===== *)
theory Xlating_Memory
  imports Xlating
begin

text \<open>
  The memory of the filter, \<open>create_frequency_xlating_filter\<close>, \<open>destroy_xlating\<close> and
  \<open>sdrserver_aligned_alloc\<close> of \<open>src/src/xlating.c\<close>: which blocks are held after every outcome of the
  allocations.  Allocations are numbered as in the model of the filter.
\<close>

subsection \<open>Blocks\<close>

datatype xl_block = Xl_filter | Xl_original_taps | Xl_table_cf32 | Xl_row_cf32 nat | Xl_table_cs16 | Xl_row_cs16 nat
  | Xl_working_cf32 | Xl_working_cs16 | Xl_output_cf32 | Xl_output_cs16

text \<open>The pointer fields of \<open>struct xlating_t\<close>; for the tables of taps the number of their rows.\<close>

record filter_memory =
  fm_taps_cf32 :: "nat option"
  fm_taps_cs16 :: "nat option"
  fm_original_taps :: bool
  fm_output_cf32 :: bool
  fm_output_cs16 :: bool
  fm_working_cf32 :: bool
  fm_working_cs16 :: bool

definition zero_memory :: filter_memory where
  "zero_memory = \<lparr>fm_taps_cf32 = None, fm_taps_cs16 = None, fm_original_taps = True, fm_output_cf32 = False,
     fm_output_cs16 = False, fm_working_cf32 = False, fm_working_cs16 = False\<rparr>"

text \<open>\<open>aligned_alloc\<close> wants a multiple of the alignment: the size asked for.\<close>

definition sdrserver_aligned_alloc :: "nat \<Rightarrow> nat \<Rightarrow> nat" where
  "sdrserver_aligned_alloc alignment bytes =
     (if bytes mod alignment \<noteq> 0 then (bytes div alignment + 1) * alignment else bytes)"

text \<open>The blocks \<open>destroy_xlating\<close> frees, in their order.\<close>

definition destroy_xlating :: "filter_memory option \<Rightarrow> xl_block list" where
  "destroy_xlating memory =
     (case memory of None \<Rightarrow> []
      | Some m \<Rightarrow>
          (case fm_taps_cf32 m of None \<Rightarrow> [] | Some n \<Rightarrow> map Xl_row_cf32 [0..<n] @ [Xl_table_cf32]) @
          (case fm_taps_cs16 m of None \<Rightarrow> [] | Some n \<Rightarrow> map Xl_row_cs16 [0..<n] @ [Xl_table_cs16]) @
          (if fm_original_taps m then [Xl_original_taps] else []) @
          (if fm_output_cf32 m then [Xl_output_cf32] else []) @
          (if fm_output_cs16 m then [Xl_output_cs16] else []) @
          (if fm_working_cf32 m then [Xl_working_cf32] else []) @
          (if fm_working_cs16 m then [Xl_working_cs16] else []) @ [Xl_filter])"

definition fail_with :: "int \<Rightarrow> filter_memory \<Rightarrow> xl_block set \<Rightarrow> (int \<times> filter_memory option) \<times> xl_block set" where
  "fail_with code m held = ((code, None), held - set (destroy_xlating (Some m)))"

text \<open>
  The construction: the code, the fields of the filter, the blocks held.  The temporary taps and, when the
  second table fails, the first one are freed in the place where they were allocated.
\<close>

definition create_filter_memory :: "(nat \<Rightarrow> bool) \<Rightarrow> bool \<Rightarrow> (int \<times> filter_memory option) \<times> xl_block set" where
  "create_filter_memory ok no_taps =
     (if no_taps then ((- 1, None), {Xl_original_taps})
      else if \<not> ok 0 then ((- ENOMEM, None), {Xl_original_taps})
      else
        let held0 = {Xl_filter, Xl_original_taps} in
        if \<not> ok 1 then fail_with (- ENOMEM) zero_memory held0
        else if \<not> ok 2 \<or> \<not> ok 3 then fail_with (- 1) zero_memory held0
        else
          let rows = number_of_aligned 32 8; rows' = number_of_aligned 4 2;
              m1 = zero_memory\<lparr>fm_taps_cf32 := Some rows, fm_taps_cs16 := Some rows'\<rparr>;
              held1 = held0 \<union> {Xl_table_cf32, Xl_table_cs16} \<union> Xl_row_cf32 ` {..<rows} \<union> Xl_row_cs16 ` {..<rows'}
          in if \<not> ok 4 then fail_with (- ENOMEM) m1 held1
          else
            let m2 = m1\<lparr>fm_working_cf32 := True\<rparr>; held2 = held1 \<union> {Xl_working_cf32} in
            if \<not> ok 5 then fail_with (- ENOMEM) m2 held2
            else
              let m3 = m2\<lparr>fm_working_cs16 := True\<rparr>; held3 = held2 \<union> {Xl_working_cs16} in
              if \<not> ok 6 then fail_with (- ENOMEM) m3 held3
              else
                let m4 = m3\<lparr>fm_output_cf32 := True\<rparr>; held4 = held3 \<union> {Xl_output_cf32} in
                if \<not> ok 7 then fail_with (- ENOMEM) m4 held4
                else ((0, Some (m4\<lparr>fm_output_cs16 := True\<rparr>)), held4 \<union> {Xl_output_cs16}))"

lemma aligned_alloc_size:
  assumes "0 < alignment"
  shows "sdrserver_aligned_alloc alignment bytes mod alignment = 0" "bytes \<le> sdrserver_aligned_alloc alignment bytes"
    "sdrserver_aligned_alloc alignment bytes < bytes + alignment"
proof -
  have "bytes = bytes div alignment * alignment + bytes mod alignment" by simp
  moreover have "bytes mod alignment < alignment" using assms by simp
  ultimately show "bytes \<le> sdrserver_aligned_alloc alignment bytes" "sdrserver_aligned_alloc alignment bytes < bytes + alignment"
    unfolding sdrserver_aligned_alloc_def by (simp_all, linarith+)
  show "sdrserver_aligned_alloc alignment bytes mod alignment = 0" by (simp add: sdrserver_aligned_alloc_def)
qed

lemma table_rows: "number_of_aligned 32 8 = 4" "number_of_aligned 4 2 = 2" "[0..<4] = [0, 1, 2, 3]" "[0..<2] = [0, 1]"
  "{..<4} = {0, 1, 2, 3 :: nat}" "{..<2} = {0, 1 :: nat}"
  by (auto simp: number_of_aligned_def upt_rec)

definition full_memory :: filter_memory where
  "full_memory = \<lparr>fm_taps_cf32 = Some 4, fm_taps_cs16 = Some 2, fm_original_taps = True, fm_output_cf32 = True,
     fm_output_cs16 = True, fm_working_cf32 = True, fm_working_cs16 = True\<rparr>"

lemma create_filter_memory_outcome:
  "create_filter_memory ok no_taps =
     (if no_taps then ((- 1, None), {Xl_original_taps})
      else if \<not> ok 0 then ((- ENOMEM, None), {Xl_original_taps})
      else if \<not> ok 1 then ((- ENOMEM, None), {})
      else if \<not> ok 2 \<or> \<not> ok 3 then ((- 1, None), {})
      else if \<not> ok 4 \<or> \<not> ok 5 \<or> \<not> ok 6 \<or> \<not> ok 7 then ((- ENOMEM, None), {})
      else ((0, Some full_memory), set (destroy_xlating (Some full_memory))))"
  unfolding create_filter_memory_def Let_def fail_with_def table_rows
  by (simp add: destroy_xlating_def zero_memory_def full_memory_def table_rows insert_commute)

lemma create_filter_code:
  assumes "decimation_arg \<noteq> 0"
  shows "\<exists>f. create_frequency_xlating_filter F ok decimation_arg taps center sampling len =
    (if taps = [] then Some (Inl (- 1)) else if \<not> ok 0 then Some (Inl (- ENOMEM)) else if \<not> ok 1 then Some (Inl (- ENOMEM))
     else if \<not> ok 2 \<or> \<not> ok 3 then Some (Inl (- 1)) else if \<not> ok 4 \<or> \<not> ok 5 then Some (Inl (- ENOMEM))
     else if \<not> ok 6 \<or> \<not> ok 7 then Some (Inl (- ENOMEM)) else Some (Inr f))"
  unfolding create_frequency_xlating_filter_def Let_def if_not_P [OF assms] by (rule exI, rule refl)



end
