(* ===== verification/Float_Round.thy ===== *)
theory Float_Round
  imports Prelude
begin

text \<open>
  The conversion of an unsigned integer to \<open>float\<close>: rounding to 24 significant bits, ties to even.
  The sources use it where an integer meets a \<open>float\<close> (\<open>src/src/lpf.c\<close>).
\<close>

fun bit_length :: "nat \<Rightarrow> nat" where
  "bit_length n = (if n = 0 then 0 else Suc (bit_length (n div 2)))"

declare bit_length.simps [simp del]

lemma bit_length_0 [simp]: "bit_length 0 = 0"
  by (simp add: bit_length.simps)

lemma bit_length_pos: "0 < n \<Longrightarrow> bit_length n = Suc (bit_length (n div 2))"
  by (subst bit_length.simps) simp

lemma bit_length_double: "0 < n \<Longrightarrow> bit_length (2 * n) = Suc (bit_length n)"
  using bit_length_pos [of "2 * n"] by simp

lemma bit_length_upper: "n < 2 ^ bit_length n"
proof (induction n rule: bit_length.induct)
  case (1 n)
  show ?case
  proof (cases "n = 0")
    case False
    with 1 have "n div 2 < 2 ^ bit_length (n div 2)" by simp
    with False show ?thesis by (simp add: bit_length_pos)
  qed simp
qed

lemma bit_length_lower: "0 < n \<Longrightarrow> 2 ^ (bit_length n - 1) \<le> n"
proof (induction n rule: bit_length.induct)
  case (1 n)
  show ?case
  proof (cases "n div 2 = 0")
    case False
    then have "0 < bit_length (n div 2)" by (simp add: bit_length_pos)
    then have "bit_length (n div 2) = Suc (bit_length (n div 2) - 1)" by simp
    moreover have "2 ^ (bit_length (n div 2) - 1) \<le> n div 2" using 1 False by simp
    ultimately have "2 ^ bit_length (n div 2) \<le> n"
      by (metis mult.commute mult_le_mono2 power_Suc2 times_div_less_eq_dividend order_trans mult.left_commute)
    with 1(2) show ?thesis by (simp add: bit_length_pos)
  next
    case True
    with 1(2) have "n = 1" by simp
    then show ?thesis by (simp add: bit_length_pos)
  qed
qed

lemma bit_length_mono: "m \<le> n \<Longrightarrow> bit_length m \<le> bit_length n"
proof (rule ccontr)
  assume "m \<le> n" "\<not> bit_length m \<le> bit_length n"
  then have "bit_length n \<le> bit_length m - 1" "0 < m" by (auto intro: Nat.gr0I)
  then have "2 ^ bit_length n \<le> (2 :: nat) ^ (bit_length m - 1)" by (intro power_increasing) auto
  also have "\<dots> \<le> m" using \<open>0 < m\<close> by (rule bit_length_lower)
  finally show False using bit_length_upper [of n] \<open>m \<le> n\<close> by simp
qed

text \<open>Rounding to a multiple of \<open>2 ^ e\<close>, ties to even.\<close>

definition round_at :: "nat \<Rightarrow> nat \<Rightarrow> nat" where
  "round_at e n =
     (let q = n div 2 ^ e; r = n mod 2 ^ e
      in (if 2 ^ e < 2 * r \<or> 2 * r = 2 ^ e \<and> odd q then q + 1 else q) * 2 ^ e)"

definition float_of_nat :: "nat \<Rightarrow> nat" where
  "float_of_nat n = round_at (bit_length n - 24) n"

lemma round_at_near: "round_at e n \<le> n + 2 ^ e div 2" "n \<le> round_at e n + 2 ^ e div 2"
  "n div 2 ^ e * 2 ^ e \<le> round_at e n" "round_at e n \<le> (n div 2 ^ e + 1) * 2 ^ e"
proof -
  have n: "n = n div 2 ^ e * 2 ^ e + n mod 2 ^ e" by (rule div_mult_mod_eq [symmetric])
  have r: "n mod 2 ^ e < 2 ^ e" by simp
  obtain q s where qs: "n div 2 ^ e = q" "n mod 2 ^ e = s" by blast
  note n' = n [unfolded qs] and r' = r [unfolded qs]
  show "round_at e n \<le> n + 2 ^ e div 2" "n \<le> round_at e n + 2 ^ e div 2"
    "n div 2 ^ e * 2 ^ e \<le> round_at e n" "round_at e n \<le> (n div 2 ^ e + 1) * 2 ^ e"
    unfolding round_at_def Let_def qs using n' r' by (auto simp: distrib_right)
qed

lemma round_at_mono: "m \<le> n \<Longrightarrow> round_at e m \<le> round_at e n"
proof -
  assume le: "m \<le> n"
  show ?thesis
  proof (cases "m div 2 ^ e = n div 2 ^ e")
    case True
    have "m mod 2 ^ e \<le> n mod 2 ^ e"
      using le True by (metis add_le_cancel_left div_mult_mod_eq)
    with True show ?thesis by (auto simp: round_at_def Let_def)
  next
    case False
    with le have "m div 2 ^ e + 1 \<le> n div 2 ^ e" by (metis Suc_eq_plus1 Suc_leI div_le_mono le_neq_implies_less)
    then have "(m div 2 ^ e + 1) * 2 ^ e \<le> n div 2 ^ e * 2 ^ e" by (rule mult_le_mono1)
    with round_at_near(4) [of e m] round_at_near(3) [of n e] show ?thesis by linarith
  qed
qed

lemma float_of_nat_small: "bit_length n \<le> 24 \<Longrightarrow> float_of_nat n = n"
  by (simp add: float_of_nat_def round_at_def)

lemma float_of_nat_pos: "0 < n \<Longrightarrow> 0 < float_of_nat n"
proof (cases "bit_length n \<le> 24")
  case False
  assume "0 < n"
  let ?e = "bit_length n - 24"
  have "2 ^ ?e \<le> (2 :: nat) ^ (bit_length n - 1)" by (intro power_increasing) auto
  also have "\<dots> \<le> n" using \<open>0 < n\<close> by (rule bit_length_lower)
  finally have "0 < n div 2 ^ ?e" by (simp add: div_greater_zero_iff)
  then have "0 < n div 2 ^ ?e * 2 ^ ?e" by simp
  with round_at_near(3) [of n ?e] show ?thesis unfolding float_of_nat_def by linarith
qed (simp add: float_of_nat_small)

lemma float_of_nat_mono:
  assumes "m \<le> n"
  shows "float_of_nat m \<le> float_of_nat n"
proof (cases "bit_length m = bit_length n")
  case True
  with assms show ?thesis by (simp add: float_of_nat_def round_at_mono)
next
  case False
  let ?e = "bit_length m - 24" and ?f = "bit_length n - 24"
  from False bit_length_mono [OF assms] have lt: "bit_length m < bit_length n" by simp
  then have "0 < n" by (auto intro: Nat.gr0I)
  have "float_of_nat m \<le> 2 ^ bit_length m"
  proof (cases "bit_length m \<le> 24")
    case True
    then show ?thesis using bit_length_upper [of m] by (simp add: float_of_nat_small)
  next
    case big: False
    then have split: "2 ^ bit_length m = (2 :: nat) ^ 24 * 2 ^ ?e" by (metis le_add_diff_inverse nat_le_linear power_add)
    have "m div 2 ^ ?e < 2 ^ 24"
      using bit_length_upper [of m] split by (simp add: less_mult_imp_div_less)
    then have "(m div 2 ^ ?e + 1) * 2 ^ ?e \<le> 2 ^ 24 * 2 ^ ?e" by (intro mult_le_mono1) simp
    with round_at_near(4) [of ?e m] split show ?thesis unfolding float_of_nat_def by linarith
  qed
  also have "(2 :: nat) ^ bit_length m \<le> 2 ^ (bit_length n - 1)" using lt by (intro power_increasing) auto
  also have "\<dots> \<le> float_of_nat n"
  proof (cases "bit_length n \<le> 24")
    case True
    then show ?thesis using bit_length_lower [OF \<open>0 < n\<close>] by (simp add: float_of_nat_small)
  next
    case big: False
    then have "bit_length n - 1 = 23 + ?f" by simp
    then have p: "2 ^ (bit_length n - 1) = (2 :: nat) ^ 23 * 2 ^ ?f" by (simp only: power_add)
    with bit_length_lower [OF \<open>0 < n\<close>] have "2 ^ 23 \<le> n div 2 ^ ?f"
      by (simp add: less_eq_div_iff_mult_less_eq)
    then have "2 ^ 23 * 2 ^ ?f \<le> n div 2 ^ ?f * 2 ^ ?f" by (rule mult_le_mono1)
    with round_at_near(3) [of n ?f] p show ?thesis unfolding float_of_nat_def by linarith
  qed
  finally show ?thesis .
qed

lemma float_of_nat_double: "float_of_nat (2 * n) = 2 * float_of_nat n"
proof (cases "bit_length n < 24")
  case True
  then have "bit_length (2 * n) \<le> 24" by (cases "n = 0") (simp_all add: bit_length_double)
  with True show ?thesis by (simp add: float_of_nat_small)
next
  case False
  then have n: "0 < n" by (auto intro: Nat.gr0I)
  with False have e: "bit_length (2 * n) - 24 = Suc (bit_length n - 24)" by (simp add: bit_length_double)
  have "round_at (Suc e) (2 * n) = 2 * round_at e n" for e
  proof -
    have d: "(2 * n) div 2 ^ Suc e = n div 2 ^ e" unfolding power_Suc by (rule div_mult_mult1) simp
    have m: "(2 * n) mod 2 ^ Suc e = 2 * (n mod 2 ^ e)" unfolding power_Suc by (rule mult_mod_right [symmetric])
    show ?thesis unfolding round_at_def Let_def d m by simp
  qed
  with e show ?thesis by (simp add: float_of_nat_def)
qed

text \<open>The relative error is at most \<open>2 ^ - 24\<close>.\<close>

lemma float_of_nat_upper: "2 ^ 24 * float_of_nat n \<le> (2 ^ 24 + 1) * n"
proof (cases "bit_length n \<le> 24")
  case True
  then show ?thesis by (simp add: float_of_nat_small)
next
  case False
  let ?e = "bit_length n - 24"
  have n: "0 < n" using False by (auto intro: Nat.gr0I)
  from False have "24 < bit_length n" by simp
  then obtain k where "bit_length n = 24 + Suc k" by (metis less_imp_add_positive gr0_conv_Suc)
  then have k: "?e = Suc k" "bit_length n - 1 = 24 + k" by simp_all
  have "2 ^ (bit_length n - 1) = (2 :: nat) ^ 24 * (2 ^ ?e div 2)"
    unfolding k by (simp add: power_add)
  with bit_length_lower [OF n] have "2 ^ 24 * (2 ^ ?e div 2) \<le> n" by simp
  moreover have "2 ^ 24 * float_of_nat n \<le> 2 ^ 24 * (n + 2 ^ ?e div 2)"
    using round_at_near(1) [of ?e n] by (simp add: float_of_nat_def)
  ultimately show ?thesis by (simp add: distrib_left)
qed

end
