(* ===== verification/Lpf.thy ===== *)
theory Lpf
  imports Complex_Main Float_Round Xlating
begin

text \<open>
  The low pass filter of \<open>src/src/lpf.c\<close>: the checks of the arguments, the number of taps, the Hamming
  window and the windowed sine.  The arithmetic of \<open>float\<close> is the record \<open>fops\<close> of the filter, that of
  \<open>double\<close> and the functions of \<open>math.h\<close> the record \<open>mops\<close>; conversions of integers to \<open>float\<close> are exact.
\<close>

subsection \<open>Double precision\<close>

text \<open>\<open>m_lit a b\<close> is the literal whose value is \<open>a / b\<close>; \<open>m_double\<close> and \<open>m_float\<close> convert.\<close>

record ('f, 'd) mops =
  m_double :: "'f \<Rightarrow> 'd"
  m_float :: "'d \<Rightarrow> 'f"
  m_of_int :: "int \<Rightarrow> 'd"
  m_lit :: "int \<Rightarrow> int \<Rightarrow> 'd"
  m_pi :: 'd
  m_sub :: "'d \<Rightarrow> 'd \<Rightarrow> 'd"
  m_mul :: "'d \<Rightarrow> 'd \<Rightarrow> 'd"
  m_div :: "'d \<Rightarrow> 'd \<Rightarrow> 'd"
  m_sin :: "'d \<Rightarrow> 'd"
  m_cos :: "'d \<Rightarrow> 'd"

subsection \<open>The functions\<close>

text \<open>
  The comparison with \<open>(float) sampling_freq / 2\<close> converts \<open>cutoff_freq\<close> to \<open>float\<close>; halving is exact.
\<close>

definition sanity_check_1f :: "nat \<Rightarrow> nat \<Rightarrow> nat \<Rightarrow> int" where
  "sanity_check_1f sampling_freq cutoff_freq transition_width =
     (if sampling_freq \<le> 0 then - 1
      else if cutoff_freq \<le> 0 \<or> 2 * float_of_nat cutoff_freq > float_of_nat sampling_freq then - 1
      else if transition_width \<le> 0 then - 1 else 0)"

text \<open>
  The numerator is exact in \<open>double\<close>, the denominator is a product of two \<open>float\<close>s rounded to \<open>float\<close>.
  The rounding of their quotient does not change its integer part (\<open>truncated_quotient\<close> below); a
  quotient that does not fit an \<open>int\<close> is undefined.
\<close>

definition computeNtaps :: "nat \<Rightarrow> nat \<Rightarrow> int option" where
  "computeNtaps sampling_freq transition_width =
     (let ntaps = int ((53 * sampling_freq) div float_of_nat (22 * float_of_nat transition_width))
      in if 2147483647 < ntaps then None
         else Some (if ntaps mod 2 = 0 then ntaps + 1 else ntaps))"

text \<open>The window; the allocation is the first parameter.\<close>

definition hamming_value :: "('f, 'd) mops \<Rightarrow> int \<Rightarrow> nat \<Rightarrow> 'f" where
  "hamming_value M m n =
     m_float M (m_sub M (m_lit M 54 100) (m_mul M (m_lit M 46 100)
       (m_cos M (m_div M (m_mul M (m_mul M (m_of_int M 2) (m_pi M)) (m_of_int M (int n))) (m_of_int M m)))))"

definition create_hamming_window :: "bool \<Rightarrow> ('f, 'd) mops \<Rightarrow> int \<Rightarrow> int + 'f list" where
  "create_hamming_window mem_ok M ntaps =
     (if \<not> mem_ok then Inl (- ENOMEM)
      else Inr (map (hamming_value M (ntaps - 1)) [0..<nat ntaps]))"

text \<open>The windowed sine at \<open>n\<close>, \<open>- M \<le> n \<le> M\<close>, before it is normalised.\<close>

definition raw_tap :: "('f, 'd) mops \<Rightarrow> 'f \<Rightarrow> 'f \<Rightarrow> int \<Rightarrow> 'f" where
  "raw_tap M fwT0 w n =
     (if n = 0
      then m_float M (m_mul M (m_div M (m_double M fwT0) (m_pi M)) (m_double M w))
      else m_float M (m_mul M (m_div M (m_sin M (m_mul M (m_of_int M n) (m_double M fwT0)))
        (m_mul M (m_of_int M n) (m_pi M))) (m_double M w)))"

text \<open>
  The loop that stores it: \<open>k\<close> steps are left, \<open>n\<close> is the next index; a cell that \<open>malloc\<close> left
  indeterminate is \<open>None\<close>, an index outside of an array makes the run undefined.
\<close>

fun taps_loop :: "(int \<Rightarrow> 'f \<Rightarrow> 'f) \<Rightarrow> 'f list \<Rightarrow> int \<Rightarrow> int \<Rightarrow> nat \<Rightarrow> 'f option list \<Rightarrow> 'f option list option" where
  "taps_loop value w M n 0 taps = Some taps"
| "taps_loop value w M n (Suc k) taps =
     (let i = n + M
      in if 0 \<le> i \<and> nat i < length taps \<and> nat i < length w
         then taps_loop value w M (n + 1) k (taps[nat i := Some (value n (w ! nat i))])
         else None)"

definition band_sum :: "'f fops \<Rightarrow> nat \<Rightarrow> 'f list \<Rightarrow> 'f" where
  "band_sum F M taps =
     foldl (\<lambda>fmax n. f_add F fmax (f_mul F (f_of_int F 2) (taps ! (n + M)))) (taps ! (0 + M)) [1..<Suc M]"

definition lpf_angle :: "('f, 'd) mops \<Rightarrow> nat \<Rightarrow> nat \<Rightarrow> 'f" where
  "lpf_angle M cutoff_freq sampling_freq =
     m_float M (m_div M (m_mul M (m_mul M (m_of_int M 2) (m_pi M)) (m_of_int M (int cutoff_freq)))
       (m_of_int M (int sampling_freq)))"

definition create_low_pass_filter :: "'f fops \<Rightarrow> ('f, 'd) mops \<Rightarrow> (nat \<Rightarrow> bool) \<Rightarrow> 'f \<Rightarrow> nat \<Rightarrow> nat \<Rightarrow> nat
    \<Rightarrow> (int + 'f list) option" where
  "create_low_pass_filter F M ok gain sampling_freq cutoff_freq transition_width =
     (let code = sanity_check_1f sampling_freq cutoff_freq transition_width
      in if code \<noteq> 0 then Some (Inl code)
         else do {
           ntaps \<leftarrow> computeNtaps sampling_freq transition_width;
           if \<not> ok 0 then Some (Inl (- ENOMEM))
           else case create_hamming_window (ok 1) M ntaps of
             Inl code \<Rightarrow> Some (Inl code)
           | Inr w \<Rightarrow> do {
               let m = (ntaps - 1) div 2;
               let fwT0 = lpf_angle M cutoff_freq sampling_freq;
               cells \<leftarrow> taps_loop (\<lambda>n wn. raw_tap M fwT0 wn n) w m (- m) (nat (2 * m + 1)) (replicate (nat ntaps) None);
               taps \<leftarrow> those cells;
               let gain' = f_div F gain (band_sum F (nat m) taps);
               Some (Inr (map (\<lambda>t. f_mul F t gain') taps)) } })"

subsection \<open>The number of taps\<close>

text \<open>Why the quotient in \<open>double\<close> may be computed exactly: its error is far below its distance to the next integer.\<close>

lemma truncated_quotient:
  fixes a b :: nat and x :: real
  assumes "0 < b" "a < 2 ^ 53" "\<bar>x - a / b\<bar> \<le> a / b / 2 ^ 53" "b dvd a \<Longrightarrow> x = a / b"
  shows "\<lfloor>x\<rfloor> = int (a div b)"
proof (cases "b dvd a")
  case True
  then obtain k where "a = b * k" ..
  with assms show ?thesis by simp
next
  case False
  then have r: "0 < a mod b" "a mod b < b" using assms(1) by (auto simp: mod_greater_zero_iff_not_dvd)
  have "real a = real (a div b) * real b + real (a mod b)" by (metis div_mult_mod_eq of_nat_add of_nat_mult)
  then have q: "a / b = real (a div b) + real (a mod b) / b" using assms(1) by (simp add: field_simps)
  have e: "a / b / 2 ^ 53 < 1 / b" using assms(1,2) by (simp add: field_simps)
  have "1 / b \<le> real (a mod b) / b" using r assms(1) by (simp add: divide_right_mono)
  moreover have "real (Suc (a mod b)) \<le> real b" using r(2) by (simp only: of_nat_le_iff Suc_le_eq)
  then have "real (a mod b) / b \<le> 1 - 1 / b" using assms(1) by (simp add: field_simps)
  ultimately have "real (a div b) \<le> x" "x < real (a div b) + 1" using assms(3) q e by linarith+
  then show ?thesis by (simp add: floor_eq_iff)
qed

lemma computeNtaps_odd: "computeNtaps s t = Some n \<Longrightarrow> odd n \<and> 0 < n"
  unfolding computeNtaps_def Let_def
  by (cases "(53 * s) div float_of_nat (22 * float_of_nat t) = 0") (auto split: if_splits simp: odd_iff_mod_2_eq_one)

lemma ntaps_denominator: "float_of_nat (22 * float_of_nat t) \<le> 53 * t"
proof -
  have "2 ^ 24 * float_of_nat (22 * float_of_nat t) \<le> (2 ^ 24 + 1) * (22 * float_of_nat t)"
    by (rule float_of_nat_upper)
  moreover have "2 ^ 24 * float_of_nat t \<le> (2 ^ 24 + 1) * t" by (rule float_of_nat_upper)
  ultimately show ?thesis by simp
qed

lemma computeNtaps_lower:
  assumes "computeNtaps s t = Some n" "0 < t"
  shows "int (s div t) \<le> n"
proof -
  let ?d = "float_of_nat (22 * float_of_nat t)"
  have d: "0 < ?d" using assms(2) by (simp add: float_of_nat_pos)
  have "s div t = (53 * s) div (53 * t)" by simp
  also have "\<dots> \<le> (53 * s) div ?d" by (rule div_le_mono2 [OF d ntaps_denominator])
  finally show ?thesis using assms(1) by (auto simp: computeNtaps_def Let_def split: if_splits)
qed

subsection \<open>The loop over the taps\<close>

lemma taps_loop_prefix:
  assumes "j + k \<le> length w" "j + k \<le> length taps" "M = int m"
  shows "taps_loop value w M (int j - M) k taps =
    Some (take j taps @ map (\<lambda>i. Some (value (int i - M) (w ! i))) [j..<j + k] @ drop (j + k) taps)"
  using assms
proof (induction k arbitrary: j taps)
  case (Suc k)
  have n: "int j - M + 1 = int (Suc j) - M" "(int j - M) + M = int j" by simp_all
  let ?t = "taps[j := Some (value (int j - M) (w ! j))]"
  have "take (Suc j) ?t = take j taps @ [Some (value (int j - M) (w ! j))]"
    using Suc.prems by (simp add: take_Suc_conv_app_nth)
  moreover have "[j..<j + Suc k] = j # [Suc j..<Suc j + k]" by (simp add: upt_conv_Cons)
  moreover have "drop (Suc j + k) ?t = drop (j + Suc k) taps" by simp
  moreover have "taps_loop value w M (int j - M) (Suc k) taps = taps_loop value w M (int (Suc j) - M) k ?t"
    using Suc.prems(1,2) unfolding taps_loop.simps Let_def n by simp
  ultimately show ?case
    using Suc.IH [of "Suc j" ?t] Suc.prems by simp
qed simp

lemma those_map_Some [simp]: "those (map (\<lambda>i. Some (g i)) xs) = Some (map g xs)"
  by (induction xs) auto

definition raw_taps :: "('f, 'd) mops \<Rightarrow> nat \<Rightarrow> nat \<Rightarrow> nat \<Rightarrow> 'f list" where
  "raw_taps M m cutoff_freq sampling_freq =
     map (\<lambda>i. raw_tap M (lpf_angle M cutoff_freq sampling_freq) (hamming_value M (int (2 * m)) i) (int i - int m))
       [0..<2 * m + 1]"

lemma create_low_pass_filter_value:
  assumes "sanity_check_1f s c t = 0" "computeNtaps s t = Some (int (2 * m + 1))" "ok 0" "ok 1"
  shows "create_low_pass_filter F M ok gain s c t =
    Some (Inr (map (\<lambda>x. f_mul F x (f_div F gain (band_sum F m (raw_taps M m c s)))) (raw_taps M m c s)))"
proof -
  define N where "N = 2 * m + 1"
  define w where "w = map (hamming_value M (int (2 * m))) [0..<N]"
  let ?g = "raw_tap M (lpf_angle M c s)"
  have N: "(int N - 1) div 2 = int m" "nat (2 * int m + 1) = N" "int N - 1 = int (2 * m)"
    by (simp_all add: N_def)
  have window: "create_hamming_window True M (int N) = Inr w"
    unfolding w_def create_hamming_window_def N(3) by simp
  have cells: "taps_loop (\<lambda>n wn. ?g wn n) w (int m) (- int m) N (replicate N None) =
      Some (map (\<lambda>i. Some (?g (w ! i) (int i - int m))) [0..<N])"
    using taps_loop_prefix [of 0 N w "replicate N None" "int m" m "\<lambda>n wn. ?g wn n"] by (simp add: w_def)
  have raw: "map (\<lambda>i. ?g (w ! i) (int i - int m)) [0..<N] = raw_taps M m c s"
    by (simp add: raw_taps_def N_def w_def del: upt_Suc)
  have n: "computeNtaps s t = Some (int N)" using assms(2) by (simp add: N_def)
  show ?thesis
    unfolding create_low_pass_filter_def Let_def assms(1) n bind.bind_lunit
    using assms(3,4) by (simp add: window N cells raw)
qed

end
