(* ===== verification/Dsp_Worker.thy ===== *)
theory Dsp_Worker
  imports Request Lpf
begin

text \<open>
  The worker of one client, \<open>src/src/dsp_worker.c\<close>: \<open>dsp_worker_start\<close> builds the filter, opens the
  output and starts a thread; the thread (\<open>callback\<close>) takes blocks from the queue until the poison
  pill, filters them and writes the result; \<open>dsp_worker_destroy\<close> releases everything.  The queue is
  the subject of the queue theories; here it is the list of the blocks taken from it.
\<close>

subsection \<open>State\<close>

record 'f dsp_worker =
  dw_config :: client_config
  xlating_process_cu8 :: "int list \<Rightarrow> 'f xlating \<Rightarrow> ('f cplx list \<times> 'f xlating) option"
  xlating_process_cs8 :: "int list \<Rightarrow> 'f xlating \<Rightarrow> ('f cplx list \<times> 'f xlating) option"
  xlating_process_cs16 :: "int list \<Rightarrow> 'f xlating \<Rightarrow> ('f cplx list \<times> 'f xlating) option"
  dw_queue :: bool
  dw_filter :: "'f xlating option"
  dw_thread :: bool
  dw_file :: bool
  dw_gz :: bool

subsection \<open>Output\<close>

text \<open>
  A complex sample is eight bytes in memory; \<open>enc\<close> gives them.  The output of one block: the bytes
  that reached the file or the socket, and the descriptors that were closed.
\<close>

datatype sink_action = Stored "u8 list" | Sent "u8 list" | Closed nat

text \<open>
  \<open>fwrite\<close> counts samples, \<open>gzwrite\<close> bytes; both are compared with the number of samples.  An
  \<open>Accept n\<close> of the environment is their result, an error is 0; without an event everything is written.
\<close>

definition write_to_file :: "'f dsp_worker \<Rightarrow> u8 list \<Rightarrow> nat \<Rightarrow> write_event list
    \<Rightarrow> (int \<times> sink_action list) \<times> write_event list" where
  "write_to_file w bytes filter_output_len evs =
     (let amount = (\<lambda>all. case evs of [] \<Rightarrow> all | Accept n # _ \<Rightarrow> min n all | Write_error _ # _ \<Rightarrow> 0);
          outcome = (\<lambda>n_written. if n_written < filter_output_len then - 1 else 0 :: int)
      in if dw_file w
         then let n = amount filter_output_len in ((outcome n, [Stored (take (8 * n) bytes)]), tl evs)
         else if dw_gz w
         then let n = amount (8 * filter_output_len) in ((outcome n, [Stored (take n bytes)]), tl evs)
         else ((- 1, []), evs))"

definition write_to_socket :: "u8 list \<Rightarrow> write_event list \<Rightarrow> (int \<times> sink_action list) \<times> write_event list" where
  "write_to_socket bytes evs = apfst (apsnd (\<lambda>sent. [Sent sent])) (write_loop bytes evs)"

subsection \<open>The processing loop\<close>

text \<open>The views of a byte block: unsigned, signed, and pairs of bytes in the host's order.\<close>

definition as_uint8 :: "u8 list \<Rightarrow> int list" where
  "as_uint8 bs = map uint bs"

definition as_int8 :: "u8 list \<Rightarrow> int list" where
  "as_int8 bs = map sint bs"

fun as_int16 :: "endian \<Rightarrow> u8 list \<Rightarrow> int list" where
  "as_int16 e (a # b # bs) =
     to_i16 (case e of Little \<Rightarrow> uint a + 256 * uint b | Big \<Rightarrow> 256 * uint a + uint b) # as_int16 e bs"
| "as_int16 e bs = []"

text \<open>The switch over \<open>sdr_type\<close>; a type it does not name leaves the output of the block before.\<close>

definition filter_block :: "endian \<Rightarrow> 'f dsp_worker \<Rightarrow> u8 list \<Rightarrow> 'f cplx list
    \<Rightarrow> ('f cplx list \<times> 'f dsp_worker) option" where
  "filter_block e w input filter_output = do {
     f \<leftarrow> dw_filter w;
     let put_filter = map_option (apsnd (\<lambda>f'. w\<lparr>dw_filter := Some f'\<rparr>));
     (if cc_sdr_type (dw_config w) = SDR_TYPE_HACKRF then put_filter (xlating_process_cs8 w (as_int8 input) f)
      else if cc_sdr_type (dw_config w) = SDR_TYPE_RTL then put_filter (xlating_process_cu8 w (as_uint8 input) f)
      else if cc_sdr_type (dw_config w) = SDR_TYPE_AIRSPY then put_filter (xlating_process_cs16 w (as_int16 e input) f)
      else Some (filter_output, w)) }"

text \<open>One block: filter it, write the output, close the client's socket when writing failed.\<close>

definition handle_block :: "endian \<Rightarrow> ('f cplx \<Rightarrow> u8 list) \<Rightarrow> u8 list \<Rightarrow> 'f cplx list \<times> 'f dsp_worker \<Rightarrow> write_event list
    \<Rightarrow> (sink_action list \<times> ('f cplx list \<times> 'f dsp_worker) \<times> write_event list) option" where
  "handle_block e enc input st evs = do {
     (filter_output, w) \<leftarrow> filter_block e (snd st) input (fst st);
     let bytes = concat (map enc filter_output);
     let config = dw_config w;
     let ((code, acts), evs') =
       (if destination config = REQUEST_DESTINATION_FILE then write_to_file w bytes (length filter_output) evs
        else if destination config = REQUEST_DESTINATION_SOCKET then write_to_socket bytes evs
        else ((- 1, []), evs));
     Some (acts @ (if code \<noteq> 0 then [Closed (client_socket config)] else []), (filter_output, w), evs') }"

fun process_blocks :: "endian \<Rightarrow> ('f cplx \<Rightarrow> u8 list) \<Rightarrow> u8 list list \<Rightarrow> 'f cplx list \<times> 'f dsp_worker \<Rightarrow> write_event list
    \<Rightarrow> (sink_action list \<times> ('f cplx list \<times> 'f dsp_worker) \<times> write_event list) option" where
  "process_blocks e enc [] st evs = Some ([], st, evs)"
| "process_blocks e enc (input # inputs) st evs = do {
     (acts, st', evs') \<leftarrow> handle_block e enc input st evs;
     (acts', st'', evs'') \<leftarrow> process_blocks e enc inputs st' evs';
     Some (acts @ acts', st'', evs'') }"

text \<open>The thread: \<open>inputs\<close> are the blocks taken before the poison pill.\<close>

definition callback :: "endian \<Rightarrow> ('f cplx \<Rightarrow> u8 list) \<Rightarrow> u8 list list \<Rightarrow> 'f dsp_worker \<Rightarrow> write_event list
    \<Rightarrow> sink_action list option" where
  "callback e enc inputs w evs = map_option fst (process_blocks e enc inputs ([], w) evs)"

subsection \<open>Release\<close>

datatype worker_release = Interrupt_queue | Join_thread | Free_thread | Destroy_queue | Close_file | Close_gzip
  | Destroy_filter | Free_worker

definition dsp_worker_destroy :: "'f dsp_worker option \<Rightarrow> worker_release list" where
  "dsp_worker_destroy node =
     (case node of None \<Rightarrow> []
      | Some w \<Rightarrow>
          (if dw_queue w then [Interrupt_queue] else []) @
          (if dw_thread w then [Join_thread, Free_thread] else []) @
          (if dw_queue w then [Destroy_queue] else []) @
          (if dw_file w then [Close_file] else []) @
          (if dw_gz w then [Close_gzip] else []) @
          (if dw_filter w \<noteq> None then [Destroy_filter] else []) @ [Free_worker])"

subsection \<open>Start\<close>

text \<open>
  What the worker can hold.  The filter takes over the taps when it has its own memory; before that
  they are a block of their own.
\<close>

datatype worker_resource = Worker_memory | Taps_memory | Filter_memory | Output_file | Output_gzip | Worker_queue
  | Thread_memory | Worker_thread

fun releases :: "worker_release \<Rightarrow> worker_resource set" where
  "releases Interrupt_queue = {}"
| "releases Join_thread = {Worker_thread}"
| "releases Free_thread = {Thread_memory}"
| "releases Destroy_queue = {Worker_queue}"
| "releases Close_file = {Output_file}"
| "releases Close_gzip = {Output_gzip}"
| "releases Destroy_filter = {Filter_memory}"
| "releases Free_worker = {Worker_memory}"

text \<open>
  The calls whose success the environment decides: the allocations of the taps and of the filter,
  opening the output file, the codes of \<open>create_queue\<close> and \<open>pthread_create\<close>, and the memory of the
  thread handle.  The memory of the worker itself is not checked.
\<close>

record worker_env =
  we_lpf :: "nat \<Rightarrow> bool"
  we_filter :: "nat \<Rightarrow> bool"
  we_open :: bool
  we_queue_code :: int
  we_thread_mem :: bool
  we_thread_code :: int

definition zero_worker :: "client_config \<Rightarrow> 'f dsp_worker" where
  "zero_worker config = \<lparr>dw_config = config, xlating_process_cu8 = \<lambda>_ _. None, xlating_process_cs8 = \<lambda>_ _. None,
     xlating_process_cs16 = \<lambda>_ _. None, dw_queue = False, dw_filter = None, dw_thread = False, dw_file = False,
     dw_gz = False\<rparr>"

definition give_up :: "'f dsp_worker \<Rightarrow> int \<Rightarrow> worker_resource set \<Rightarrow> (int \<times> 'f dsp_worker option) \<times> worker_resource set" where
  "give_up w code held = ((code, None), held - \<Union> (releases ` set (dsp_worker_destroy (Some w))))"

text \<open>The choice of the kernels; an unknown value is refused.\<close>

definition choose_kernels :: "'f fops \<Rightarrow> simd \<Rightarrow> int \<Rightarrow> 'f dsp_worker \<Rightarrow> 'f dsp_worker option" where
  "choose_kernels F simd opt w =
     (if opt = NATIVE_CF32
      then Some (w\<lparr>xlating_process_cu8 := process_native_cu8_cf32 F, xlating_process_cs8 := process_native_cs8_cf32 F,
        xlating_process_cs16 := process_native_cs16_cf32 F\<rparr>)
      else if opt = OPTIMIZED_CF32
      then Some (w\<lparr>xlating_process_cu8 := process_optimized_cu8_cf32 simd F,
        xlating_process_cs8 := process_optimized_cs8_cf32 simd F, xlating_process_cs16 := process_optimized_cs16_cf32 simd F\<rparr>)
      else None)"

text \<open>From the opening of the output to the thread.\<close>

definition start_output :: "worker_env \<Rightarrow> server_config \<Rightarrow> 'f dsp_worker
    \<Rightarrow> (int \<times> 'f dsp_worker option) \<times> worker_resource set" where
  "start_output env server w =
     (let held = {Worker_memory, Filter_memory} in
      if \<not> we_open env then give_up w (- 1) held
      else
        let w1 = (if use_gzip server then w\<lparr>dw_gz := True\<rparr> else w\<lparr>dw_file := True\<rparr>);
            held1 = held \<union> {if use_gzip server then Output_gzip else Output_file}
        in if we_queue_code env \<noteq> 0 then give_up w1 (- 1) held1
        else
          let w2 = w1\<lparr>dw_queue := True\<rparr>; held2 = held1 \<union> {Worker_queue}
          in if \<not> we_thread_mem env then give_up w2 (- ENOMEM) held2
          else if we_thread_code env \<noteq> 0 then give_up w2 (- 1) held2
          else ((0, Some (w2\<lparr>dw_thread := True\<rparr>)), held2 \<union> {Thread_memory, Worker_thread}))"

definition dsp_worker_start :: "'f fops \<Rightarrow> ('f, 'd) mops \<Rightarrow> simd \<Rightarrow> worker_env \<Rightarrow> client_config \<Rightarrow> server_config
    \<Rightarrow> ((int \<times> 'f dsp_worker option) \<times> worker_resource set) option" where
  "dsp_worker_start F M simd env config server =
     (let w = zero_worker config; rate = sampling_rate config; cutoff = word_of_int (lpf_cutoff_rate server) in
      if cutoff = 0 then None
      else do {
        lpf \<leftarrow> create_low_pass_filter F M (we_lpf env) (f_one F) (unat (band_sampling_rate server)) (unat (rate div 2))
          (unat (rate div cutoff));
        (case lpf of
           Inl code \<Rightarrow> Some (give_up w code {Worker_memory})
         | Inr taps \<Rightarrow>
             if rate = 0 then None
             else do {
               flt \<leftarrow> create_frequency_xlating_filter F (we_filter env) (unat (band_sampling_rate server div rate)) taps
                 (to_i32 (uint (center_freq config) - uint (band_freq config))) (unat (band_sampling_rate server))
                 (unat (buffer_size server));
               (case flt of
                  Inl code \<Rightarrow> Some (give_up w code
                    (if we_filter env 0 then {Worker_memory} else {Worker_memory, Taps_memory}))
                | Inr f \<Rightarrow>
                    let w1 = w\<lparr>dw_filter := Some f\<rparr> in
                    case choose_kernels F simd (optimization server) w1 of
                      None \<Rightarrow> Some (give_up w1 (- 1) {Worker_memory, Filter_memory})
                    | Some w2 \<Rightarrow> Some (start_output env server w2)) }) })"

end
