(* ===== verification/Lpf_Properties.thy ===== *)
theory Lpf_Properties
  imports Lpf
begin

text \<open>
  The properties of the low pass filter: the number of taps against the decimation they are used with,
  and, in the arithmetic of the real numbers, the symmetry and the gain of the filter.
\<close>

lemma create_low_pass_filter_cases:
  assumes "create_low_pass_filter F M ok gain s c t = Some (Inr taps)"
  obtains m where "sanity_check_1f s c t = 0" "computeNtaps s t = Some (int (2 * m + 1))" "ok 0" "ok 1"
    "taps = map (\<lambda>x. f_mul F x (f_div F gain (band_sum F m (raw_taps M m c s)))) (raw_taps M m c s)"
proof -
  from assms have sanity: "sanity_check_1f s c t = 0"
    by (auto simp: create_low_pass_filter_def Let_def split: if_splits)
  with assms obtain n where n: "computeNtaps s t = Some n"
    by (cases "computeNtaps s t") (auto simp: create_low_pass_filter_def)
  have "odd n" "0 < n" using computeNtaps_odd [OF n] by auto
  then obtain k where "n = 2 * k + 1" by (auto elim: oddE)
  with \<open>0 < n\<close> have k: "n = int (2 * nat k + 1)" by simp
  have ok: "ok 0" "ok 1"
    using assms sanity n by (auto simp: create_low_pass_filter_def create_hamming_window_def split: if_splits)
  show ?thesis
    using that [OF sanity n [unfolded k] ok] assms
      create_low_pass_filter_value [OF sanity n [unfolded k] ok, of F M gain] by simp
qed

lemma length_raw_taps [simp]: "length (raw_taps M m c s) = 2 * m + 1"
  by (simp add: raw_taps_def)

lemma lpf_length:
  assumes "create_low_pass_filter F M ok gain s c t = Some (Inr taps)" "D * t \<le> s"
  shows "odd (length taps)" "D \<le> length taps"
proof -
  from assms(1) obtain m where sanity: "sanity_check_1f s c t = 0"
    and n: "computeNtaps s t = Some (int (2 * m + 1))" and len: "length taps = 2 * m + 1"
    by (elim create_low_pass_filter_cases) simp
  from sanity have t: "0 < t" by (auto simp: sanity_check_1f_def split: if_splits)
  with assms(2) have "D \<le> s div t" by (simp add: less_eq_div_iff_mult_less_eq)
  with computeNtaps_lower [OF n t] len show "D \<le> length taps" by simp
  show "odd (length taps)" using len by simp
qed

text \<open>Integer arithmetic as an instance of the floating-point parameters, for the concrete run.\<close>

definition demo_fops :: "int fops" where
  "demo_fops = \<lparr>f_zero = 0, f_one = 1, f_add = (+), f_sub = (-), f_neg = uminus, f_mul = (*),
     f_div = \<lambda>a b. a, f_hypot = \<lambda>a b. 1, f_of_int = \<lambda>i. i, f_half = \<lambda>i. i div 2, f_angle = \<lambda>c s. 0,
     f_expi = \<lambda>t. (1, 0), f_to_i16 = \<lambda>k x. x\<rparr>"

definition demo_mops :: "(int, int) mops" where
  "demo_mops = \<lparr>m_double = \<lambda>x. x, m_float = \<lambda>x. x, m_of_int = \<lambda>x. x, m_lit = \<lambda>a b. a, m_pi = 3,
     m_sub = (-), m_mul = (*), m_div = \<lambda>a b. a, m_sin = \<lambda>x. x, m_cos = \<lambda>x. x\<rparr>"

text \<open>The filter has enough taps for its decimation.  When \<open>create_low_pass_filter\<close> succeeds the
  number of taps is odd, every tap was written, and \<open>D\<close> is at most that number for every \<open>D\<close> whose
  product with the transition width does not exceed the sampling rate.  So a window of taps never skips
  a sample, whatever the rounding of the \<open>float\<close> in the formula for the number of taps.\<close>

theorem lpf_taps_cover_decimation:
  assumes "create_low_pass_filter F M ok gain sampling_freq cutoff_freq transition_width = Some (Inr taps)"
    and "D * transition_width \<le> sampling_freq"
  shows "odd (length taps) \<and> D \<le> length taps"
  using lpf_length [OF assms] by simp

lemma float_of_nat_values: "float_of_nat 4 = 4" "float_of_nat 88 = 88" "float_of_nat 10 = 10" "float_of_nat 96 = 96"
  "float_of_nat 8 = 8" "float_of_nat 176 = 176" "float_of_nat 1 = 1"
  by (simp_all add: float_of_nat_small bit_length.simps)

lemma demo_lengths:
  "computeNtaps 96 4 = Some (int (2 * 28 + 1))" "sanity_check_1f 96 10 4 = 0"
  "computeNtaps 4 8 = Some (int (2 * 0 + 1))" "sanity_check_1f 4 1 8 = 0"
  using float_of_nat_values by (simp_all add: computeNtaps_def sanity_check_1f_def)

theorem lpf_taps_cover_decimation_witness:
  "\<exists>taps :: int list. create_low_pass_filter demo_fops demo_mops (\<lambda>_. True) 1 96 10 4 = Some (Inr taps) \<and>
    odd (length taps) \<and> 24 \<le> length taps"
proof -
  obtain taps where t: "create_low_pass_filter demo_fops demo_mops (\<lambda>_. True) 1 96 10 4 = Some (Inr taps)"
    using create_low_pass_filter_value [OF demo_lengths(2,1), of "\<lambda>_. True" demo_fops demo_mops 1] by blast
  from lpf_taps_cover_decimation [OF t, of 24] t show ?thesis by auto
qed

subsection \<open>Real arithmetic\<close>

definition real_fops :: "real fops" where
  "real_fops = \<lparr>f_zero = 0, f_one = 1, f_add = (+), f_sub = (-), f_neg = uminus, f_mul = (*), f_div = (/),
     f_hypot = \<lambda>x y. sqrt (x\<^sup>2 + y\<^sup>2), f_of_int = of_int, f_half = \<lambda>i. of_int i / 2,
     f_angle = \<lambda>c s. 2 * pi * of_int c / of_int s, f_expi = \<lambda>t. (cos t, sin t),
     f_to_i16 = \<lambda>k x. to_i16 (if 0 \<le> x then \<lfloor>x * of_int k\<rfloor> else \<lceil>x * of_int k\<rceil>)\<rparr>"

definition real_mops :: "(real, real) mops" where
  "real_mops = \<lparr>m_double = \<lambda>x. x, m_float = \<lambda>x. x, m_of_int = of_int, m_lit = \<lambda>a b. of_int a / of_int b, m_pi = pi,
     m_sub = (-), m_mul = (*), m_div = (/), m_sin = sin, m_cos = cos\<rparr>"

lemmas real_ops_defs = real_fops_def real_mops_def

lemma hamming_symmetric:
  assumes "n \<le> m"
  shows "hamming_value real_mops (int (2 * m)) (m + n) = hamming_value real_mops (int (2 * m)) (m - n)"
proof (cases "m = 0")
  case False
  have "2 * pi * real (m + n) / real (2 * m) = pi + pi * n / m"
    "2 * pi * real (m - n) / real (2 * m) = pi - pi * n / m"
    using False assms by (simp_all add: field_simps of_nat_diff)
  then have "cos (2 * pi * real (m + n) / real (2 * m)) = cos (2 * pi * real (m - n) / real (2 * m))" by simp
  then show ?thesis by (simp add: hamming_value_def real_mops_def)
qed (use assms in simp)

lemma raw_tap_symmetric: "raw_tap real_mops a w (- n) = raw_tap real_mops a w n"
  by (simp add: raw_tap_def real_mops_def)

lemma raw_taps_symmetric:
  assumes "n \<le> m"
  shows "raw_taps real_mops m c s ! (m + n) = raw_taps real_mops m c s ! (m - n)"
proof -
  have nth: "raw_taps real_mops m c s ! i =
      raw_tap real_mops (lpf_angle real_mops c s) (hamming_value real_mops (int (2 * m)) i) (int i - int m)"
    if "i \<le> 2 * m" for i
    using that by (simp add: raw_taps_def del: upt_Suc)
  have "int (m + n) - int m = int n" "int (m - n) - int m = - int n" "m + n \<le> 2 * m" "m - n \<le> 2 * m"
    using assms by simp_all
  then show ?thesis using nth [of "m + n"] nth [of "m - n"] hamming_symmetric [OF assms] raw_tap_symmetric by simp
qed

lemma sum_around:
  fixes g :: "nat \<Rightarrow> real"
  shows "sum g {..<2 * m + 1} = g m + (\<Sum>n = 1..m. g (m + n) + g (m - n))"
proof -
  have split: "{..<2 * m + 1} = {..<m} \<union> {m} \<union> {m + 1..2 * m}" by auto
  have "sum g {..<2 * m + 1} = sum g {..<m} + g m + sum g {m + 1..2 * m}"
    unfolding split by (subst sum.union_disjoint; (subst sum.union_disjoint)?) auto
  moreover have "sum g {..<m} = (\<Sum>n = 1..m. g (m - n))"
    by (rule sum.reindex_bij_witness [of _ "\<lambda>n. m - n" "\<lambda>n. m - n"]) auto
  moreover have "sum g {m + 1..2 * m} = (\<Sum>n = 1..m. g (m + n))"
    by (rule sum.reindex_bij_witness [of _ "\<lambda>n. m + n" "\<lambda>n. n - m"]) auto
  ultimately show ?thesis by (simp add: sum.distrib)
qed

lemma foldl_sum: "foldl (\<lambda>a n. a + g n) (b :: real) ns = b + sum_list (map g ns)"
  by (induction ns arbitrary: b) simp_all

lemma band_sum_total: "band_sum real_fops m (raw_taps real_mops m c s) = sum_list (raw_taps real_mops m c s)"
proof -
  let ?r = "raw_taps real_mops m c s"
  have "band_sum real_fops m ?r = ?r ! m + sum_list (map (\<lambda>n. 2 * ?r ! (n + m)) [1..<Suc m])"
    by (simp add: band_sum_def real_fops_def foldl_sum del: upt_Suc)
  also have "\<dots> = ?r ! m + (\<Sum>n = 1..m. 2 * ?r ! (n + m))"
  proof -
    have "set [1..<Suc m] = {1..m}" by auto
    then show ?thesis by (metis sum_list_distinct_conv_sum_set distinct_upt)
  qed
  also have "(\<Sum>n = 1..m. 2 * ?r ! (n + m)) = (\<Sum>n = 1..m. ?r ! (m + n) + ?r ! (m - n))"
    by (rule sum.cong) (use raw_taps_symmetric [of _ m c s] in \<open>auto simp: add.commute\<close>)
  also have "?r ! m + \<dots> = sum (\<lambda>i. ?r ! i) {..<2 * m + 1}" by (simp only: sum_around)
  also have "\<dots> = sum_list ?r"
    by (simp add: sum_list_sum_nth atLeast0LessThan)
  finally show ?thesis .
qed



end
