(* ===== verification/Dsp_Worker_Properties.thy ===== *)
theory Dsp_Worker_Properties
  imports Dsp_Worker Lpf_Properties Xlating_Properties
begin

text \<open>
  The properties of the worker: what a start acquires and releases, the stream a client receives, and
  the error behaviour of the output.
\<close>

subsection \<open>The start\<close>

lemma lpf_error_nonzero: "create_low_pass_filter F M ok g s c t = Some (Inl code) \<Longrightarrow> code \<noteq> 0"
  by (auto simp: create_low_pass_filter_def create_hamming_window_def sanity_check_1f_def errno_defs Let_def
      split: if_splits sum.splits Option.bind_splits)

lemma filter_error_nonzero:
  "create_frequency_xlating_filter F ok D taps c s m = Some (Inl code) \<Longrightarrow> code \<noteq> 0"
  by (auto simp: create_frequency_xlating_filter_def errno_defs Let_def split: if_splits)

lemma kernels_keep:
  assumes "choose_kernels F simd opt w = Some w'"
  shows "dw_config w' = dw_config w" "dw_filter w' = dw_filter w" "dw_queue w' = dw_queue w"
    "dw_thread w' = dw_thread w" "dw_file w' = dw_file w" "dw_gz w' = dw_gz w"
  using assms by (auto simp: choose_kernels_def split: if_splits)

definition full_set :: "server_config \<Rightarrow> worker_resource set" where
  "full_set server = {Worker_memory, Filter_memory, if use_gzip server then Output_gzip else Output_file, Worker_queue,
     Thread_memory, Worker_thread}"

lemma start_output_outcome:
  assumes "start_output env server w = ((code, r), held)" "dw_filter w \<noteq> None"
    "\<not> dw_queue w" "\<not> dw_thread w" "\<not> dw_file w" "\<not> dw_gz w"
  shows "if code = 0
    then \<exists>w'. r = Some w' \<and> held = full_set server \<and> \<Union> (releases ` set (dsp_worker_destroy r)) = held \<and>
      w' = w\<lparr>dw_gz := use_gzip server, dw_file := \<not> use_gzip server, dw_queue := True, dw_thread := True\<rparr>
    else r = None \<and> held = {}"
proof -
  obtain f where f: "dw_filter w = Some f" using assms(2) by auto
  note fresh = f assms(3-6)
  consider "\<not> we_open env" | "we_open env" "we_queue_code env \<noteq> 0"
    | "we_open env" "we_queue_code env = 0" "\<not> we_thread_mem env"
    | "we_open env" "we_queue_code env = 0" "we_thread_mem env" "we_thread_code env \<noteq> 0"
    | "we_open env" "we_queue_code env = 0" "we_thread_mem env" "we_thread_code env = 0" by blast
  then show ?thesis
  proof cases
    case 1
    with assms(1) fresh show ?thesis
      by (auto simp: start_output_def give_up_def dsp_worker_destroy_def)
  next
    case 2
    with assms(1) fresh show ?thesis
      by (cases "use_gzip server") (auto simp: start_output_def Let_def give_up_def dsp_worker_destroy_def)
  next
    case 3
    with assms(1) fresh show ?thesis
      by (cases "use_gzip server") (auto simp: start_output_def Let_def give_up_def dsp_worker_destroy_def errno_defs)
  next
    case 4
    with assms(1) fresh show ?thesis
      by (cases "use_gzip server") (auto simp: start_output_def Let_def give_up_def dsp_worker_destroy_def)
  next
    case 5
    let ?w = "w\<lparr>dw_gz := use_gzip server, dw_file := \<not> use_gzip server, dw_queue := True, dw_thread := True\<rparr>"
    from 5 assms(1) fresh have "code = 0" "r = Some ?w" "held = full_set server"
      by (cases "use_gzip server"; cases w; auto simp: start_output_def Let_def full_set_def)+
    moreover have "\<Union> (releases ` set (dsp_worker_destroy (Some ?w))) = full_set server"
      using fresh by (cases "use_gzip server") (auto simp: dsp_worker_destroy_def full_set_def)
    ultimately show ?thesis by simp
  qed
qed

text \<open>What a start goes through, whatever its result.\<close>

lemma dsp_worker_start_cases:
  assumes "dsp_worker_start F M simd env config server = Some ((code, r), held)"
  obtains
    (refused) "code \<noteq> 0" "r = None" "held = {}"
  | (leaked) "code \<noteq> 0" "r = None" "held = {Taps_memory}" "\<not> we_filter env 0"
  | (opened) taps f w where
      "create_low_pass_filter F M (we_lpf env) (f_one F) (unat (band_sampling_rate server)) (unat (sampling_rate config div 2))
        (unat (sampling_rate config div word_of_int (lpf_cutoff_rate server))) = Some (Inr taps)"
      "create_frequency_xlating_filter F (we_filter env) (unat (band_sampling_rate server div sampling_rate config)) taps
        (to_i32 (uint (center_freq config) - uint (band_freq config))) (unat (band_sampling_rate server))
        (unat (buffer_size server)) = Some (Inr f)"
      "choose_kernels F simd (optimization server) ((zero_worker config)\<lparr>dw_filter := Some f\<rparr>) = Some w"
      "start_output env server w = ((code, r), held)"
proof -
  let ?lpf = "create_low_pass_filter F M (we_lpf env) (f_one F) (unat (band_sampling_rate server)) (unat (sampling_rate config div 2))
        (unat (sampling_rate config div word_of_int (lpf_cutoff_rate server)))"
  have empty: "give_up (zero_worker config) c {Worker_memory} = ((c, None), {})" for c
    by (simp add: give_up_def dsp_worker_destroy_def zero_worker_def)
  from assms obtain lpf where lpf: "?lpf = Some lpf"
    by (cases ?lpf) (auto simp: dsp_worker_start_def Let_def split: if_splits)
  show ?thesis
  proof (cases lpf)
    case (Inl c)
    have "give_up (zero_worker config) c {Worker_memory} = ((code, r), held)"
      using assms lpf Inl by (simp add: dsp_worker_start_def Let_def split: if_splits)
    then have "code = c" "r = None" "held = {}" unfolding empty by simp_all
    moreover have "c \<noteq> 0" by (rule lpf_error_nonzero [OF lpf [unfolded Inl]])
    ultimately show ?thesis by (auto intro: refused)
  next
    case (Inr taps)
    let ?flt = "create_frequency_xlating_filter F (we_filter env) (unat (band_sampling_rate server div sampling_rate config)) taps
        (to_i32 (uint (center_freq config) - uint (band_freq config))) (unat (band_sampling_rate server))
        (unat (buffer_size server))"
    from assms lpf Inr obtain flt where flt: "?flt = Some flt"
      by (cases ?flt) (auto simp: dsp_worker_start_def Let_def split: if_splits)
    show ?thesis
    proof (cases flt)
      case (Inl c)
      have "code = c" "r = None" "held = (if we_filter env 0 then {} else {Taps_memory})"
        using assms lpf Inr flt Inl
        by (auto simp: dsp_worker_start_def Let_def give_up_def dsp_worker_destroy_def zero_worker_def split: if_splits)
      moreover have "c \<noteq> 0" by (rule filter_error_nonzero [OF flt [unfolded Inl]])
      ultimately show ?thesis by (cases "we_filter env 0") (auto intro: refused leaked)
    next
      case f: (Inr f)
      let ?w1 = "(zero_worker config)\<lparr>dw_filter := Some f\<rparr>"
      show ?thesis
      proof (cases "choose_kernels F simd (optimization server) ?w1")
        case None
        have "code = - 1" "r = None" "held = {}"
          using assms lpf Inr flt f None
          by (auto simp: dsp_worker_start_def Let_def give_up_def dsp_worker_destroy_def zero_worker_def split: if_splits)
        then show ?thesis by (auto intro: refused)
      next
        case (Some w)
        have "start_output env server w = ((code, r), held)"
          using assms lpf Inr flt f Some by (auto simp: dsp_worker_start_def Let_def split: if_splits)
        with lpf Inr flt f Some show ?thesis by (auto intro: opened)
      qed
    qed
  qed
qed

lemma fresh_kernels:
  assumes "choose_kernels F simd opt ((zero_worker config)\<lparr>dw_filter := Some f\<rparr>) = Some w"
  shows "dw_filter w = Some f" "dw_config w = config" "\<not> dw_queue w" "\<not> dw_thread w" "\<not> dw_file w" "\<not> dw_gz w"
  using kernels_keep [OF assms] by (simp_all add: zero_worker_def)



lemma dsp_worker_start_value:
  assumes "(word_of_int (lpf_cutoff_rate server) :: u32) \<noteq> 0" "sampling_rate config \<noteq> 0"
    and "create_low_pass_filter F M (we_lpf env) (f_one F) (unat (band_sampling_rate server)) (unat (sampling_rate config div 2))
        (unat (sampling_rate config div word_of_int (lpf_cutoff_rate server))) = Some (Inr taps)"
    and "create_frequency_xlating_filter F (we_filter env) (unat (band_sampling_rate server div sampling_rate config)) taps
        (to_i32 (uint (center_freq config) - uint (band_freq config))) (unat (band_sampling_rate server))
        (unat (buffer_size server)) = Some (Inr f)"
    and "choose_kernels F simd (optimization server) ((zero_worker config)\<lparr>dw_filter := Some f\<rparr>) = Some w"
  shows "dsp_worker_start F M simd env config server = Some (start_output env server w)"
  using assms by (simp add: dsp_worker_start_def Let_def)

definition good_worker_env :: worker_env where
  "good_worker_env = \<lparr>we_lpf = \<lambda>_. True, we_filter = \<lambda>_. True, we_open = True, we_queue_code = 0, we_thread_mem = True,
     we_thread_code = 0\<rparr>"

lemma len32: "LENGTH(32) = 32"
  by simp

text \<open>The parts of a worker that the start of an accepted client finds.\<close>

lemma valid_client_parts:
  assumes "2 \<le> unat (sampling_rate config)" "band_sampling_rate server mod sampling_rate config = 0"
    and "0 < band_sampling_rate server" "1 \<le> lpf_cutoff_rate server"
    and "lpf_cutoff_rate server \<le> int (unat (sampling_rate config))"
    and "computeNtaps (unat (band_sampling_rate server)) (unat (sampling_rate config div word_of_int (lpf_cutoff_rate server))) \<noteq> None"
    and "optimization server = NATIVE_CF32 \<or> optimization server = OPTIMIZED_CF32"
  obtains taps f w where
    "create_low_pass_filter F M (we_lpf good_worker_env) (f_one F) (unat (band_sampling_rate server)) (unat (sampling_rate config div 2))
      (unat (sampling_rate config div word_of_int (lpf_cutoff_rate server))) = Some (Inr taps)"
    "create_frequency_xlating_filter F (we_filter good_worker_env) (unat (band_sampling_rate server div sampling_rate config)) taps
      (to_i32 (uint (center_freq config) - uint (band_freq config))) (unat (band_sampling_rate server))
      (unat (buffer_size server)) = Some (Inr f)"
    "choose_kernels F simd (optimization server) ((zero_worker config)\<lparr>dw_filter := Some f\<rparr>) = Some w"
    "(word_of_int (lpf_cutoff_rate server) :: u32) \<noteq> 0" "sampling_rate config \<noteq> 0"
proof -
  let ?s = "unat (band_sampling_rate server)" and ?r = "unat (sampling_rate config)"
  let ?c = "word_of_int (lpf_cutoff_rate server) :: u32"
  let ?t = "unat (sampling_rate config div ?c)"
  have r: "sampling_rate config \<noteq> 0" using assms(1) by auto
  have r32: "int ?r < 4294967296" using uint_lt2p [of "sampling_rate config"] unfolding uint_nat by simp
  have c: "unat ?c = nat (lpf_cutoff_rate server)"
  proof -
    have "uint ?c = lpf_cutoff_rate server mod 2 ^ 32" by (simp only: uint_word_of_int_eq take_bit_eq_mod len32)
    also have "\<dots> = lpf_cutoff_rate server" by (rule mod_pos_pos_trivial) (use assms(4,5) r32 in simp_all)
    finally show ?thesis by (simp only: unat_eq_nat_uint)
  qed
  have c0: "?c \<noteq> 0"
  proof
    assume "?c = 0"
    with c have "nat (lpf_cutoff_rate server) = 0" by simp
    with assms(4) show False by simp
  qed
  have "unat ?c \<le> ?r" "0 < unat ?c" unfolding c using assms(4,5) by linarith+
  then have t: "0 < ?t" by (simp add: unat_div div_greater_zero_iff)
  have dvd: "?r dvd ?s"
    using assms(2) by (metis unat_mod unsigned_0 mod_eq_0_iff_dvd)
  have s: "0 < ?s" using assms(3) by (simp add: unat_gt_0)
  with dvd have le: "?r \<le> ?s" by (simp add: dvd_imp_le)
  have half: "unat (sampling_rate config div 2) = ?r div 2" by (simp add: unat_div)
  have "2 * (?r div 2) \<le> ?s" using le by linarith
  then have "2 * float_of_nat (?r div 2) \<le> float_of_nat ?s"
    using float_of_nat_mono [of "2 * (?r div 2)" ?s] by (simp add: float_of_nat_double)
  then have sanity: "sanity_check_1f ?s (unat (sampling_rate config div 2)) ?t = 0"
    using s t assms(1) unfolding half by (simp add: sanity_check_1f_def)
  from assms(6) obtain n where n: "computeNtaps ?s ?t = Some n" by blast
  then obtain k where "n = 2 * k + 1" "0 < n" using computeNtaps_odd [OF n] by (auto elim: oddE)
  then have "n = int (2 * nat k + 1)" by simp
  with n obtain taps where taps: "create_low_pass_filter F M (we_lpf good_worker_env) (f_one F) ?s
      (unat (sampling_rate config div 2)) ?t = Some (Inr taps)"
    using create_low_pass_filter_value [OF sanity, of "nat k" "we_lpf good_worker_env" F M "f_one F"] by (auto simp: good_worker_env_def)
  then have "taps \<noteq> []" using lpf_length(1) [OF taps, of 0] by auto
  moreover have "unat (band_sampling_rate server div sampling_rate config) \<noteq> 0"
    using le assms(1) by (simp add: unat_div div_eq_0_iff)
  ultimately obtain f where f: "create_frequency_xlating_filter F (we_filter good_worker_env)
      (unat (band_sampling_rate server div sampling_rate config)) taps
      (to_i32 (uint (center_freq config) - uint (band_freq config))) ?s (unat (buffer_size server)) = Some (Inr f)"
    by (simp add: create_frequency_xlating_filter_def good_worker_env_def Let_def)
  obtain w where w: "choose_kernels F simd (optimization server) ((zero_worker config)\<lparr>dw_filter := Some f\<rparr>) = Some w"
    using assms(7) by (auto simp: choose_kernels_def NATIVE_CF32_def OPTIMIZED_CF32_def)
  show ?thesis by (rule that [OF taps f w c0 r])
qed


text \<open>A client at 48 Hz in a band of 96 Hz, for the concrete runs.\<close>

definition demo_worker_client :: client_config where
  "demo_worker_client = zero_client\<lparr>center_freq := 100, sampling_rate := 48, band_freq := 100, destination := REQUEST_DESTINATION_SOCKET,
     client_socket := 5, is_running := True\<rparr>"

definition demo_server_config :: server_config where
  "demo_server_config = zero_config\<lparr>band_sampling_rate := 96, lpf_cutoff_rate := 12, buffer_size := 16, use_gzip := True,
     optimization := OPTIMIZED_CF32\<rparr>"

lemma demo_fields:
  "sampling_rate demo_worker_client = 48" "band_sampling_rate demo_server_config = 96" "lpf_cutoff_rate demo_server_config = 12"
  "optimization demo_server_config = OPTIMIZED_CF32" "buffer_size demo_server_config = 16"
  "destination demo_worker_client = REQUEST_DESTINATION_SOCKET" "cc_sdr_type demo_worker_client = SDR_TYPE_RTL"
  "unat (sampling_rate demo_worker_client) = 48" "unat (band_sampling_rate demo_server_config) = 96"
  "unat (48 div word_of_int 12 :: u32) = 4"
  by (simp_all add: demo_worker_client_def demo_server_config_def zero_client_def SDR_TYPE_RTL_def)

lemma demo_premises:
  "2 \<le> unat (sampling_rate demo_worker_client)" "band_sampling_rate demo_server_config mod sampling_rate demo_worker_client = 0"
  "0 < band_sampling_rate demo_server_config" "1 \<le> lpf_cutoff_rate demo_server_config"
  "lpf_cutoff_rate demo_server_config \<le> int (unat (sampling_rate demo_worker_client))"
  "computeNtaps (unat (band_sampling_rate demo_server_config))
     (unat (sampling_rate demo_worker_client div word_of_int (lpf_cutoff_rate demo_server_config))) \<noteq> None"
  "optimization demo_server_config = NATIVE_CF32 \<or> optimization demo_server_config = OPTIMIZED_CF32"
  using demo_lengths(1) by (simp_all add: demo_fields)



end
