(* ===== verification/Dsp_Worker_Output.thy ===== *)
theory Dsp_Worker_Output
  imports Dsp_Worker_Properties
begin

text \<open>
  What a client receives from its worker: the stream of a socket client, the behaviour after a failed
  write, the accounting of a file, and the sample types the worker knows.
\<close>

subsection \<open>The loop as a run of the kernel\<close>

definition delivered :: "sink_action list \<Rightarrow> u8 list" where
  "delivered acts = concat (map (\<lambda>a. case a of Stored bs \<Rightarrow> bs | Sent bs \<Rightarrow> bs | Closed fd \<Rightarrow> []) acts)"

lemma delivered_simps [simp]:
  "delivered [] = []" "delivered (Sent bs # acts) = bs @ delivered acts" "delivered (Stored bs # acts) = bs @ delivered acts"
  "delivered (Closed fd # acts) = delivered acts" "delivered (acts @ acts') = delivered acts @ delivered acts'"
  by (simp_all add: delivered_def)

definition no_error :: "write_event list \<Rightarrow> bool" where
  "no_error evs \<longleftrightarrow> (\<forall>ev \<in> set evs. case ev of Write_error err \<Rightarrow> False | Accept n \<Rightarrow> True)"

lemma write_loop_no_error:
  "no_error evs \<Longrightarrow> \<exists>evs'. write_loop buf evs = ((0, buf), evs') \<and> no_error evs'"
proof (induction buf evs rule: write_loop.induct)
  case (2 buf ev evs)
  then show ?case by (cases ev; cases "buf = []") (auto simp: no_error_def)
qed (simp add: no_error_def)

lemma run_blocks_map: "run_blocks (\<lambda>b. step (g b)) bs s = run_blocks step (map g bs) s"
proof (induction bs arbitrary: s)
  case (Cons b bs)
  then show ?case by (cases "step (g b) s") (simp_all add: split_beta)
qed simp

text \<open>
  The output is undisturbed when no write of a socket client fails; for a file, when everything is
  written, a sample being eight bytes.
\<close>

definition undisturbed :: "client_config \<Rightarrow> ('f cplx \<Rightarrow> u8 list) \<Rightarrow> write_event list \<Rightarrow> bool" where
  "undisturbed config enc evs \<longleftrightarrow> destination config = REQUEST_DESTINATION_SOCKET \<and> no_error evs \<or>
     destination config = REQUEST_DESTINATION_FILE \<and> evs = [] \<and> (\<forall>z. length (enc z) = 8)"

definition output_open :: "'f dsp_worker \<Rightarrow> bool" where
  "output_open w \<longleftrightarrow> dw_file w \<or> dw_gz w"

lemma length_encoded: "\<forall>z. length (enc z) = 8 \<Longrightarrow> length (concat (map enc os)) = 8 * length os"
  by (induction os) simp_all

lemma handle_block_writes:
  assumes "filter_block e w b out = Some (os, w1)" "undisturbed (dw_config w1) enc evs" "output_open w1"
  shows "\<exists>act evs'. handle_block e enc b (out, w) evs = Some ([act], (os, w1), evs') \<and> undisturbed (dw_config w1) enc evs' \<and>
    delivered [act] = concat (map enc os) \<and> (\<forall>fd. act \<noteq> Closed fd)"
  using assms(2) [unfolded undisturbed_def]
proof (elim disjE conjE)
  assume d: "destination (dw_config w1) = REQUEST_DESTINATION_SOCKET" "no_error evs"
  obtain evs1 where "write_loop (concat (map enc os)) evs = ((0, concat (map enc os)), evs1)" "no_error evs1"
    using write_loop_no_error [OF d(2)] by blast
  with assms(1) d(1) show ?thesis
    by (simp add: handle_block_def write_to_socket_def undisturbed_def REQUEST_DESTINATION_SOCKET_def REQUEST_DESTINATION_FILE_def)
next
  assume d: "destination (dw_config w1) = REQUEST_DESTINATION_FILE" "evs = []" "\<forall>z. length (enc z) = 8"
  note len = length_encoded [OF d(3), of os]
  have "write_to_file w1 (concat (map enc os)) (length os) [] = ((0, [Stored (concat (map enc os))]), [])"
    using assms(3) len by (auto simp: write_to_file_def output_open_def)
  with assms(1) d show ?thesis
    by (simp add: handle_block_def undisturbed_def REQUEST_DESTINATION_SOCKET_def REQUEST_DESTINATION_FILE_def)
qed

lemma process_blocks_run:
  assumes "\<And>b f out. filter_block e (w\<lparr>dw_filter := Some f\<rparr>) b out =
      map_option (apsnd (\<lambda>f'. w\<lparr>dw_filter := Some f'\<rparr>)) (step b f)"
    and "run_blocks step inputs f = Some (os, f')" "undisturbed (dw_config w) enc evs" "output_open w"
  shows "\<exists>acts st evs'. process_blocks e enc inputs (out, w\<lparr>dw_filter := Some f\<rparr>) evs = Some (acts, st, evs') \<and>
    delivered acts = concat (map enc os) \<and> (\<forall>fd. Closed fd \<notin> set acts)"
  using assms(2,3)
proof (induction inputs arbitrary: f os evs out)
  case Nil
  then show ?case by simp
next
  case (Cons b inputs)
  from Cons.prems(1) obtain o1 f1 o2 where k: "step b f = Some (o1, f1)"
    and r: "run_blocks step inputs f1 = Some (o2, f')" and os: "os = o1 @ o2"
    by (auto split: Option.bind_splits prod.splits simp: apfst_def map_prod_def)
  have "output_open (w\<lparr>dw_filter := Some f1\<rparr>)" using assms(4) by (simp add: output_open_def)
  from handle_block_writes [OF _ _ this, of e "w\<lparr>dw_filter := Some f\<rparr>" b out o1 enc evs] k Cons.prems(2) assms(1)
  obtain act evs1 where h: "handle_block e enc b (out, w\<lparr>dw_filter := Some f\<rparr>) evs =
      Some ([act], (o1, w\<lparr>dw_filter := Some f1\<rparr>), evs1)"
    and u: "undisturbed (dw_config w) enc evs1" and d: "delivered [act] = concat (map enc o1)" "\<forall>fd. act \<noteq> Closed fd"
    by auto
  from Cons.IH [OF r u, of o1] obtain acts st evs' where
    p: "process_blocks e enc inputs (o1, w\<lparr>dw_filter := Some f1\<rparr>) evs1 = Some (acts, st, evs')"
      "delivered acts = concat (map enc o2)" "\<forall>fd. Closed fd \<notin> set acts" by blast
  have "delivered (act # acts) = delivered [act] @ delivered acts" using delivered_simps(5) [of "[act]" acts] by simp
  with h d p os show ?case by auto
qed

subsection \<open>The kernels of a worker\<close>

definition build_simd :: "int \<Rightarrow> simd \<Rightarrow> simd" where
  "build_simd opt V = (if opt = NATIVE_CF32 then Simd_none else V)"

text \<open>The types of device the loop has a kernel for, and the samples each makes of a block.\<close>

definition filtered_types :: "int set" where
  "filtered_types = {SDR_TYPE_HACKRF, SDR_TYPE_RTL, SDR_TYPE_AIRSPY}"

definition block_samples :: "endian \<Rightarrow> int \<Rightarrow> 'f fops \<Rightarrow> u8 list \<Rightarrow> 'f cplx list" where
  "block_samples e sdr F b =
     (if sdr = SDR_TYPE_HACKRF then samples_cf32 (sample_cs8_cf32 F) (as_int8 b)
      else if sdr = SDR_TYPE_RTL then samples_cf32 (sample_cu8_cf32 F) (as_uint8 b)
      else samples_cf32 (sample_cs16_cf32 F) (as_int16 e b))"

lemma samples_length [simp]: "length (samples_cf32 conv xs) = length xs div 2"
  by (simp add: samples_cf32_def)

lemma as_int16_length: "length (as_int16 e b) = length b div 2"
  by (induction e b rule: as_int16.induct) simp_all

lemma block_samples_length: "length b \<le> m \<Longrightarrow> length (block_samples e sdr F b) \<le> m div 2"
  by (auto simp: block_samples_def as_int8_def as_uint8_def as_int16_length intro: div_le_mono)

definition has_kernels :: "'f fops \<Rightarrow> simd \<Rightarrow> 'f dsp_worker \<Rightarrow> bool" where
  "has_kernels F V w \<longleftrightarrow> xlating_process_cu8 w = process_optimized_cu8_cf32 V F \<and>
     xlating_process_cs8 w = process_optimized_cs8_cf32 V F \<and> xlating_process_cs16 w = process_optimized_cs16_cf32 V F"

lemma chosen_kernels: "choose_kernels F V opt w = Some w' \<Longrightarrow> has_kernels F (build_simd opt V) w'"
  by (auto simp: choose_kernels_def has_kernels_def build_simd_def process_native_cu8_cf32_def process_native_cs8_cf32_def
      process_native_cs16_cf32_def process_optimized_cu8_cf32_def process_optimized_cs8_cf32_def
      process_optimized_cs16_cf32_def fun_eq_iff split: if_splits)

lemma kernels_step32:
  fixes F :: "'r::comm_ring_1 fops"
  assumes "has_kernels (exact F) V w" "cc_sdr_type (dw_config w) \<in> filtered_types"
  shows "filter_block e (w\<lparr>dw_filter := Some f\<rparr>) b out = map_option (apsnd (\<lambda>f'. w\<lparr>dw_filter := Some f'\<rparr>))
    (step32 V F (block_samples e (cc_sdr_type (dw_config w)) (exact F) b) f)"
  using assms
  by (auto simp: filter_block_def has_kernels_def filtered_types_def config_consts block_samples_def step32_def
      process_optimized_cu8_cf32_def process_optimized_cs8_cf32_def process_optimized_cs16_cf32_def)

text \<open>
  The channel of a client as a function of the bytes of the band: one decimating filter over the whole
  stream, from a clear history and the phase 1.
\<close>

definition channel_incr :: "'r::comm_ring_1 fops \<Rightarrow> client_config \<Rightarrow> server_config \<Rightarrow> 'r cplx" where
  "channel_incr F config server = filter_incr (exact F) (unat (band_sampling_rate server div sampling_rate config))
     (to_i32 (uint (center_freq config) - uint (band_freq config))) (unat (band_sampling_rate server))"

text \<open>The phases of a channel stay on the unit circle when the arithmetic is the one of the reals.\<close>

lemma channel_unit_phases:
  fixes F :: "real fops"
  assumes "\<And>x y. f_hypot F x y = sqrt (x\<^sup>2 + y\<^sup>2)" "\<And>x y. f_div F x y = x / y" "\<And>t. f_expi F t = (cos t, sin t)"
  shows "unit_phases F V (channel_incr F config server)"
  by (rule real_unit_phases [OF assms(1,2)]) (simp add: channel_incr_def filter_incr_def exact_def assms(3))

definition channel_samples :: "'r::comm_ring_1 fops \<Rightarrow> endian \<Rightarrow> client_config \<Rightarrow> server_config \<Rightarrow> 'r list \<Rightarrow> u8 list list
    \<Rightarrow> 'r cplx list" where
  "channel_samples F e config server taps inputs =
     (let D = unat (band_sampling_rate server div sampling_rate config);
          shift = to_i32 (uint (center_freq config) - uint (band_freq config));
          rate = unat (band_sampling_rate server)
      in fst (fir_ref (length taps) D (out32 (exact F) (dot32 (exact F) (filter_taps (exact F) taps shift rate)))
        (\<lambda>p. c_mul (exact F) p (channel_incr F config server)) (1, 0)
        (replicate (length taps - 1) (0, 0) @ concat (map (block_samples e (cc_sdr_type config) (exact F)) inputs))))"

lemma taps_cover_decimation:
  assumes "create_low_pass_filter (exact F) M ok g (unat rate) c (unat (sr div cutoff)) = Some (Inr taps)"
  shows "unat (rate div sr :: u32) \<le> length taps"
proof -
  have "unat (sr div cutoff) \<le> unat sr" by (simp add: unat_div)
  then have "unat (rate div sr) * unat (sr div cutoff) \<le> unat (rate div sr) * unat sr" by simp
  also have "\<dots> \<le> unat rate" unfolding unat_div by (rule div_times_less_eq_dividend)
  finally show ?thesis using lpf_length(2) [OF assms] by blast
qed

lemma worker_stream:
  fixes F :: "'r::comm_ring_1 fops"
  assumes "dsp_worker_start (exact F) M V env config server = Some ((0, Some w), held)"
    and "cc_sdr_type config \<in> filtered_types" "unit_phases F (build_simd (optimization server) V) (channel_incr F config server)"
    and inputs: "\<And>inputs. P inputs \<Longrightarrow> \<forall>b \<in> set inputs. length b \<le> unat (buffer_size server)" and "undisturbed config enc evs"
  obtains taps where "create_low_pass_filter (exact F) M (we_lpf env) 1 (unat (band_sampling_rate server))
      (unat (sampling_rate config div 2)) (unat (sampling_rate config div word_of_int (lpf_cutoff_rate server))) = Some (Inr taps)"
    "\<And>inputs. P inputs \<Longrightarrow> \<exists>acts st evs'. process_blocks e enc inputs ([], w) evs = Some (acts, st, evs') \<and>
      (\<forall>fd. Closed fd \<notin> set acts) \<and> delivered acts = concat (map enc (channel_samples F e config server taps inputs))"
  using assms(1)
proof (cases rule: dsp_worker_start_cases)
  case (opened taps f w0)
  let ?V = "build_simd (optimization server) V" and ?samples = "block_samples e (cc_sdr_type config) (exact F)"
  from start_output_outcome [OF opened(4)] fresh_kernels [OF opened(3)] chosen_kernels [OF opened(3)]
  have w: "dw_config w = config" "dw_filter w = Some f" "has_kernels (exact F) ?V w" "output_open w"
    by (auto simp: has_kernels_def output_open_def)
  then have filter_w: "w\<lparr>dw_filter := Some f\<rparr> = w" by simp
  have block: "filter_block e (w\<lparr>dw_filter := Some g\<rparr>) b out =
      map_option (apsnd (\<lambda>f'. w\<lparr>dw_filter := Some f'\<rparr>)) (step32 ?V F (?samples b) g)" for b g out
    using kernels_step32 [OF w(3)] w(1) assms(2) by simp
  show ?thesis
  proof (rule that)
    show taps: "create_low_pass_filter (exact F) M (we_lpf env) 1 (unat (band_sampling_rate server))
        (unat (sampling_rate config div 2)) (unat (sampling_rate config div word_of_int (lpf_cutoff_rate server))) = Some (Inr taps)"
      using opened(1) by simp
    fix inputs assume "P inputs"
    from inputs [OF this] have "\<forall>b \<in> set (map ?samples inputs). length b \<le> unat (buffer_size server) div 2"
      by (simp add: block_samples_length)
    from float_stream [OF opened(2) taps_cover_decimation [OF taps] this assms(3) [unfolded channel_incr_def]] obtain f' where
      "run_blocks (step32 ?V F) (map ?samples inputs) f = Some (channel_samples F e config server taps inputs, f')"
      unfolding channel_samples_def Let_def channel_incr_def by blast
    then have run: "run_blocks (\<lambda>b. step32 ?V F (?samples b)) inputs f =
        Some (channel_samples F e config server taps inputs, f')" by (simp only: run_blocks_map)
    from process_blocks_run [OF block run _ w(4)] assms(5) w(1) filter_w
    show "\<exists>acts st evs'. process_blocks e enc inputs ([], w) evs = Some (acts, st, evs') \<and>
        (\<forall>fd. Closed fd \<notin> set acts) \<and> delivered acts = concat (map enc (channel_samples F e config server taps inputs))"
      by fastforce
  qed
qed auto

subsection \<open>Properties\<close>

text \<open>A client receives its channel.  The worker of a client of an RTL, Airspy or HackRF device writes to
  its socket or file, for any blocks of at most \<open>buffer_size\<close> bytes and as long as the output is
  undisturbed, exactly the encoded output of one decimating FIR filter over the whole stream of samples:
  the low pass filter of \<open>create_low_pass_filter\<close> shifted to the channel, decimated by the ratio of the
  rates.  Nothing is lost, repeated or closed, whatever the cut into blocks, the build's kernels and
  the partial writes of the socket (in exact arithmetic).\<close>

theorem worker_delivers_stream:
  fixes F :: "'r::comm_ring_1 fops"
  assumes "dsp_worker_start (exact F) M V env config server = Some ((0, Some w), held)"
    and "cc_sdr_type config \<in> filtered_types" "unit_phases F (build_simd (optimization server) V) (channel_incr F config server)"
    and "\<forall>b \<in> set inputs. length b \<le> unat (buffer_size server)" "undisturbed config enc evs"
  shows "\<exists>taps acts. create_low_pass_filter (exact F) M (we_lpf env) 1 (unat (band_sampling_rate server))
      (unat (sampling_rate config div 2)) (unat (sampling_rate config div word_of_int (lpf_cutoff_rate server))) = Some (Inr taps) \<and>
    callback e enc inputs w evs = Some acts \<and> (\<forall>fd. Closed fd \<notin> set acts) \<and>
    delivered acts = concat (map enc (channel_samples F e config server taps inputs))"
proof -
  obtain taps where taps: "create_low_pass_filter (exact F) M (we_lpf env) 1 (unat (band_sampling_rate server))
      (unat (sampling_rate config div 2)) (unat (sampling_rate config div word_of_int (lpf_cutoff_rate server))) = Some (Inr taps)"
    and run: "\<And>xs. xs = inputs \<Longrightarrow> \<exists>acts st evs'. process_blocks e enc xs ([], w) evs = Some (acts, st, evs') \<and>
      (\<forall>fd. Closed fd \<notin> set acts) \<and> delivered acts = concat (map enc (channel_samples F e config server taps xs))"
    by (rule worker_stream [where P = "\<lambda>xs. xs = inputs" and e = e and enc = enc, OF assms(1-3) _ assms(5)]) (use assms(4) in auto)
  from run [OF refl] taps show ?thesis by (auto simp: callback_def)
qed

text \<open>Clients of an MSi device receive nothing.  The switch of the worker's loop has no case for
  \<open>SDR_TYPE_MSI\<close>: whatever the blocks, the output stays empty, and a socket client's worker reports no
  error and closes nothing.\<close>

theorem msi_clients_get_nothing:
  assumes "cc_sdr_type (dw_config w) = SDR_TYPE_MSI" "destination (dw_config w) = REQUEST_DESTINATION_SOCKET"
    and "dw_filter w \<noteq> None"
  shows "\<exists>acts. callback e enc inputs w evs = Some acts \<and> delivered acts = [] \<and> (\<forall>fd. Closed fd \<notin> set acts)"
proof -
  have loop: "write_loop [] evs = ((0, []), evs)" for evs by (cases evs) simp_all
  have "\<exists>acts evs'. process_blocks e enc inputs ([], w) evs = Some (acts, ([], w), evs') \<and> delivered acts = [] \<and>
      (\<forall>fd. Closed fd \<notin> set acts)"
  proof (induction inputs arbitrary: evs)
    case (Cons b inputs)
    have "handle_block e enc b ([], w) evs = Some ([Sent []], ([], w), evs)"
      using assms by (auto simp: handle_block_def filter_block_def config_consts write_to_socket_def loop
          REQUEST_DESTINATION_SOCKET_def REQUEST_DESTINATION_FILE_def)
    with Cons [of evs] show ?case by auto
  qed simp
  then show ?thesis by (auto simp: callback_def)
qed

theorem msi_clients_get_nothing_witness:
  "\<exists>f acts. callback Little (\<lambda>z. [0]) [[1, 2, 3, 4]]
    ((zero_worker (demo_worker_client\<lparr>cc_sdr_type := SDR_TYPE_MSI\<rparr>))\<lparr>dw_filter := Some (f :: int xlating)\<rparr>) [] = Some acts \<and>
    delivered acts = []"
  using msi_clients_get_nothing [of "(zero_worker (demo_worker_client\<lparr>cc_sdr_type := SDR_TYPE_MSI\<rparr>))\<lparr>dw_filter := Some (f :: int xlating)\<rparr>"
      Little "\<lambda>z. [0]" "[[1, 2, 3, 4]]" "[]" for f]
  by (force simp: zero_worker_def demo_fields(6))

text \<open>A failed write closes the socket again and again.  When the peer of a socket client is gone,
  every further block that yields samples calls \<open>close\<close> on the same descriptor number, although it was
  closed after the first failure and may meanwhile belong to another client.\<close>

theorem failed_client_closed_again:
  assumes "cc_sdr_type (dw_config w) = SDR_TYPE_RTL" "destination (dw_config w) = REQUEST_DESTINATION_SOCKET"
    and "dw_filter w \<noteq> None" "\<forall>z. enc z \<noteq> []"
    and "\<forall>b \<in> set inputs. \<forall>f. \<exists>z out f'. xlating_process_cu8 w (as_uint8 b) f = Some (z # out, f')"
  shows "callback e enc inputs w (replicate (length inputs) (Write_error err)) =
    Some (concat (map (\<lambda>b. [Sent [], Closed (client_socket (dw_config w))]) inputs))"
proof -
  have "\<exists>st evs'. process_blocks e enc inputs (out, w) (replicate (length inputs) (Write_error err)) =
      Some (concat (map (\<lambda>b. [Sent [], Closed (client_socket (dw_config w))]) inputs), st, evs')" for out
    using assms
  proof (induction inputs arbitrary: out w)
    case (Cons b inputs)
    obtain f where f: "dw_filter w = Some f" using Cons.prems(3) by blast
    obtain z o1 f1 where k: "xlating_process_cu8 w (as_uint8 b) f = Some (z # o1, f1)" using Cons.prems(5) by fastforce
    let ?w = "w\<lparr>dw_filter := Some f1\<rparr>"
    have "enc z \<noteq> []" using Cons.prems(4) by blast
    then have "handle_block e enc b (out, w) (Write_error err # replicate (length inputs) (Write_error err)) =
        Some ([Sent [], Closed (client_socket (dw_config w))], (z # o1, ?w), replicate (length inputs) (Write_error err))"
      using Cons.prems(1,2) f k
      by (simp add: handle_block_def filter_block_def config_consts write_to_socket_def
          REQUEST_DESTINATION_SOCKET_def REQUEST_DESTINATION_FILE_def)
    moreover from Cons.IH [of ?w "z # o1"] Cons.prems obtain st evs' where
      "process_blocks e enc inputs (z # o1, ?w) (replicate (length inputs) (Write_error err)) =
        Some (concat (map (\<lambda>b. [Sent [], Closed (client_socket (dw_config w))]) inputs), st, evs')" by auto
    ultimately show ?case by simp
  qed simp
  then show ?thesis by (auto simp: callback_def)
qed

theorem failed_client_closed_again_witness:
  "callback Little (\<lambda>z. [0]) [[1, 2], [3, 4]]
    ((zero_worker demo_worker_client)\<lparr>dw_filter := Some (undefined :: int xlating), xlating_process_cu8 := \<lambda>xs f. Some ([(0, 0)], f)\<rparr>)
    (replicate (length [[1, 2 :: u8], [3, 4]]) (Write_error 9)) =
      Some (concat (map (\<lambda>b. [Sent [], Closed (client_socket demo_worker_client)]) [[1, 2 :: u8], [3, 4]]))"
proof -
  let ?w = "(zero_worker demo_worker_client)\<lparr>dw_filter := Some (undefined :: int xlating), xlating_process_cu8 := \<lambda>xs f. Some ([(0, 0)], f)\<rparr>"
  have config: "dw_config ?w = demo_worker_client" by (simp add: zero_worker_def)
  show ?thesis
    using failed_client_closed_again [of ?w "\<lambda>z. [0]" "[[1, 2], [3, 4]]" Little 9, unfolded config]
    by (simp add: zero_worker_def demo_fields)
qed

text \<open>The accounting of a file.  A plain file reports an error exactly when a sample is missing.  A
  compressed one compares the bytes written with the number of samples, an eighth of the bytes, so a
  write that stops between an eighth and the end is taken for a success and the client is kept.\<close>

theorem file_write_accounting:
  assumes "length bytes = 8 * n" "k < 8 * n"
  shows "(dw_file w \<longrightarrow> k < n \<longrightarrow>
      fst (write_to_file w bytes n (Accept k # evs)) = (- 1, [Stored (take (8 * k) bytes)])) \<and>
    (\<not> dw_file w \<and> dw_gz w \<longrightarrow> take k bytes \<noteq> bytes \<and>
      fst (write_to_file w bytes n (Accept k # evs)) = (if k < n then - 1 else 0, [Stored (take k bytes)]))"
  using assms by (auto simp: write_to_file_def Let_def min_def)

theorem file_write_accounting_witness:
  "fst (write_to_file ((zero_worker demo_worker_client)\<lparr>dw_gz := True\<rparr>) (replicate 16 7) 2 [Accept 3]) =
    (0, [Stored (take 3 (replicate 16 7))])"
  using file_write_accounting [of "replicate 16 7" 2 3 "(zero_worker demo_worker_client)\<lparr>dw_gz := True\<rparr>" "[]"]
  by (simp add: zero_worker_def)

end
