(* ===== verification/Worker_Thread.thy ===== *)
theory Worker_Thread
  imports Queue_Properties Dsp_Worker_Output
begin

text \<open>
  The worker's thread on the queue itself: \<open>callback\<close> of \<open>src/src/dsp_worker.c\<close> with
  \<open>take_buffer_for_processing\<close> and \<open>complete_buffer_processing\<close> on the heap of \<open>queue.c\<close>, while the thread
  of the device puts blocks and somebody interrupts, in any order.  The bytes are read from the buffer
  the queue has handed out, at the moment the worker filters them.
\<close>

subsection \<open>The threads\<close>

definition dsp_worker_process :: "u8 list \<Rightarrow> nat \<Rightarrow> heap \<Rightarrow> heap option" where
  "dsp_worker_process buf q h = queue_put buf (length buf) q h"

text \<open>
  \<open>ws_done\<close>: the block in hand is filtered and written, \<open>complete_buffer_processing\<close> has not been called.
  \<open>ws_inputs\<close> are the bytes that were filtered.  A failed write closes the client's socket after the
  completion; the two touch different state and are not told apart.
\<close>

record 'f wsys =
  ws_queue :: qsys
  ws_done :: bool
  ws_inputs :: "u8 list list"
  ws_state :: "'f cplx list \<times> 'f dsp_worker"
  ws_events :: "write_event list"
  ws_acts :: "sink_action list"

definition completes :: "qsys \<Rightarrow> qsys \<Rightarrow> bool" where
  "completes s s' \<longleftrightarrow> qs_cons s \<noteq> Outside \<and> qs_cons s' = Outside"

inductive wstep :: "nat \<Rightarrow> nat \<Rightarrow> endian \<Rightarrow> ('f cplx \<Rightarrow> u8 list) \<Rightarrow> 'f wsys \<Rightarrow> 'f wsys \<Rightarrow> bool" for c q e enc where
  w_queue: "qstep c q (ws_queue t) s' \<Longrightarrow> \<not> completes (ws_queue t) s' \<Longrightarrow> wstep c q e enc t (t\<lparr>ws_queue := s'\<rparr>)"
| w_process: "qs_cons (ws_queue t) = Holding b l \<Longrightarrow> \<not> ws_done t \<Longrightarrow> bufs (qs_heap (ws_queue t)) b = Some bs \<Longrightarrow>
    handle_block e enc (take l bs) (ws_state t) (ws_events t) = Some (acts, st, evs) \<Longrightarrow>
    wstep c q e enc t (t\<lparr>ws_done := True, ws_inputs := ws_inputs t @ [take l bs], ws_state := st, ws_events := evs,
      ws_acts := ws_acts t @ acts\<rparr>)"
| w_complete: "ws_done t \<Longrightarrow> qstep c q (ws_queue t) s' \<Longrightarrow> completes (ws_queue t) s' \<Longrightarrow>
    wstep c q e enc t (t\<lparr>ws_queue := s', ws_done := False\<rparr>)"

definition worker_begin :: "'f dsp_worker \<Rightarrow> write_event list \<Rightarrow> qsys \<Rightarrow> 'f wsys" where
  "worker_begin w evs s = \<lparr>ws_queue = s, ws_done = False, ws_inputs = [], ws_state = ([], w), ws_events = evs, ws_acts = []\<rparr>"

text \<open>The producer's step is \<open>dsp_worker_process\<close>.\<close>

lemma process_puts:
  "length xs \<le> c \<Longrightarrow> queues (qs_heap s) q = Some Q \<Longrightarrow> dsp_worker_process xs q (qs_heap s) = Some h' \<Longrightarrow>
    \<exists>s'. qstep c q s s' \<and> qs_heap s' = h' \<and> qs_puts s' = qs_puts s @ [xs] \<and> qs_cons s' = broadcast (qs_cons s)"
  unfolding dsp_worker_process_def by (fastforce dest: qstep.put)

subsection \<open>The block in hand does not change\<close>

lemma not_completed [simp]:
  "completes s (s\<lparr>qs_heap := h, qs_cons := broadcast (qs_cons s)\<rparr>) \<longleftrightarrow> False"
  "completes s (s\<lparr>qs_heap := h, qs_cons := broadcast (qs_cons s), qs_puts := ps, qs_lost := m\<rparr>) \<longleftrightarrow> False"
  "completes s (s\<lparr>qs_heap := h, qs_cons := after_take r\<rparr>) \<longleftrightarrow> False"
  by (cases "qs_cons s"; cases r; simp add: completes_def)+

lemma held_block:
  assumes "qinv c q n h0 s" "qs_cons s = Holding b l"
  obtains Q fs gs d bs where "qinv_at c q n h0 s Q fs gs [d]" "buf_of (qs_heap s) d = Some b" "bufs (qs_heap s) b = Some bs"
    "take l bs = content (qs_heap s) d" "l = length (content (qs_heap s) d)"
proof -
  from assms(1) obtain Q fs gs ds where at: "qinv_at c q n h0 s Q fs gs ds" by (auto simp: qinv_def)
  then have "holds (qs_heap s) (qs_cons s) ds" by (simp add: qinv_at_def)
  with assms(2) obtain d where ds: "ds = [d]" and d: "buf_of (qs_heap s) d = Some b" "l = length (content (qs_heap s) d)" by auto
  from at ds have inv: "qinv_at c q n h0 s Q fs gs [d]" by simp
  then have ok: "node_ok c (qs_heap s) d" using queue_rep_ok by (fastforce simp: qinv_at_def)
  then obtain bs where "bufs (qs_heap s) b = Some bs" using d(1) by (auto elim!: node_okE)
  with that [OF inv d(1)] d(2) held_bytes [OF ok d(1)] show ?thesis by blast
qed

lemma held_kept:
  assumes step: "qstep c q s s'" "\<not> completes s s'" and inv: "qinv c q n h0 s"
    and held: "qs_cons s = Holding b l" "bufs (qs_heap s) b = Some bs"
  shows "qs_cons s' = Holding b l \<and> qs_seen s' = qs_seen s \<and> (\<exists>bs'. bufs (qs_heap s') b = Some bs' \<and> take l bs' = take l bs)"
proof -
  from inv held(1) obtain Q fs gs d bs1 where at: "qinv_at c q n h0 s Q fs gs [d]" and d: "buf_of (qs_heap s) d = Some b"
    "bufs (qs_heap s) b = Some bs1" "take l bs1 = content (qs_heap s) d" "l = length (content (qs_heap s) d)" by (rule held_block)
  from at have Q: "queues (qs_heap s) q = Some Q" and rep: "queue_rep c (qs_heap s) Q fs gs [d]" by (simp_all add: qinv_at_def)
  from step(1) show ?thesis
  proof cases
    case (put xs Q1 h')
    then have "fs \<noteq> [] \<or> gs \<noteq> []" using queue_put_nothing [OF Q] rep by fastforce
    from queue_put_rep [OF Q rep put(2) this] put(4) obtain fs' gs' Q' where h': "queue_rep c h' Q' fs' gs' [d]"
      "map (content h') [d] = map (content (qs_heap s)) [d]" "buf_of h' = buf_of (qs_heap s)" by auto
    have ok: "node_ok c h' d" using queue_rep_ok [OF h'(1)] by simp
    then obtain bs' where bs': "bufs h' b = Some bs'" using d(1) h'(3) by (auto elim!: node_okE)
    have "take (length (content h' d)) bs' = content h' d" using held_bytes [OF ok _ bs'] d(1) h'(3) by simp
    with put(1) held bs' h'(2) d show ?thesis by simp
  next
    case (interrupt h')
    then have "bufs h' = bufs (qs_heap s)" using Q by (auto simp: interrupt_waiting_the_data_def)
    with interrupt held show ?thesis by simp
  next
    case (complete b' l' bs' h')
    with step(2) show ?thesis by (simp add: completes_def)
  qed (use held in auto)
qed

subsection \<open>The invariant\<close>

lemma process_blocks_append:
  "process_blocks e enc (xs @ ys) st evs = do {
     (acts, st', evs') \<leftarrow> process_blocks e enc xs st evs;
     (acts', st'', evs'') \<leftarrow> process_blocks e enc ys st' evs';
     Some (acts @ acts', st'', evs'') }"
  by (induction xs arbitrary: st evs) (auto simp: split_beta Option.bind_assoc intro!: Option.bind_cong)

definition winv :: "endian \<Rightarrow> ('f cplx \<Rightarrow> u8 list) \<Rightarrow> 'f dsp_worker \<Rightarrow> write_event list \<Rightarrow> 'f wsys \<Rightarrow> bool" where
  "winv e enc w evs t \<longleftrightarrow> process_blocks e enc (ws_inputs t) ([], w) evs = Some (ws_acts t, ws_state t, ws_events t) \<and>
     (\<not> ws_done t \<longrightarrow> ws_inputs t = qs_seen (ws_queue t)) \<and>
     (ws_done t \<longrightarrow> (\<exists>b l bs. qs_cons (ws_queue t) = Holding b l \<and> bufs (qs_heap (ws_queue t)) b = Some bs \<and>
        ws_inputs t = qs_seen (ws_queue t) @ [take l bs]))"

lemma winv_step:
  assumes "wstep c q e enc t t'" "winv e enc w evs t" "qinv c q n h0 (ws_queue t)"
  shows "winv e enc w evs t'"
  using assms(1)
proof cases
  case (w_queue s')
  show ?thesis
  proof (cases "ws_done t")
    case True
    with assms(2) obtain b l bs where "qs_cons (ws_queue t) = Holding b l" "bufs (qs_heap (ws_queue t)) b = Some bs"
      "ws_inputs t = qs_seen (ws_queue t) @ [take l bs]" by (auto simp: winv_def)
    moreover from this held_kept [OF w_queue(2,3) assms(3)] obtain bs' where "qs_cons s' = Holding b l"
      "qs_seen s' = qs_seen (ws_queue t)" "bufs (qs_heap s') b = Some bs'" "take l bs' = take l bs" by blast
    ultimately show ?thesis using assms(2) w_queue(1) True by (simp add: winv_def)
  next
    case False
    have "qs_seen s' = qs_seen (ws_queue t)" using w_queue(2,3) by cases (auto simp: completes_def)
    with assms(2) w_queue(1) False show ?thesis by (auto simp: winv_def)
  qed
next
  case (w_process b l bs acts st evs')
  with assms(2) show ?thesis by (auto simp: winv_def process_blocks_append)
next
  case (w_complete s')
  from assms(2) w_complete(2) obtain b l bs where h: "qs_cons (ws_queue t) = Holding b l" "bufs (qs_heap (ws_queue t)) b = Some bs"
    "ws_inputs t = qs_seen (ws_queue t) @ [take l bs]" by (auto simp: winv_def)
  have "qs_seen s' = qs_seen (ws_queue t) @ [take l bs]"
    using w_complete(3,4) h by cases (auto simp: completes_def)
  with assms(2) w_complete(1) h show ?thesis by (simp add: winv_def)
qed

lemma wreach_inv:
  assumes "(wstep c q e enc)\<^sup>*\<^sup>* (worker_begin w evs s0) t" "qstart c q n h0 s0"
  shows "winv e enc w evs t \<and> qreach c q n h0 (ws_queue t)"
  using assms(1)
proof (induction rule: rtranclp_induct)
  case base
  have "qs_seen s0 = []" using assms(2) by (simp add: qstart_def)
  with qreach.start [OF assms(2)] show ?case by (simp add: winv_def worker_begin_def)
next
  case (step t t')
  then have "winv e enc w evs t'" using winv_step qreach_inv by blast
  moreover have "ws_queue t' = ws_queue t \<or> qstep c q (ws_queue t) (ws_queue t')" using step(2) by cases auto
  ultimately show ?case using step.IH qreach.step by metis
qed

lemma qreach_puts: "qreach c q n h0 s \<Longrightarrow> \<forall>xs \<in> set (qs_puts s). length xs \<le> c"
proof (induction rule: qreach.induct)
  case (step s s')
  from step(2) show ?case by cases (use step(3) in auto)
qed (simp add: qstart_def)

text \<open>What the worker has filtered, against what the device has put.\<close>

lemma wreach_inputs:
  assumes "winv e enc w evs t" "qreach c q n h0 (ws_queue t)"
  shows "subseq (ws_inputs t) (qs_puts (ws_queue t))" "qs_lost (ws_queue t) = 0 \<Longrightarrow> prefix (ws_inputs t) (qs_puts (ws_queue t))"
    "length (qs_puts (ws_queue t)) \<le> length (ws_inputs t) + qs_lost (ws_queue t) + n"
    "qs_lost (ws_queue t) = 0 \<Longrightarrow> qs_cons (ws_queue t) = Waiting False \<Longrightarrow> ws_inputs t = qs_puts (ws_queue t)"
proof -
  let ?s = "ws_queue t"
  from qreach_inv [OF assms(2)] obtain Q fs gs ds where inv: "qinv_at c q n h0 ?s Q fs gs ds" by (auto simp: qinv_def)
  then have sub: "subseq (qs_seen ?s @ map (content (qs_heap ?s)) (ds @ gs)) (qs_puts ?s)"
    and len: "length (qs_puts ?s) = length (qs_seen ?s) + length ds + length gs + qs_lost ?s"
    and n: "length fs + length gs + length ds = n" and k: "holds (qs_heap ?s) (qs_cons ?s) ds"
    and sleep: "qs_cons ?s = Waiting False \<longrightarrow> gs = []" by (simp_all add: qinv_at_def)
  have pre: "prefix (ws_inputs t) (qs_seen ?s @ map (content (qs_heap ?s)) (ds @ gs))"
  proof (cases "ws_done t")
    case True
    with assms(1) obtain b l bs where h: "qs_cons ?s = Holding b l" "bufs (qs_heap ?s) b = Some bs"
      "ws_inputs t = qs_seen ?s @ [take l bs]" by (auto simp: winv_def)
    with k obtain d where d: "ds = [d]" "buf_of (qs_heap ?s) d = Some b" "l = length (content (qs_heap ?s) d)" by auto
    have "take l bs = content (qs_heap ?s) d"
      using held_bytes [OF queue_rep_ok d(2) h(2), of c Q fs gs ds] inv d by (simp add: qinv_at_def)
    with h(3) d(1) show ?thesis by simp
  next
    case False
    with assms(1) show ?thesis by (simp add: winv_def)
  qed
  then show "subseq (ws_inputs t) (qs_puts ?s)"
    using sub by (meson prefix_imp_subseq subseq_order.trans)
  have all: "qs_seen ?s @ map (content (qs_heap ?s)) (ds @ gs) = qs_puts ?s" if "qs_lost ?s = 0"
    using subseq_same_length [OF sub] len that by simp
  with pre show "prefix (ws_inputs t) (qs_puts ?s)" if "qs_lost ?s = 0" using that by simp
  have "length (qs_seen ?s) \<le> length (ws_inputs t)" using assms(1) by (cases "ws_done t") (auto simp: winv_def)
  with len n show "length (qs_puts ?s) \<le> length (ws_inputs t) + qs_lost ?s + n" by simp
  show "ws_inputs t = qs_puts ?s" if "qs_lost ?s = 0" "qs_cons ?s = Waiting False"
    using that all sleep k assms(1) by (auto simp: winv_def)
qed

lemma subseq_subset: "subseq xs ys \<Longrightarrow> set xs \<subseteq> set ys"
  by (auto elim: list_emb_set)

text \<open>The worker can handle the block in hand when it can handle every list of blocks that fit.\<close>

lemma worker_processes:
  assumes inv: "winv e enc w evs t" "qreach c q n h0 (ws_queue t)" and h: "qs_cons (ws_queue t) = Holding b l" "\<not> ws_done t"
    and run: "\<And>xs. \<forall>b \<in> set xs. length b \<le> c \<Longrightarrow> process_blocks e enc xs ([], w) evs \<noteq> None"
  shows "\<exists>t'. wstep c q e enc t t' \<and> ws_done t'"
proof -
  from qreach_inv [OF inv(2)] h(1) obtain Q fs gs d bs where at: "qinv_at c q n h0 (ws_queue t) Q fs gs [d]"
    and bs: "bufs (qs_heap (ws_queue t)) b = Some bs" "take l bs = content (qs_heap (ws_queue t)) d"
    by (rule held_block)
  have "node_ok c (qs_heap (ws_queue t)) d"
    using queue_rep_ok [of c "qs_heap (ws_queue t)" Q fs gs "[d]" d] at by (simp add: qinv_at_def)
  then have "length (take l bs) \<le> c" unfolding bs(2) by (auto elim!: node_okE)
  moreover have "\<forall>b \<in> set (ws_inputs t). length b \<le> c"
    using qreach_puts [OF inv(2)] subseq_subset [OF wreach_inputs(1) [OF inv]] by blast
  ultimately have "process_blocks e enc (ws_inputs t @ [take l bs]) ([], w) evs \<noteq> None" by (intro run) simp
  with inv(1) obtain acts st evs' where "handle_block e enc (take l bs) (ws_state t) (ws_events t) = Some (acts, st, evs')"
    by (cases "handle_block e enc (take l bs) (ws_state t) (ws_events t)") (auto simp: winv_def process_blocks_append)
  from w_process [OF h bs(1) this] show ?thesis by fastforce
qed

subsection \<open>From the device to the client\<close>

text \<open>C3.  From the device to the client.  A worker started for a client of an RTL, Airspy or HackRF device,
  with any build and either optimisation, runs on the queue \<open>create_queue\<close> returned for it, while the
  device puts blocks and waits for nobody.  In every state that can be reached, and as long as the output
  is undisturbed, the bytes written to the socket or the file are the encoded output of the channel's
  filter on the blocks the worker has taken, in exact arithmetic; these are a subsequence of the blocks of
  the device, a prefix when the queue was never full, and all of them when the worker then sleeps; at most
  \<open>queue_size\<close> blocks and the overwritten ones are missing; and the worker can always filter and write
  the block it holds.\<close>

theorem client_gets_channel:
  fixes F :: "'r::comm_ring_1 fops"
  assumes "dsp_worker_start (exact F) M V env config server = Some ((0, Some w), held)"
    and "cc_sdr_type config \<in> filtered_types" "unit_phases F (build_simd (optimization server) V) (channel_incr F config server)"
    and "undisturbed config enc evs"
    and "qstart (unat (buffer_size server)) q n h0 s0"
    and "(wstep (unat (buffer_size server)) q e enc)\<^sup>*\<^sup>* (worker_begin w evs s0) t"
  shows "(\<exists>taps. create_low_pass_filter (exact F) M (we_lpf env) 1 (unat (band_sampling_rate server))
        (unat (sampling_rate config div 2)) (unat (sampling_rate config div word_of_int (lpf_cutoff_rate server))) = Some (Inr taps) \<and>
      delivered (ws_acts t) = concat (map enc (channel_samples F e config server taps (ws_inputs t)))) \<and>
    (\<forall>fd. Closed fd \<notin> set (ws_acts t)) \<and> subseq (ws_inputs t) (qs_puts (ws_queue t)) \<and>
    (qs_lost (ws_queue t) = 0 \<longrightarrow> prefix (ws_inputs t) (qs_puts (ws_queue t)) \<and>
      (qs_cons (ws_queue t) = Waiting False \<longrightarrow> ws_inputs t = qs_puts (ws_queue t))) \<and>
    length (qs_puts (ws_queue t)) \<le> length (ws_inputs t) + qs_lost (ws_queue t) + n \<and>
    ((\<exists>b l. qs_cons (ws_queue t) = Holding b l) \<and> \<not> ws_done t \<longrightarrow>
      (\<exists>t'. wstep (unat (buffer_size server)) q e enc t t' \<and> ws_done t'))"
proof -
  let ?c = "unat (buffer_size server)"
  from wreach_inv [OF assms(6,5)] have w: "winv e enc w evs t" and r: "qreach ?c q n h0 (ws_queue t)" by simp_all
  note seen = wreach_inputs [OF w r]
  obtain taps where taps: "create_low_pass_filter (exact F) M (we_lpf env) 1 (unat (band_sampling_rate server))
      (unat (sampling_rate config div 2)) (unat (sampling_rate config div word_of_int (lpf_cutoff_rate server))) = Some (Inr taps)"
    and run: "\<And>xs. \<forall>b \<in> set xs. length b \<le> ?c \<Longrightarrow> \<exists>acts st evs'. process_blocks e enc xs ([], w) evs = Some (acts, st, evs') \<and>
      (\<forall>fd. Closed fd \<notin> set acts) \<and> delivered acts = concat (map enc (channel_samples F e config server taps xs))"
    by (rule worker_stream [where P = "\<lambda>xs. \<forall>b \<in> set xs. length b \<le> ?c" and e = e and enc = enc, OF assms(1-3) _ assms(4)]) auto
  have "\<forall>b \<in> set (ws_inputs t). length b \<le> ?c" using qreach_puts [OF r] subseq_subset [OF seen(1)] by blast
  from run [OF this] w have "delivered (ws_acts t) = concat (map enc (channel_samples F e config server taps (ws_inputs t)))"
    "\<forall>fd. Closed fd \<notin> set (ws_acts t)" by (auto simp: winv_def)
  moreover have "\<exists>t'. wstep ?c q e enc t t' \<and> ws_done t'" if "qs_cons (ws_queue t) = Holding b l" "\<not> ws_done t" for b l
    using worker_processes [OF w r that] run by blast
  ultimately show ?thesis using taps seen by blast
qed

text \<open>A run: the device puts a block, the worker takes and filters it.\<close>

definition thread_queue :: "u32 \<Rightarrow> qsys" where
  "thread_queue bsz = \<lparr>qs_heap = (case create_queue demo_alloc bsz 2 no_heap of None \<Rightarrow> no_heap | Some (r, h) \<Rightarrow> h),
     qs_cons = Outside, qs_puts = [], qs_seen = [], qs_lost = 0\<rparr>"

lemma thread_queue_start: "qstart (unat bsz) 0 2 no_heap (thread_queue bsz)"
proof -
  have "create_queue demo_alloc bsz (int 2) no_heap = Some ((0, Some 0), qs_heap (thread_queue bsz))"
    by (simp add: thread_queue_def create_queue_def malloc_queue_def malloc_node_def malloc_buf_def
        write_node_def Let_def demo_alloc_def no_heap_def numeral_2_eq_2)
  moreover have "qs_cons (thread_queue bsz) = Outside" "qs_puts (thread_queue bsz) = []" "qs_seen (thread_queue bsz) = []"
    "qs_lost (thread_queue bsz) = 0" by (simp_all add: thread_queue_def)
  ultimately show ?thesis using fresh_no_heap unfolding qstart_def by blast
qed

lemma thread_queue_run:
  "4 \<le> unat bsz \<Longrightarrow> \<exists>s b. qrun (unat bsz) 0 [Put [1, 2, 3, 4], Take] (thread_queue bsz) = Some s \<and>
    qs_cons s = Holding b 4 \<and> qs_puts s = [[1, 2, 3, 4]]"
  by (simp add: thread_queue_def queue_eval)

lemma qrun_wreach:
  "Complete \<notin> set xs \<Longrightarrow> qrun c q xs (ws_queue t) = Some s' \<Longrightarrow> (wstep c q e enc)\<^sup>*\<^sup>* t (t\<lparr>ws_queue := s'\<rparr>)"
proof (induction xs arbitrary: t)
  case (Cons x xs)
  from Cons.prems(2) obtain s1 where s1: "qexec c q x (ws_queue t) = Some s1" "qrun c q xs s1 = Some s'"
    by (auto simp: bind_eq_Some_conv)
  have "\<not> completes (ws_queue t) s1"
    using s1(1) Cons.prems(1) by (cases x) (auto simp: bind_eq_Some_conv split: if_splits consumer.splits)
  with qexec_step [OF s1(1)] have "wstep c q e enc t (t\<lparr>ws_queue := s1\<rparr>)" by (rule w_queue)
  moreover have "(wstep c q e enc)\<^sup>*\<^sup>* (t\<lparr>ws_queue := s1\<rparr>) (t\<lparr>ws_queue := s'\<rparr>)"
    using Cons.IH [of "t\<lparr>ws_queue := s1\<rparr>"] Cons.prems(1) s1(2) by simp
  ultimately show ?case by (rule converse_rtranclp_into_rtranclp)
next
  case Nil
  then have "t\<lparr>ws_queue := s'\<rparr> = t" by (cases t) simp
  then show ?case by simp
qed

theorem client_gets_channel_witness:
  "\<exists>w held. \<exists>t :: int wsys. dsp_worker_start (exact demo_fops) demo_mops Simd_neon good_worker_env demo_worker_client demo_server_config =
      Some ((0, Some w), held) \<and> qs_puts (ws_queue t) = [[1, 2, 3, 4]] \<and> ws_done t \<and> subseq (ws_inputs t) [[1, 2, 3, 4]]"
proof -
  from valid_client_parts [OF demo_premises, of "exact demo_fops" demo_mops Simd_neon] obtain taps f w where parts:
    "create_low_pass_filter (exact demo_fops) demo_mops (we_lpf good_worker_env) (f_one (exact demo_fops))
      (unat (band_sampling_rate demo_server_config)) (unat (sampling_rate demo_worker_client div 2))
      (unat (sampling_rate demo_worker_client div word_of_int (lpf_cutoff_rate demo_server_config))) = Some (Inr taps)"
    "create_frequency_xlating_filter (exact demo_fops) (we_filter good_worker_env)
      (unat (band_sampling_rate demo_server_config div sampling_rate demo_worker_client)) taps
      (to_i32 (uint (center_freq demo_worker_client) - uint (band_freq demo_worker_client))) (unat (band_sampling_rate demo_server_config))
      (unat (buffer_size demo_server_config)) = Some (Inr f)"
    "choose_kernels (exact demo_fops) Simd_neon (optimization demo_server_config)
      ((zero_worker demo_worker_client)\<lparr>dw_filter := Some f\<rparr>) = Some w"
    "(word_of_int (lpf_cutoff_rate demo_server_config) :: u32) \<noteq> 0" "sampling_rate demo_worker_client \<noteq> 0" .
  obtain w' held where s: "dsp_worker_start (exact demo_fops) demo_mops Simd_neon good_worker_env demo_worker_client demo_server_config =
      Some ((0, Some w'), held)"
    using dsp_worker_start_value [OF parts(4,5,1-3)] by (simp add: start_output_def good_worker_env_def Let_def)
  let ?init = "worker_begin w' [Accept 3] (thread_queue (buffer_size demo_server_config))" and ?enc = "\<lambda>z. [word_of_int (fst z), 0, 0, 0, word_of_int (snd z), 0, 0, 0 :: u8]"
  let ?c = "unat (buffer_size demo_server_config)"
  have "4 \<le> ?c" by (simp add: demo_fields)
  then obtain s1 b where s1: "qrun ?c 0 [Put [1, 2, 3, 4], Take] (thread_queue (buffer_size demo_server_config)) = Some s1"
    "qs_cons s1 = Holding b 4" "qs_puts s1 = [[1, 2, 3, 4]]" using thread_queue_run by blast
  let ?t = "?init\<lparr>ws_queue := s1\<rparr>"
  have r: "(wstep ?c 0 Little ?enc)\<^sup>*\<^sup>* ?init ?t"
    by (rule qrun_wreach [of "[Put [1, 2, 3, 4], Take]" ?c 0 ?init s1]) (use s1(1) in \<open>simp_all add: worker_begin_def\<close>)
  have evs: "undisturbed demo_worker_client ?enc [Accept 3]" by (simp add: undisturbed_def no_error_def demo_fields(6))
  have type: "cc_sdr_type demo_worker_client \<in> filtered_types" by (simp add: filtered_types_def demo_fields(7))
  have div: "f_div (exact demo_fops) x y = x" for x y by (simp add: exact_def demo_fops_def)
  have unit: "unit_phases demo_fops V incr" for V incr
    by (simp add: unit_phases_def c_normalize_def Let_def div)
  note claim = client_gets_channel [OF s type unit evs thread_queue_start]
  have "(\<exists>b l. qs_cons (ws_queue ?t) = Holding b l) \<and> \<not> ws_done ?t" using s1(2) by (simp add: worker_begin_def)
  with claim [OF r] obtain t' where t': "wstep ?c 0 Little ?enc ?t t'" "ws_done t'"
    by blast
  then have puts: "qs_puts (ws_queue t') = [[1, 2, 3, 4]]"
    using s1(3) by cases (simp_all add: worker_begin_def)
  have "subseq (ws_inputs t') [[1, 2, 3, 4]]"
    using claim [OF rtranclp.rtrancl_into_rtrancl [OF r t'(1)]] unfolding puts by blast
  with puts t'(2) s show ?thesis by blast
qed

end
