(* ===== verification/Server_Stream.thy ===== *)
theory Server_Stream
  imports Tcp_Properties Worker_Thread
begin

text \<open>
  The server as a whole: the shared state of \<open>src/src/tcp_server.c\<close> with the queue of every client.  Each
  block of the device goes through \<open>sdr_callback\<close> and \<open>dsp_worker_process\<close> to the clients that run; clients
  come and go meanwhile, and every worker takes its blocks at its own pace.
\<close>

subsection \<open>State and steps\<close>

text \<open>
  Every client has a queue of its own, here with its own heap, at its node's address.  \<open>ss_stream\<close> are the
  blocks the device has produced, \<open>ss_since\<close> how many there were when a client's admission ended.
\<close>

record server_streams =
  ss_tcp :: tcp_server
  ss_queues :: "nat \<Rightarrow> qsys"
  ss_stream :: "u8 list list"
  ss_since :: "nat \<Rightarrow> nat"

definition put_step :: "nat \<Rightarrow> nat \<Rightarrow> u8 list \<Rightarrow> qsys \<Rightarrow> qsys \<Rightarrow> bool" where
  "put_step c q xs s s' \<longleftrightarrow> length xs \<le> c \<and> (\<exists>Q h'. queues (qs_heap s) q = Some Q \<and>
     dsp_worker_process xs q (qs_heap s) = Some h' \<and>
     s' = s\<lparr>qs_heap := h', qs_cons := broadcast (qs_cons s), qs_puts := qs_puts s @ [xs],
       qs_lost := qs_lost s + of_bool (first_free_node Q = None)\<rparr>)"

definition consumer_step :: "nat \<Rightarrow> nat \<Rightarrow> qsys \<Rightarrow> qsys \<Rightarrow> bool" where
  "consumer_step c q s s' \<longleftrightarrow> qstep c q s s' \<and> qs_puts s' = qs_puts s"

text \<open>
  The queue of a node in a step of the server: created with the node; when the worker is destroyed it is
  interrupted and its thread runs to its end before it is joined; otherwise untouched.
\<close>

definition queue_change :: "nat \<Rightarrow> nat \<Rightarrow> nat \<Rightarrow> heap \<Rightarrow> tcp_node option \<Rightarrow> tcp_node option \<Rightarrow> qsys \<Rightarrow> qsys \<Rightarrow> bool" where
  "queue_change c q n h0 old new k k' \<longleftrightarrow>
     (case new of
        None \<Rightarrow> k' = k
      | Some m' \<Rightarrow>
          (case old of
             None \<Rightarrow> qstart c q n h0 k'
           | Some m \<Rightarrow>
               if tn_worker m \<and> \<not> tn_worker m' then (consumer_step c q)\<^sup>*\<^sup>* k k' \<and> qs_cons k' = Stopped else k' = k))"

definition since_after :: "server_streams \<Rightarrow> tcp_server \<Rightarrow> nat \<Rightarrow> nat" where
  "since_after s S' x =
     (if x \<in> set (busy (acceptor (ss_tcp s))) \<and> x \<notin> set (busy (acceptor S')) then length (ss_stream s) else ss_since s x)"

inductive sstep :: "bool \<Rightarrow> bool \<Rightarrow> server_config \<Rightarrow> nat \<Rightarrow> nat \<Rightarrow> nat \<Rightarrow> heap \<Rightarrow> server_streams \<Rightarrow> server_streams \<Rightarrow> bool"
  for early failing cfg c q n h0 where
  s_tcp: "tstep early failing cfg (ss_tcp s) S' \<Longrightarrow>
    (\<And>x. queue_change c q n h0 (tcp_heap (ss_tcp s) x) (tcp_heap S' x) (ss_queues s x) (K x)) \<Longrightarrow>
    sstep early failing cfg c q n h0 s (s\<lparr>ss_tcp := S', ss_queues := K, ss_since := since_after s S'\<rparr>)"
| s_block: "sdr_running (ss_tcp s) \<Longrightarrow> \<not> holds_mutex (acceptor (ss_tcp s)) \<Longrightarrow>
    sdr_callback (tcp_heap (ss_tcp s)) (tcp_nodes (ss_tcp s)) = Some served \<Longrightarrow>
    (\<And>x. if x \<in> set served then put_step c q xs (ss_queues s x) (K x) else K x = ss_queues s x) \<Longrightarrow>
    sstep early failing cfg c q n h0 s (s\<lparr>ss_queues := K, ss_stream := ss_stream s @ [xs]\<rparr>)"
| s_worker: "tcp_heap (ss_tcp s) a = Some m \<Longrightarrow> tn_worker m \<Longrightarrow> consumer_step c q (ss_queues s a) k \<Longrightarrow>
    sstep early failing cfg c q n h0 s (s\<lparr>ss_queues := (ss_queues s)(a := k)\<rparr>)"

definition stream_start :: "(nat \<Rightarrow> qsys) \<Rightarrow> server_streams" where
  "stream_start K = \<lparr>ss_tcp = tstart, ss_queues = K, ss_stream = [], ss_since = \<lambda>_. 0\<rparr>"

subsection \<open>Who is listed after a step\<close>

text \<open>
  A running client of the list was one before or was being admitted; the acceptor works on a node it
  worked on before or on a new one.
\<close>

lemma busy_cases: "set (busy pc) = {a. pc = Admitting a \<or> pc = Waiting_for_stop a \<or> pc = Joining_shutdown a \<or> pc = Dropping a}"
  by (cases pc) auto

lemma tstep_listed:
  assumes inv: "tinv_at cfg S as" and step: "tstep early failing cfg S S'"
  shows "\<exists>as'. tinv_at cfg S' as' \<and>
    (\<forall>x \<in> set as'. runs (tcp_heap S') x \<longrightarrow> x \<in> set as \<and> runs (tcp_heap S) x \<or> x \<in> set (busy (acceptor S))) \<and>
    (\<forall>x \<in> set (busy (acceptor S')). x \<in> set (busy (acceptor S)) \<or> tcp_heap S x = None)"
  using step
proof cases
  case (connected e env sock evs c evs' a)
  have t: "tinv_at cfg S' as" using tinv_connected [OF inv connected(2,5)] Ready_client_ok [OF connected(4)] connected(1) by simp
  from inv connected(2) have "dom (tcp_heap S) = set as" by (simp add: tinv_at_def)
  with connected(5) have "a \<notin> set as" by (metis domIff)
  with t connected show ?thesis by (intro exI [of _ as]) (auto simp: runs_def)
next
  case (admits a)
  from admit_ok [OF inv admits(1)] admits(2) have t: "tinv_at cfg S' (admitted_list S as a)"
    "acceptor S' \<in> {Joining_shutdown a, Waiting_for_stop a, Accepting, Dropping a}" by auto
  moreover have "x \<in> set as \<and> runs (tcp_heap S) x \<or> x = a" if "x \<in> set (admitted_list S as a)" for x
    using that by (auto simp: admitted_list_def Let_def split: if_splits)
  ultimately show ?thesis using admits(1) by (intro exI [of _ "admitted_list S as a"]) auto
next
  case (wakes a)
  then have "tinv_at cfg S' as" using inv by (simp add: tinv_at_def, clarsimp)
  with wakes show ?thesis by (intro exI [of _ as]) auto
next
  case (starts a code)
  from start_device_tinv [OF inv starts(1,2)] have "tinv_at cfg S' (if code = 0 then [a] else [])"
    "acceptor S' \<in> {Accepting, Dropping a}" by (auto split: if_splits)
  with starts(1) show ?thesis by (intro exI [of _ "if code = 0 then [a] else []"]) auto
next
  case (drops a H)
  with drop_tinv [OF inv] show ?thesis by (intro exI [of _ as]) auto
next
  case (leaves a n)
  have "runs (tcp_heap S') x = runs (tcp_heap S) x" for x
    using leaves by (cases "x = a") (simp_all add: runs_def node_running_def)
  moreover have "tinv_at cfg S' as" using tinv_leaves [OF inv] leaves by simp
  ultimately show ?thesis using leaves by (intro exI [of _ as]) auto
next
  case (terminates a n)
  note t = worker_terminate_ok [OF inv terminates(1)]
  from t(1) terminates(4) have S': "tinv_at cfg S' as" "acceptor S' = acceptor S"
    "runs (tcp_heap S') x \<Longrightarrow> runs (tcp_heap S) x" for x
    using t(2) by (auto simp: runs_def node_running_def split: if_splits)
  then show ?thesis by (intro exI [of _ as]) auto
next
  case drains
  from drain_tinv [OF inv drains] obtain as' where t: "tinv_at cfg S' as'"
    "acceptor S' = Draining \<or> acceptor S' = Joining_final"
    "\<forall>x. (x \<in> set as \<and> runs (tcp_heap S) x) = (x \<in> set as' \<and> runs (tcp_heap S') x)" by blast
  then show ?thesis by (intro exI [of _ as']) auto
next
  case exits
  with finish_tinv [OF inv] show ?thesis by (intro exI [of _ as]) auto
next
  case accept_fails
  with inv show ?thesis by (intro exI [of _ as]) (simp add: tinv_at_def)
qed (use inv in \<open>intro exI [of _ as], simp add: tinv_at_def\<close>)+

subsection \<open>The invariant\<close>

lemma consumer_steps:
  "(consumer_step c q)\<^sup>*\<^sup>* k k' \<Longrightarrow> qs_puts k' = qs_puts k \<and> (qreach c q n h0 k \<longrightarrow> qreach c q n h0 k')"
  by (induction rule: rtranclp_induct) (auto simp: consumer_step_def intro: qreach.step)

lemma queue_change_new:
  "queue_change c q n h0 None (Some m) k k' \<Longrightarrow> qreach c q n h0 k' \<and> qs_puts k' = []"
proof -
  assume "queue_change c q n h0 None (Some m) k k'"
  then have k: "qstart c q n h0 k'" by (simp add: queue_change_def)
  from qreach.start [OF k] k show ?thesis by (simp add: qstart_def)
qed

lemma queue_change_kept:
  "queue_change c q n h0 (Some m) (Some m') k k' \<Longrightarrow> qs_puts k' = qs_puts k \<and> (qreach c q n h0 k \<longrightarrow> qreach c q n h0 k')"
  using consumer_steps [of c q k k' n h0] by (auto simp: queue_change_def split: if_splits)

lemma put_step_reach:
  "put_step c q xs k k' \<Longrightarrow> qs_puts k' = qs_puts k @ [xs] \<and> (qreach c q n h0 k \<longrightarrow> qreach c q n h0 k')"
proof -
  assume p: "put_step c q xs k k'"
  then have "qstep c q k k'" by (auto simp: put_step_def dsp_worker_process_def intro: qstep.put)
  moreover have "qs_puts k' = qs_puts k @ [xs]" using p by (auto simp: put_step_def)
  ultimately show ?thesis by (auto intro: qreach.step)
qed

definition stream_inv :: "server_config \<Rightarrow> nat \<Rightarrow> nat \<Rightarrow> nat \<Rightarrow> heap \<Rightarrow> server_streams \<Rightarrow> nat list \<Rightarrow> bool" where
  "stream_inv cfg c q n h0 s as \<longleftrightarrow> tinv_at cfg (ss_tcp s) as \<and>
     (\<forall>x \<in> dom (tcp_heap (ss_tcp s)). qreach c q n h0 (ss_queues s x) \<and> sublist (qs_puts (ss_queues s x)) (ss_stream s)) \<and>
     (\<forall>x \<in> set as. runs (tcp_heap (ss_tcp s)) x \<longrightarrow> ss_since s x \<le> length (ss_stream s) \<and>
        qs_puts (ss_queues s x) = drop (ss_since s x) (ss_stream s)) \<and>
     (\<forall>x \<in> set (busy (acceptor (ss_tcp s))). qs_puts (ss_queues s x) = [])"

lemma served_clients: "tinv_at cfg S as \<Longrightarrow> sdr_callback (tcp_heap S) (tcp_nodes S) = Some (filter (runs (tcp_heap S)) as)"
  by (intro sdr_callback_chain) (simp_all add: tinv_at_def)

lemma stream_tcp:
  assumes inv: "stream_inv cfg c q n h0 s as" and step: "tstep early failing cfg (ss_tcp s) S'"
    and queues: "\<And>x. queue_change c q n h0 (tcp_heap (ss_tcp s) x) (tcp_heap S' x) (ss_queues s x) (K x)"
  shows "\<exists>as'. stream_inv cfg c q n h0 (s\<lparr>ss_tcp := S', ss_queues := K, ss_since := since_after s S'\<rparr>) as'"
proof -
  let ?H = "tcp_heap (ss_tcp s)" and ?b = "set (busy (acceptor (ss_tcp s)))"
  from inv have t: "tinv_at cfg (ss_tcp s) as" by (simp add: stream_inv_def)
  then have dom: "dom ?H = set as \<union> ?b" by (auto simp: tinv_at_def)
  from tstep_listed [OF t step] obtain as' where t': "tinv_at cfg S' as'"
    and old: "\<And>x. x \<in> set as' \<Longrightarrow> runs (tcp_heap S') x \<Longrightarrow> x \<in> set as \<and> runs ?H x \<or> x \<in> ?b"
    and busy: "\<And>x. x \<in> set (busy (acceptor S')) \<Longrightarrow> x \<in> ?b \<or> ?H x = None" by meson
  have dom': "dom (tcp_heap S') = set as' \<union> set (busy (acceptor S'))" using t' by (auto simp: tinv_at_def)
  have new: "qreach c q n h0 (K x) \<and> qs_puts (K x) = []" if "?H x = None" "x \<in> dom (tcp_heap S')" for x
    using queues [of x] that by (auto dest: queue_change_new)
  have kept: "qs_puts (K x) = qs_puts (ss_queues s x) \<and> qreach c q n h0 (K x)" if "x \<in> dom ?H" "x \<in> dom (tcp_heap S')" for x
  proof -
    from that obtain m m' where "?H x = Some m" "tcp_heap S' x = Some m'" by blast
    with queue_change_kept [of c q n h0 m m'] queues [of x] inv that(1) show ?thesis by (auto simp: stream_inv_def)
  qed
  have "qreach c q n h0 (K x) \<and> sublist (qs_puts (K x)) (ss_stream s)" if "x \<in> dom (tcp_heap S')" for x
  proof (cases "x \<in> dom ?H")
    case True
    with kept [OF True that] inv show ?thesis by (simp add: stream_inv_def)
  next
    case False
    with new [OF _ that] show ?thesis by (simp add: domIff)
  qed
  moreover have "since_after s S' x \<le> length (ss_stream s) \<and> qs_puts (K x) = drop (since_after s S' x) (ss_stream s)"
    if x: "x \<in> set as'" "runs (tcp_heap S') x" for x
  proof (cases "x \<in> ?b")
    case True
    moreover have "x \<notin> set (busy (acceptor S'))" using x(1) t' by (auto simp: tinv_at_def)
    moreover have "qs_puts (K x) = []" using kept [of x] True x(1) dom dom' inv by (auto simp: stream_inv_def)
    ultimately show ?thesis by (simp add: since_after_def)
  next
    case False
    with old [OF x] have "x \<in> set as" "runs ?H x" by simp_all
    with kept [of x] x(1) dom dom' inv False show ?thesis by (simp add: stream_inv_def since_after_def)
  qed
  moreover have "qs_puts (K x) = []" if "x \<in> set (busy (acceptor S'))" for x
    using busy [OF that] kept [of x] new [of x] dom dom' inv that by (auto simp: stream_inv_def)
  ultimately have "stream_inv cfg c q n h0 (s\<lparr>ss_tcp := S', ss_queues := K, ss_since := since_after s S'\<rparr>) as'" using t' by (simp add: stream_inv_def)
  then show ?thesis ..
qed

lemma stream_block:
  assumes inv: "stream_inv cfg c q n h0 s as" and served: "sdr_callback (tcp_heap (ss_tcp s)) (tcp_nodes (ss_tcp s)) = Some served"
    and queues: "\<And>x. if x \<in> set served then put_step c q xs (ss_queues s x) (K x) else K x = ss_queues s x"
  shows "stream_inv cfg c q n h0 (s\<lparr>ss_queues := K, ss_stream := ss_stream s @ [xs]\<rparr>) as"
proof -
  let ?H = "tcp_heap (ss_tcp s)"
  from inv have t: "tinv_at cfg (ss_tcp s) as" by (simp add: stream_inv_def)
  with served_clients [OF t] served have sv: "x \<in> set served \<longleftrightarrow> x \<in> set as \<and> runs ?H x" for x by auto
  have put: "qs_puts (K x) = qs_puts (ss_queues s x) @ [xs] \<and> qreach c q n h0 (K x)" if "x \<in> set served" for x
  proof -
    from that sv t have "x \<in> dom ?H" by (auto simp: tinv_at_def)
    with inv have "qreach c q n h0 (ss_queues s x)" by (simp add: stream_inv_def)
    with put_step_reach [of c q xs "ss_queues s x" "K x" n h0] queues [of x] that show ?thesis by simp
  qed
  have other: "K x = ss_queues s x" if "x \<notin> set served" for x using queues [of x] that by simp
  have part: "ss_since s x \<le> length (ss_stream s) \<and> qs_puts (K x) = drop (ss_since s x) (ss_stream s @ [xs])"
    if "x \<in> set served" for x
    using put [OF that] that sv inv by (auto simp: stream_inv_def)
  have "qreach c q n h0 (K x) \<and> sublist (qs_puts (K x)) (ss_stream s @ [xs])" if "x \<in> dom ?H" for x
  proof (cases "x \<in> set served")
    case True
    have "sublist (drop (ss_since s x) (ss_stream s @ [xs])) (ss_stream s @ [xs])"
      by (rule suffix_imp_sublist [OF suffix_drop])
    with put [OF True] part [OF True] show ?thesis by metis
  next
    case False
    moreover have "sublist (qs_puts (ss_queues s x)) (ss_stream s)" using inv that by (simp add: stream_inv_def)
    then have "sublist (qs_puts (ss_queues s x)) (ss_stream s @ [xs])" by (rule sublist_order.order_trans) simp
    ultimately show ?thesis using other inv that by (simp add: stream_inv_def)
  qed
  moreover have "qs_puts (K x) = []" if "x \<in> set (busy (acceptor (ss_tcp s)))" for x
  proof -
    from that t sv have "x \<notin> set served" by (auto simp: tinv_at_def)
    with other inv that show ?thesis by (simp add: stream_inv_def)
  qed
  ultimately show ?thesis using t part sv by (simp add: stream_inv_def le_SucI)
qed

lemma sstep_inv:
  assumes "sstep early failing cfg c q n h0 s s'" "stream_inv cfg c q n h0 s as"
  shows "\<exists>as'. stream_inv cfg c q n h0 s' as'"
  using assms(1)
proof cases
  case (s_tcp S' K)
  with stream_tcp [OF assms(2)] show ?thesis by blast
next
  case (s_block served xs K)
  with stream_block [OF assms(2)] show ?thesis by blast
next
  case (s_worker a m k)
  have "qs_puts k = qs_puts (ss_queues s a)" "qreach c q n h0 (ss_queues s a) \<Longrightarrow> qreach c q n h0 k"
    using consumer_steps [OF r_into_rtranclp [of "consumer_step c q", OF s_worker(4)]] by simp_all
  with assms(2) s_worker(1) have "stream_inv cfg c q n h0 s' as" by (auto simp: stream_inv_def)
  then show ?thesis ..
qed

lemma sreach_inv:
  assumes "(sstep early failing cfg c q n h0)\<^sup>*\<^sup>* (stream_start K) s"
  shows "\<exists>as. stream_inv cfg c q n h0 s as"
  using assms
proof (induction rule: rtranclp_induct)
  case base
  have "stream_inv cfg c q n h0 (stream_start K) []"
    by (simp add: stream_inv_def stream_start_def tinv_at_def tstart_def nodes_fine_def)
  then show ?case ..
next
  case (step s s')
  then show ?case using sstep_inv by blast
qed

lemma put_possible:
  assumes "qreach c q n h0 k" "2 \<le> n" "length xs \<le> c"
  shows "\<exists>k'. put_step c q xs k k'"
proof -
  from qreach_inv [OF assms(1)] obtain Q fs gs ds where inv: "qinv_at c q n h0 k Q fs gs ds" by (auto simp: qinv_def)
  then have Q: "queues (qs_heap k) q = Some Q" and rep: "queue_rep c (qs_heap k) Q fs gs ds"
    and n: "length fs + length gs + length ds = n" by (simp_all add: qinv_at_def)
  from rep have "length ds \<le> 1" by (simp add: queue_rep_def)
  with n assms(2) have "fs \<noteq> [] \<or> gs \<noteq> []" by auto
  with queue_put_rep [OF Q rep assms(3)] obtain h' where "dsp_worker_process xs q (qs_heap k) = Some h'"
    by (auto simp: dsp_worker_process_def)
  with Q assms(3) show ?thesis by (auto simp: put_step_def)
qed

lemma seen_subseq:
  assumes "qreach c q n h0 k"
  shows "subseq (qs_seen k) (qs_puts k)"
proof -
  from qreach_inv [OF assms] obtain Q fs gs ds where "qinv_at c q n h0 k Q fs gs ds" by (auto simp: qinv_def)
  then have "subseq (qs_seen k @ map (content (qs_heap k)) (ds @ gs)) (qs_puts k)" by (simp add: qinv_at_def)
  then show ?thesis by (rule subseq_order.trans [rotated]) (rule list_emb_prefix, simp)
qed

lemma block_possible:
  assumes inv: "stream_inv cfg c q n h0 s as" and "2 \<le> n" "length xs \<le> c" "sdr_running (ss_tcp s)"
    "\<not> holds_mutex (acceptor (ss_tcp s))"
  shows "\<exists>s'. sstep early failing cfg c q n h0 s s' \<and> ss_stream s' = ss_stream s @ [xs]"
proof -
  from inv have t: "tinv_at cfg (ss_tcp s) as" by (simp add: stream_inv_def)
  let ?served = "filter (runs (tcp_heap (ss_tcp s))) as"
  have "\<forall>x. \<exists>k. if x \<in> set ?served then put_step c q xs (ss_queues s x) k else k = ss_queues s x"
  proof
    fix x
    show "\<exists>k. if x \<in> set ?served then put_step c q xs (ss_queues s x) k else k = ss_queues s x"
    proof (cases "x \<in> set ?served")
      case True
      with t have "x \<in> dom (tcp_heap (ss_tcp s))" by (auto simp: tinv_at_def)
      with inv have "qreach c q n h0 (ss_queues s x)" by (simp add: stream_inv_def)
      from put_possible [OF this assms(2,3)] True show ?thesis by simp
    next
      case False
      then show ?thesis by (metis)
    qed
  qed
  then obtain K where K: "\<And>x. if x \<in> set ?served then put_step c q xs (ss_queues s x) (K x) else K x = ss_queues s x"
    by metis
  from s_block [OF assms(4,5) served_clients [OF t] K] show ?thesis by fastforce
qed

subsection \<open>Properties\<close>


text \<open>A run with one client and one block.\<close>

lemma keep_workers:
  assumes "tstep early failing cfg (ss_tcp s) S'" "qstart c q n h0 k"
    and "\<And>x m'. tcp_heap S' x = Some m' \<Longrightarrow> tn_worker m'"
  shows "\<exists>s'. sstep early failing cfg c q n h0 s s' \<and> ss_tcp s' = S' \<and> ss_stream s' = ss_stream s"
proof -
  let ?K = "\<lambda>x. if tcp_heap (ss_tcp s) x = None \<and> tcp_heap S' x \<noteq> None then k else ss_queues s x"
  have "queue_change c q n h0 (tcp_heap (ss_tcp s) x) (tcp_heap S' x) (ss_queues s x) (?K x)" for x
    using assms(2) assms(3) [of x] by (auto simp: queue_change_def split: option.splits)
  from s_tcp [OF assms(1) this] show ?thesis by fastforce
qed

lemma trun_append: "trun e f cfg (evs @ evs') S = Option.bind (trun e f cfg evs S) (trun e f cfg evs')"
  by (induction evs arbitrary: S) (auto split: Option.bind_splits)

lemma demo_next:
  "trun fault fault demo_cfg (evs @ [ev]) tstart \<noteq> None \<Longrightarrow>
    texec fault fault demo_cfg ev (demo_server fault evs) = Some (demo_server fault (evs @ [ev]))"
  by (auto simp: demo_server_def trun_append bind_eq_Some_conv)

lemma demo_admission:
  "texec False False demo_cfg (Connect 4 demo_request) tstart = Some (demo_server False [Connect 4 demo_request])"
  "texec False False demo_cfg Admit (demo_server False [Connect 4 demo_request]) =
    Some (demo_server False [Connect 4 demo_request, Admit])"
  "texec False False demo_cfg (Start 0) (demo_server False [Connect 4 demo_request, Admit]) =
    Some (demo_server False [Connect 4 demo_request, Admit, Start 0])"
proof -
  have "trun False False demo_cfg [Connect 4 demo_request, Admit, Start 0] tstart \<noteq> None" by (simp add: server_eval)
  then have "trun False False demo_cfg ([] @ [Connect 4 demo_request]) tstart \<noteq> None"
    "trun False False demo_cfg ([Connect 4 demo_request] @ [Admit]) tstart \<noteq> None"
    "trun False False demo_cfg ([Connect 4 demo_request, Admit] @ [Start 0]) tstart \<noteq> None"
    by (auto simp del: texec.simps simp: bind_eq_Some_conv)
  from this [THEN demo_next] show "texec False False demo_cfg (Connect 4 demo_request) tstart = Some (demo_server False [Connect 4 demo_request])"
    "texec False False demo_cfg Admit (demo_server False [Connect 4 demo_request]) =
      Some (demo_server False [Connect 4 demo_request, Admit])"
    "texec False False demo_cfg (Start 0) (demo_server False [Connect 4 demo_request, Admit]) =
      Some (demo_server False [Connect 4 demo_request, Admit, Start 0])"
    by (simp_all only: append.simps demo_server_def trun.simps option.case)
qed

lemma demo_admission_workers:
  "tcp_heap (demo_server False [Connect 4 demo_request]) x = Some m \<Longrightarrow> tn_worker m"
  "tcp_heap (demo_server False [Connect 4 demo_request, Admit]) x = Some m \<Longrightarrow> tn_worker m"
  "tcp_heap (demo_server False [Connect 4 demo_request, Admit, Start 0]) x = Some m \<Longrightarrow> tn_worker m"
  by (auto simp: demo_server_def server_eval split: if_splits)

lemma demo_admitted:
  "sdr_running (demo_server False [Connect 4 demo_request, Admit, Start 0])"
  "acceptor (demo_server False [Connect 4 demo_request, Admit, Start 0]) = Accepting"
  "tcp_nodes (demo_server False [Connect 4 demo_request, Admit, Start 0]) = Some 4"
  by (simp_all add: demo_server_def server_eval)


end
