(* ===== verification/Tcp_Shutdown.thy ===== *)
theory Tcp_Shutdown
  imports Tcp_Properties
begin

text \<open>
  The end of the server of \<open>src/src/tcp_server.c\<close>: once the acceptor has left its loop, its final part, the
  clients' threads and the shutdown thread run out of steps, and then nothing is left.
\<close>

subsection \<open>A measure of the steps that are left\<close>

fun thread_weight :: "thread_pc \<Rightarrow> nat" where
  "thread_weight Looping = 3" | "thread_weight Locking = 2" | "thread_weight Finished = 1"

fun shutdown_weight :: "shutdown_pc \<Rightarrow> nat" where
  "shutdown_weight No_thread = 3" | "shutdown_weight Stopping = 2" | "shutdown_weight Reporting = 1"
| "shutdown_weight Reported = 0"

fun acceptor_weight :: "acceptor_pc \<Rightarrow> nat" where
  "acceptor_weight Draining = 5" | "acceptor_weight Joining_final = 4" | "acceptor_weight pc = 0"

definition heap_weight :: "node_heap \<Rightarrow> nat" where
  "heap_weight H = (\<Sum>a \<in> dom H. thread_weight (tn_thread (the (H a))))"

definition shutdown_measure :: "tcp_server \<Rightarrow> nat" where
  "shutdown_measure S = heap_weight (tcp_heap S) + shutdown_weight (shutdown_thread S) + acceptor_weight (acceptor S) +
     of_bool (ts_is_running S)"

lemma heap_weight_remove:
  "finite (dom H) \<Longrightarrow> H a = Some n \<Longrightarrow> heap_weight H = heap_weight (H(a := None)) + thread_weight (tn_thread n)"
  by (auto simp: heap_weight_def sum.remove [of "dom H" a] domI intro!: sum.cong)

lemma heap_weight_update:
  assumes "finite (dom H)" "H a = Some n"
  shows "heap_weight (H(a \<mapsto> n')) + thread_weight (tn_thread n) = heap_weight H + thread_weight (tn_thread n')"
  using heap_weight_remove [OF assms] heap_weight_remove [of "H(a \<mapsto> n')" a n'] assms(1) by simp

lemma thread_weight_pos: "0 < thread_weight pc"
  by (cases pc) simp_all

definition closing :: "acceptor_pc set" where
  "closing = {Draining, Joining_final, Exited}"

lemma tinv_finite: "tinv_at cfg S as \<Longrightarrow> finite (dom (tcp_heap S))"
  by (simp add: tinv_at_def)

text \<open>A step of a closing server changes nothing or brings it nearer to its end.\<close>

lemma closing_step:
  assumes step: "tstep early failing cfg S S'" and pc: "acceptor S \<in> closing" and inv: "tinv_at cfg S as"
  shows "S' = S \<or> shutdown_measure S' < shutdown_measure S"
  using step
proof cases
  case (leaves a n)
  with heap_weight_update [OF tinv_finite [OF inv] leaves(2), of "n\<lparr>tn_thread := Locking\<rparr>"] show ?thesis
    by (simp add: shutdown_measure_def)
next
  case (terminates a n)
  define n' where "n' = n\<lparr>tn_config := (tn_config n)\<lparr>is_running := False\<rparr>, tn_worker := False, tn_thread := Finished\<rparr>"
  have "heap_weight ((tcp_heap S)(a \<mapsto> n')) < heap_weight (tcp_heap S)"
    using heap_weight_update [OF tinv_finite [OF inv] terminates(1), of n'] terminates(2) by (simp add: n'_def)
  moreover have "\<not> shutdown_thread_created S \<Longrightarrow> shutdown_thread S = No_thread" using tinv_created [OF inv] by simp
  ultimately show ?thesis
    using worker_terminate_ok(1) [OF inv terminates(1), folded n'_def] terminates(4)
    by (auto simp: shutdown_measure_def split: if_splits)
next
  case drains
  show ?thesis
  proof (cases "tcp_nodes S")
    case None
    with drains show ?thesis by (auto simp: drain_def shutdown_measure_def split: if_splits)
  next
    case (Some a)
    with drains obtain n where n: "tcp_heap S a = Some n" by (auto simp: drain_def bind_eq_Some_conv)
    from heap_weight_remove [OF tinv_finite [OF inv] n] thread_weight_pos [of "tn_thread n"]
    have "heap_weight ((tcp_heap S)(a := None)) < heap_weight (tcp_heap S)" by simp
    with drains Some n show ?thesis
      by (auto simp: drain_def tcp_node_final_cleanup_def shutdown_measure_def bind_eq_Some_conv split: if_splits)
  qed
next
  case exits
  then show ?thesis
    by (cases "shutdown_thread S") (auto simp: finish_def shutdown_measure_def split: if_splits)
qed (use pc in \<open>auto simp: closing_def shutdown_measure_def\<close>)

text \<open>Until the acceptor has returned there is such a step.\<close>

lemma changes: "tstep early failing cfg S T \<Longrightarrow> g T \<noteq> g S \<Longrightarrow> \<exists>S'. tstep early failing cfg S S' \<and> S' \<noteq> S"
  by auto

lemma client_progress:
  assumes inv: "tinv_at cfg S (a # as)" and pc: "acceptor S = Draining"
  shows "\<exists>S'. tstep early failing cfg S S' \<and> S' \<noteq> S"
proof -
  from inv obtain n where n: "tcp_nodes S = Some a" "tcp_heap S a = Some n" by (auto simp: tinv_at_def tlinks_Some)
  have node: "thread_pc \<noteq> tn_thread n \<Longrightarrow> (tcp_heap S)(a \<mapsto> n\<lparr>tn_thread := thread_pc\<rparr>) \<noteq> tcp_heap S" for thread_pc
    using n(2) by (metis fun_upd_same option.inject tcp_node.select_convs(4) tcp_node.surjective tcp_node.update_convs(4))
  show ?thesis
  proof (cases "tn_thread n")
    case Looping
    show ?thesis
      by (rule changes [where g = tcp_heap, OF tstep.leaves [OF n(2) Looping]]) (simp_all add: pc node Looping)
  next
    case Locking
    note t = worker_terminate_ok(1) [OF inv n(2)]
    show ?thesis
    proof (rule changes [where g = "\<lambda>S. map_option tn_thread (tcp_heap S a)", OF tstep.terminates [OF n(2) Locking _ t]])
    qed (simp_all add: pc n Locking)
  next
    case Finished
    then have idle: "\<not> node_running n" using inv n(2) by (auto simp: tinv_at_def nodes_fine_def tnode_ok_def)
    have "drain S = Some (S\<lparr>tcp_heap := (tcp_heap S)(a := None), tcp_nodes := tn_next n\<rparr>)"
      by (simp add: drain_def n idle tcp_node_final_cleanup_def Finished)
    from tstep.drains [OF pc this] show ?thesis by (rule changes [where g = "\<lambda>S. tcp_heap S a"]) (simp add: n)
  qed
qed

lemma closing_progress:
  assumes inv: "tinv_at cfg S as" "pinv S as" and pc: "acceptor S \<in> {Draining, Joining_final}"
  shows "\<exists>S'. tstep False False cfg S S' \<and> S' \<noteq> S"
proof (cases "acceptor S = Joining_final")
  case True
  with inv(2) have "shutdown_thread S \<noteq> Stopping" "shutdown_thread S \<noteq> Reporting" by (simp_all add: pinv_def)
  then obtain S' where S': "finish S = Some S'"
    using tinv_created [OF inv(1)] by (cases "shutdown_thread S") (auto simp: finish_def)
  moreover from this have "acceptor S' = Exited" by (auto simp: finish_def split: if_splits)
  ultimately show ?thesis using True changes [where g = acceptor, OF tstep.exits [OF True S']] by simp
next
  case False
  with pc have dr: "acceptor S = Draining" by simp
  show ?thesis
  proof (cases as)
    case Nil
    then have idle: "\<not> live S as" and none: "tcp_nodes S = None" using inv(1) by (simp_all add: live_def tinv_at_def)
    show ?thesis
    proof (cases "sdr_stopped S")
      case True
      have "drain S = Some (S\<lparr>acceptor := Joining_final\<rparr>)" by (simp add: drain_def none True)
      from changes [where g = acceptor, OF tstep.drains [OF dr this]] dr show ?thesis by simp
    next
      case False
      with inv idle tinv_created [OF inv(1)] consider "shutdown_thread S = Stopping" | "shutdown_thread S = Reporting"
        by (cases "shutdown_thread S") (auto simp: pinv_def)
      then show ?thesis
      proof cases
        case 1
        from changes [where g = shutdown_thread, OF tstep.stops_device [OF this]] 1 show ?thesis by simp
      next
        case 2
        from changes [where g = shutdown_thread, OF tstep.reports [OF this]] 2 dr show ?thesis by simp
      qed
    qed
  next
    case (Cons a bs)
    with client_progress inv(1) dr show ?thesis by blast
  qed
qed

text \<open>What the end leaves.\<close>

lemma admit_pc: "admit a S = Some S' \<Longrightarrow> acceptor S' \<notin> {Joining_final, Exited}"
proof -
  assume S': "admit a S = Some S'"
  then obtain head H n where H: "cleanup_terminated_threads (tcp_nodes S) (tcp_heap S) = Some (head, H)" "H a = Some n"
    by (auto simp: admit_def Let_def bind_eq_Some_conv)
  show ?thesis
  proof (cases head)
    case None
    with S' H show ?thesis by (auto simp: admit_def Let_def split: if_splits)
  next
    case (Some x)
    with S' H show ?thesis by (auto simp: admit_def Let_def bind_eq_Some_conv split: if_splits)
  qed
qed

lemma treach_end:
  assumes "treach early failing cfg S"
  shows "(acceptor S \<in> {Joining_final, Exited} \<longrightarrow> tcp_nodes S = None \<and> sdr_stopped S) \<and>
    (acceptor S = Exited \<longrightarrow> \<not> shutdown_thread_created S)"
  using assms
proof induction
  case start
  show ?case by (simp add: tstart_def)
next
  case (step S S')
  from step(2,3) show ?case
  proof cases
    case (terminates a n)
    obtain as where inv: "tinv_at cfg S as" using treach_tinv [OF step(1)] by blast
    have "acceptor S \<noteq> Exited"
    proof
      assume "acceptor S = Exited"
      with step(3) inv have "dom (tcp_heap S) = {}" by (simp add: tinv_at_def)
      with terminates(1) show False by (metis domI empty_iff)
    qed
    moreover have "acceptor S' = acceptor S" "acceptor S \<noteq> Joining_final"
      using worker_terminate_ok(1) [OF inv terminates(1)] terminates(3,4) by auto
    ultimately show ?thesis by simp
  next
    case (admits a)
    with admit_pc show ?thesis by fastforce
  next
    case (starts a code)
    then have "acceptor S' \<in> {Accepting, Dropping a}"
      by (auto simp: start_device_def Let_def bind_eq_Some_conv split: if_splits)
    then show ?thesis by auto
  next
    case drains
    show ?thesis
    proof (cases "tcp_nodes S")
      case None
      with drains show ?thesis by (cases "sdr_stopped S") (auto simp: drain_def)
    next
      case (Some a)
      with drains have "acceptor S' = Draining"
        by (auto simp: drain_def tcp_node_final_cleanup_def bind_eq_Some_conv split: if_splits)
      then show ?thesis by simp
    qed
  next
    case exits
    with step(3) show ?thesis by (auto simp: finish_def split: if_splits)
  qed (use step(3) in simp_all)
qed

subsection \<open>The server ends\<close>



end
