(* ===== verification/Client_Sockets.thy ===== *)
theory Client_Sockets
  imports Prelude
begin

text \<open>
  The descriptors of the clients' sockets in \<open>src/src/tcp_server.c\<close> and \<open>src/src/dsp_worker.c\<close>: who closes
  them and when, against an acceptor that takes new connections without the mutex.
\<close>

subsection \<open>The table of descriptors\<close>

text \<open>\<open>accept\<close> returns the lowest descriptor that is free; \<open>close\<close> of one that is free does nothing.\<close>

datatype fd_owner = System | Conn nat

type_synonym fd_table = "fd_owner option list"

fun fd_open :: "fd_owner \<Rightarrow> fd_table \<Rightarrow> nat \<times> fd_table" where
  "fd_open k [] = (0, [Some k])"
| "fd_open k (None # T) = (0, Some k # T)"
| "fd_open k (Some x # T) = (let (fd, T') = fd_open k T in (Suc fd, Some x # T'))"

definition fd_close :: "nat \<Rightarrow> fd_table \<Rightarrow> fd_table" where
  "fd_close fd T = T[fd := None]"

definition fd_lookup :: "fd_table \<Rightarrow> nat \<Rightarrow> fd_owner option" where
  "fd_lookup T fd = (if fd < length T then T ! fd else None)"

lemma fd_lookup_simps [simp]:
  "fd_lookup [] fd = None" "fd_lookup (x # T) 0 = x" "fd_lookup (x # T) (Suc fd) = fd_lookup T fd"
  by (simp_all add: fd_lookup_def)

lemma fd_lookup_close [simp]: "fd_lookup (fd_close fd T) = (fd_lookup T)(fd := None)"
  by (auto simp: fd_lookup_def fd_close_def fun_eq_iff nth_list_update)

lemma fd_lookup_open:
  "fd_open k T = (fd, T') \<Longrightarrow> fd_lookup T fd = None \<and> fd_lookup T' = (fd_lookup T)(fd := Some k)"
proof (induction k T arbitrary: fd T' rule: fd_open.induct)
  case (3 k x T)
  obtain fd1 T1 where "fd_open k T = (fd1, T1)" by (cases "fd_open k T")
  with 3 show ?case by (auto simp: fun_eq_iff) (metis fd_lookup_simps(2,3) not0_implies_Suc)+
qed (auto simp: fun_eq_iff fd_lookup_def nth_Cons split: nat.splits)

subsection \<open>Connections\<close>

text \<open>
  \<open>Broken\<close>: a write of the dsp worker has failed and closed the socket, the client's thread does not know
  yet.  \<open>Closed_once\<close>: \<open>tcp_worker\<close> has closed it.  \<open>Closed_twice\<close>: \<open>tcp_node_destroy\<close> has, too, and waits
  for the dsp worker to drain its queue.  \<open>written\<close> has the connection whose samples were written and the
  one that got them.
\<close>

datatype conn_stage = Serving | Broken | Closed_once | Closed_twice | Gone

record socket_state =
  fds :: fd_table
  conns :: "(nat \<times> conn_stage) list"
  written :: "(nat \<times> fd_owner) list"

definition conn_fd :: "socket_state \<Rightarrow> nat \<Rightarrow> nat" where "conn_fd s i = fst (conns s ! i)"
definition conn_stage :: "socket_state \<Rightarrow> nat \<Rightarrow> conn_stage" where "conn_stage s i = snd (conns s ! i)"

definition close_as :: "nat \<Rightarrow> conn_stage \<Rightarrow> socket_state \<Rightarrow> socket_state" where
  "close_as i st s = s\<lparr>fds := fd_close (conn_fd s i) (fds s), conns := (conns s)[i := (conn_fd s i, st)]\<rparr>"

text \<open>\<open>acceptor_worker\<close>: a new connection.\<close>

definition accept_connection :: "socket_state \<Rightarrow> socket_state" where
  "accept_connection s =
     (let (fd, T) = fd_open (Conn (length (conns s))) (fds s)
      in s\<lparr>fds := T, conns := conns s @ [(fd, Serving)]\<rparr>)"

text \<open>
  How often the socket of a client that is not admitted is closed before the next \<open>accept\<close>: once by
  \<open>respond_failure\<close> or after a ping; again by \<open>tcp_node_destroy\<close> when its worker or its thread could not
  be started; four times when it is refused behind the start of its thread, which is joined: by
  \<open>respond_failure\<close>, by \<open>handle_new_client\<close> itself, and twice by its thread.
\<close>

datatype refusal = Invalid_request | Pinged | Not_started | Dropped

fun closes_of :: "refusal \<Rightarrow> nat" where
  "closes_of Invalid_request = 1" | "closes_of Pinged = 1" | "closes_of Not_started = 2" | "closes_of Dropped = 4"

definition refuse_connection :: "refusal \<Rightarrow> nat \<Rightarrow> socket_state \<Rightarrow> socket_state" where
  "refuse_connection how i s = (close_as i Gone ^^ closes_of how) s"

text \<open>The end of \<open>tcp_worker\<close>: its \<open>close\<close>, the one of \<open>tcp_node_destroy\<close>, the end of the dsp worker.\<close>

definition terminate_closes :: "nat \<Rightarrow> socket_state \<Rightarrow> socket_state" where
  "terminate_closes i s = close_as i Closed_once s"

definition destroy_closes :: "nat \<Rightarrow> socket_state \<Rightarrow> socket_state" where
  "destroy_closes i s = close_as i Closed_twice s"

definition worker_joined :: "nat \<Rightarrow> socket_state \<Rightarrow> socket_state" where
  "worker_joined i s = s\<lparr>conns := (conns s)[i := (conn_fd s i, Gone)]\<rparr>"

text \<open>
  A block of the dsp worker: written when the descriptor is open and the peer takes it, else the socket
  is closed.
\<close>

definition worker_writes :: "bool \<Rightarrow> nat \<Rightarrow> socket_state \<Rightarrow> socket_state" where
  "worker_writes peer_ok i s =
     (case fd_lookup (fds s) (conn_fd s i) of
        Some owner \<Rightarrow>
          (if peer_ok then s\<lparr>written := written s @ [(i, owner)]\<rparr>
           else close_as i (if conn_stage s i = Serving then Broken else conn_stage s i) s)
      | None \<Rightarrow> close_as i (if conn_stage s i = Serving then Broken else conn_stage s i) s)"

subsection \<open>Runs\<close>

datatype sock_event = Accepts | Refuses refusal nat | Terminates nat | Destroys nat | Joins nat | Writes bool nat

definition settled :: "socket_state \<Rightarrow> bool" where
  "settled s \<longleftrightarrow> (\<forall>c \<in> set (conns s). snd c = Serving \<or> snd c = Gone)"

text \<open>\<open>racing\<close> allows a connection to be accepted while another is being closed.\<close>

fun sock_step :: "bool \<Rightarrow> sock_event \<Rightarrow> socket_state \<Rightarrow> socket_state option" where
  "sock_step racing Accepts s = (if racing \<or> settled s then Some (accept_connection s) else None)"
| "sock_step racing (Refuses how i) s =
     (if i < length (conns s) \<and> conn_stage s i = Serving then Some (refuse_connection how i s) else None)"
| "sock_step racing (Terminates i) s =
     (if i < length (conns s) \<and> conn_stage s i \<in> {Serving, Broken} then Some (terminate_closes i s) else None)"
| "sock_step racing (Destroys i) s =
     (if i < length (conns s) \<and> conn_stage s i = Closed_once then Some (destroy_closes i s) else None)"
| "sock_step racing (Joins i) s =
     (if i < length (conns s) \<and> conn_stage s i = Closed_twice then Some (worker_joined i s) else None)"
| "sock_step racing (Writes peer_ok i) s =
     (if i < length (conns s) \<and> conn_stage s i \<noteq> Gone then Some (worker_writes peer_ok i s) else None)"

fun sock_run :: "bool \<Rightarrow> sock_event list \<Rightarrow> socket_state \<Rightarrow> socket_state option" where
  "sock_run racing [] s = Some s"
| "sock_run racing (ev # evs) s = Option.bind (sock_step racing ev s) (sock_run racing evs)"

text \<open>The descriptors the server has open before its first client.\<close>

definition no_clients :: "fd_table \<Rightarrow> socket_state" where
  "no_clients T = \<lparr>fds = T, conns = [], written = []\<rparr>"

subsection \<open>The invariant without the race\<close>

definition sock_inv :: "fd_table \<Rightarrow> socket_state \<Rightarrow> bool" where
  "sock_inv T s \<longleftrightarrow>
     (\<forall>i < length (conns s). conn_stage s i = Serving \<longrightarrow> fd_lookup (fds s) (conn_fd s i) = Some (Conn i)) \<and>
     (\<forall>fd i. fd_lookup (fds s) fd = Some (Conn i) \<longrightarrow> i < length (conns s) \<and> conns s ! i = (fd, Serving)) \<and>
     (\<forall>i < length (conns s). conn_stage s i \<notin> {Serving, Gone} \<longrightarrow> fd_lookup (fds s) (conn_fd s i) = None) \<and>
     (\<forall>fd. fd_lookup (fds s) fd = Some System \<longleftrightarrow> fd_lookup T fd = Some System) \<and>
     (\<forall>(i, owner) \<in> set (written s). owner = Conn i)"

lemma sock_invD:
  assumes "sock_inv T s"
  shows "i < length (conns s) \<Longrightarrow> conn_stage s i = Serving \<Longrightarrow> fd_lookup (fds s) (conn_fd s i) = Some (Conn i)"
    and "fd_lookup (fds s) fd = Some (Conn i) \<Longrightarrow> i < length (conns s) \<and> conns s ! i = (fd, Serving)"
    and "i < length (conns s) \<Longrightarrow> conn_stage s i \<notin> {Serving, Gone} \<Longrightarrow> fd_lookup (fds s) (conn_fd s i) = None"
    and "fd_lookup (fds s) fd = Some System \<longleftrightarrow> fd_lookup T fd = Some System"
    and "(i, owner) \<in> set (written s) \<Longrightarrow> owner = Conn i"
  using assms unfolding sock_inv_def by blast+

lemma sock_invI:
  assumes "\<And>i. i < length (conns s) \<Longrightarrow> conn_stage s i = Serving \<Longrightarrow> fd_lookup (fds s) (conn_fd s i) = Some (Conn i)"
    and "\<And>fd i. fd_lookup (fds s) fd = Some (Conn i) \<Longrightarrow> i < length (conns s) \<and> conns s ! i = (fd, Serving)"
    and "\<And>i. i < length (conns s) \<Longrightarrow> conn_stage s i \<notin> {Serving, Gone} \<Longrightarrow> fd_lookup (fds s) (conn_fd s i) = None"
    and "\<And>fd. fd_lookup (fds s) fd = Some System \<longleftrightarrow> fd_lookup T fd = Some System"
    and "\<And>i owner. (i, owner) \<in> set (written s) \<Longrightarrow> owner = Conn i"
  shows "sock_inv T s"
  using assms unfolding sock_inv_def by blast

lemma conn_close [simp]:
  "j < length (conns s) \<Longrightarrow> conn_fd (close_as i st s) j = conn_fd s j"
  "i < length (conns s) \<Longrightarrow> conn_stage (close_as i st s) j = (if j = i then st else conn_stage s j)"
  "fds (close_as i st s) = fd_close (conn_fd s i) (fds s)" "length (conns (close_as i st s)) = length (conns s)"
  "written (close_as i st s) = written s"
  by (cases "i = j") (simp_all add: close_as_def conn_fd_def conn_stage_def nth_list_update)

lemma close_inv:
  assumes inv: "sock_inv T s" and i: "i < length (conns s)" and st: "st \<noteq> Serving"
    and own: "conn_stage s i = Serving \<or> fd_lookup (fds s) (conn_fd s i) = None"
  shows "sock_inv T (close_as i st s)"
proof -
  note D = sock_invD [OF inv]
  have mine: "fd_lookup (fds s) (conn_fd s i) \<in> {None, Some (Conn i)}" using own D(1) [OF i] by auto
  show ?thesis
  proof (rule sock_invI, goal_cases)
    case (1 j)
    then have "j \<noteq> i" "conn_stage s j = Serving" using i st by (auto split: if_splits)
    with D(1) [of j] 1 mine show ?case by auto
  next
    case (2 fd j)
    then have "fd \<noteq> conn_fd s i" "fd_lookup (fds s) fd = Some (Conn j)" by (auto split: if_splits)
    with D(2) [of fd j] have "j \<noteq> i" "j < length (conns s)" "conns s ! j = (fd, Serving)" by (auto simp: conn_fd_def)
    then show ?case by (simp add: close_as_def)
  next
    case (3 j)
    then show ?case using D(3) [of j] i by (cases "j = i") auto
  next
    case (4 fd)
    then show ?case using D(4) [of fd] mine by auto
  qed (use D(5) in auto)
qed

lemma refuse_inv:
  assumes inv: "sock_inv T s" and i: "i < length (conns s)" and serving: "conn_stage s i = Serving"
  shows "sock_inv T (refuse_connection how i s) \<and> fd_lookup (fds (refuse_connection how i s)) (conn_fd s i) = None"
proof -
  have "sock_inv T ((close_as i Gone ^^ Suc n) s) \<and> length (conns ((close_as i Gone ^^ Suc n) s)) = length (conns s) \<and>
      conn_fd ((close_as i Gone ^^ Suc n) s) i = conn_fd s i \<and>
      fd_lookup (fds ((close_as i Gone ^^ Suc n) s)) (conn_fd s i) = None" for n
  proof (induction n)
    case 0
    from close_inv [OF inv i] serving i show ?case by simp
  next
    case (Suc n)
    let ?s = "(close_as i Gone ^^ Suc n) s"
    have "sock_inv T (close_as i Gone ?s)" using Suc i by (intro close_inv) simp_all
    moreover have "(close_as i Gone ^^ Suc (Suc n)) s = close_as i Gone ?s" by simp
    ultimately show ?case using Suc i by (simp only: conn_close fd_lookup_close) simp
  qed
  moreover obtain n where "closes_of how = Suc n" by (cases how) (simp_all add: eval_nat_numeral)
  ultimately show ?thesis by (simp only: refuse_connection_def)
qed

lemma accept_inv_sockets:
  assumes inv: "sock_inv T s" and settled: "settled s"
  shows "sock_inv T (accept_connection s)"
proof -
  note D = sock_invD [OF inv]
  obtain fd T' where o': "fd_open (Conn (length (conns s))) (fds s) = (fd, T')" by (cases "fd_open (Conn (length (conns s))) (fds s)")
  from fd_lookup_open [OF o'] have free: "fd_lookup (fds s) fd = None"
    and T': "fd_lookup T' = (fd_lookup (fds s))(fd := Some (Conn (length (conns s))))" by simp_all
  have a: "accept_connection s = s\<lparr>fds := T', conns := conns s @ [(fd, Serving)]\<rparr>" by (simp add: accept_connection_def o')
  have old: "conn_fd (accept_connection s) j = conn_fd s j" "conn_stage (accept_connection s) j = conn_stage s j"
    if "j < length (conns s)" for j using that by (simp_all add: a conn_fd_def conn_stage_def nth_append)
  have new: "conn_fd (accept_connection s) (length (conns s)) = fd" by (simp add: a conn_fd_def)
  show ?thesis
  proof (rule sock_invI, goal_cases)
    case (1 j)
    then show ?case using D(1) [of j] old [of j] new free T' by (cases "j < length (conns s)") (auto simp: a less_Suc_eq)
  next
    case (2 fd' j)
    then show ?case using D(2) [of fd' j] T' by (auto simp: a nth_append split: if_splits)
  next
    case (3 j)
    have "conn_stage s j \<in> {Serving, Gone}" if "j < length (conns s)"
      using settled that by (auto simp: settled_def conn_stage_def)
    with 3 old(2) [of j] show ?case by (cases "j < length (conns s)") (auto simp: a conn_stage_def nth_append)
  next
    case (4 fd')
    then show ?case using D(4) [of fd'] D(4) [of fd] T' free by (auto simp: a)
  qed (use D(5) in \<open>auto simp: a\<close>)
qed

lemma sock_step_inv:
  assumes inv: "sock_inv T s" and step: "sock_step False ev s = Some s'"
  shows "sock_inv T s'"
proof (cases ev)
  case Accepts
  with step show ?thesis using accept_inv_sockets [OF inv] by (auto split: if_splits)
next
  case (Refuses how i)
  with step show ?thesis using refuse_inv [OF inv] by (auto split: if_splits)
next
  case (Terminates i)
  with step show ?thesis
    using close_inv [OF inv, of i Closed_once] sock_invD(3) [OF inv, of i] by (auto simp: terminate_closes_def split: if_splits)
next
  case (Destroys i)
  with step show ?thesis
    using close_inv [OF inv, of i Closed_twice] sock_invD(3) [OF inv, of i] by (auto simp: destroy_closes_def split: if_splits)
next
  case (Joins i)
  with step have i: "i < length (conns s)" "conn_stage s i = Closed_twice" and s': "s' = worker_joined i s" by (auto split: if_splits)
  note D = sock_invD [OF inv]
  have same: "conn_fd s' j = conn_fd s j" "conn_stage s' j = (if j = i then Gone else conn_stage s j)" if "j < length (conns s)" for j
    using that i by (simp_all add: s' worker_joined_def conn_fd_def conn_stage_def nth_list_update)
  show ?thesis
  proof (rule sock_invI, goal_cases)
    case (2 fd j)
    then have "conns s ! j = (fd, Serving)" "j < length (conns s)" using D(2) [of fd j] by (auto simp: s' worker_joined_def)
    moreover from this i have "j \<noteq> i" by (auto simp: conn_stage_def)
    ultimately show ?case by (simp add: s' worker_joined_def)
  qed (use D same in \<open>auto simp: s' worker_joined_def split: if_splits\<close>)
next
  case (Writes peer_ok i)
  with step have i: "i < length (conns s)" "conn_stage s i \<noteq> Gone" and s': "s' = worker_writes peer_ok i s" by (auto split: if_splits)
  note D = sock_invD [OF inv]
  have own: "conn_stage s i = Serving \<or> fd_lookup (fds s) (conn_fd s i) = None"
    using D(3) [of i] i by (cases "conn_stage s i") auto
  have closes: "sock_inv T (close_as i (if conn_stage s i = Serving then Broken else conn_stage s i) s)"
    by (rule close_inv [OF inv i(1) _ own]) simp
  show ?thesis
  proof (cases "fd_lookup (fds s) (conn_fd s i)")
    case None
    with closes show ?thesis by (simp add: s' worker_writes_def)
  next
    case (Some owner)
    with own D(1) [OF i(1)] have "owner = Conn i" by auto
    have told: "sock_inv T (s\<lparr>written := written s @ [(i, owner)]\<rparr>)"
      by (rule sock_invI) (use D \<open>owner = Conn i\<close> in \<open>auto simp: conn_fd_def conn_stage_def\<close>)
    show ?thesis
    proof (cases peer_ok)
      case True
      with told Some show ?thesis by (simp add: s' worker_writes_def)
    next
      case False
      with closes Some show ?thesis by (simp add: s' worker_writes_def)
    qed
  qed
qed

lemma sock_run_inv: "sock_inv T s \<Longrightarrow> sock_run False evs s = Some s' \<Longrightarrow> sock_inv T s'"
  by (induction evs arbitrary: s) (auto simp: bind_eq_Some_conv dest: sock_step_inv)

lemma no_clients_inv: "\<forall>i. Some (Conn i) \<notin> set T \<Longrightarrow> sock_inv T (no_clients T)"
  by (rule sock_invI) (auto simp: no_clients_def fd_lookup_def split: if_splits dest: nth_mem)

subsection \<open>Properties\<close>



lemma fd_open_lowest: "fd_open k T = (fd, T') \<Longrightarrow> fd < length T' \<and> (\<forall>j < fd. T' ! j \<noteq> None) \<and> T' ! fd = Some k"
proof (induction k T arbitrary: fd T' rule: fd_open.induct)
  case (3 k x T)
  obtain fd1 T1 where "fd_open k T = (fd1, T1)" by (cases "fd_open k T")
  with 3 show ?case by (auto simp: nth_Cons split: nat.splits)
qed auto

lemma fd_reopened:
  "fd < length T \<Longrightarrow> \<forall>j < fd. T ! j \<noteq> None \<Longrightarrow> fd_open k (T[fd := None]) = (fd, T[fd := Some k])"
proof (induction T arbitrary: fd)
  case (Cons x T)
  show ?case
  proof (cases fd)
    case (Suc n)
    with Cons.prems have "x \<noteq> None" "\<forall>j < n. T ! j \<noteq> None" by (auto dest: spec [of _ "Suc _"])
    with Cons Suc show ?thesis by auto
  qed simp
qed simp

text \<open>C10.  Samples can reach another client.  The end of a client closes its socket twice with the acceptor
  running beside it.  Whatever descriptors are open: when a second client is accepted between the two
  closes it gets the same descriptor, the second close takes it away, a third client gets it again, and
  the samples of the second client, still served, are written to the third.\<close>

theorem samples_reach_wrong_client:
  "\<exists>s. sock_run True [Accepts, Terminates 0, Accepts, Destroys 0, Accepts, Writes True 1] (no_clients T) = Some s \<and>
    conn_stage s 1 = Serving \<and> conn_stage s 2 = Serving \<and> conn_fd s 1 = conn_fd s 2 \<and> written s = [(1, Conn 2)]"
proof -
  obtain fd T1 where o': "fd_open (Conn 0) T = (fd, T1)" by (cases "fd_open (Conn 0) T")
  from fd_open_lowest [OF o'] have T1: "fd < length T1" "\<forall>j < fd. T1 ! j \<noteq> None" by simp_all
  then have again: "fd_open k (T1[fd := None]) = (fd, T1[fd := Some k])" for k by (rule fd_reopened)
  show ?thesis using T1(1)
    by (simp add: no_clients_def accept_connection_def terminate_closes_def destroy_closes_def worker_writes_def close_as_def
        conn_stage_def conn_fd_def fd_close_def fd_lookup_def o' again)
qed

text \<open>
  The blocks that are still queued when a client ends go to the client that is accepted before they are
  drained.
\<close>

lemma drained_samples_reach_next_client:
  "\<exists>s. sock_run True [Accepts, Terminates 0, Accepts, Writes True 0] (no_clients T) = Some s \<and> written s = [(0, Conn 1)]"
proof -
  obtain fd T1 where o': "fd_open (Conn 0) T = (fd, T1)" by (cases "fd_open (Conn 0) T")
  from fd_open_lowest [OF o'] have T1: "fd < length T1" "\<forall>j < fd. T1 ! j \<noteq> None" by simp_all
  then have again: "fd_open k (T1[fd := None]) = (fd, T1[fd := Some k])" for k by (rule fd_reopened)
  show ?thesis using T1(1)
    by (simp add: no_clients_def accept_connection_def terminate_closes_def worker_writes_def close_as_def
        conn_stage_def conn_fd_def fd_close_def fd_lookup_def o' again)
qed

end
