(* ===== verification/Driver.thy ===== *)
theory Driver
  imports Config Xlating
begin

text \<open>
  What the device drivers share: a start is a sequence of library calls each wrapped in
  \<open>ERROR_CHECK\<close>, and the interface \<open>receiver\<close> between a driver and \<open>src/src/sdr_device.c\<close>.
\<close>

subsection \<open>Checked sequences of calls\<close>

text \<open>
  The calls in their order, each with the code it returns; \<open>bad\<close> is the test of \<open>ERROR_CHECK\<close>.  The
  result is the list of the calls made and the code of the failing one, or 0.
\<close>

fun run_checked :: "(int \<Rightarrow> bool) \<Rightarrow> ('c \<times> int) list \<Rightarrow> 'c list \<times> int" where
  "run_checked bad [] = ([], 0)"
| "run_checked bad ((c, code) # rest) =
     (if bad code then ([c], code) else apfst ((#) c) (run_checked bad rest))"

abbreviation nonzero :: "int \<Rightarrow> bool" where
  "nonzero code \<equiv> code \<noteq> 0"

abbreviation negative :: "int \<Rightarrow> bool" where
  "negative code \<equiv> code < 0"

lemma run_checked_zero:
  assumes "\<not> bad 0"
  shows "snd (run_checked bad xs) = 0 \<Longrightarrow> (\<forall>x \<in> set xs. \<not> bad (snd x)) \<and> fst (run_checked bad xs) = map fst xs"
  using assms by (induction xs) (force split: if_splits)+

lemma run_checked_ok: "\<forall>x \<in> set xs. \<not> bad (snd x) \<Longrightarrow> run_checked bad xs = (map fst xs, 0)"
  by (induction xs) auto

lemma run_checked_bad: "snd (run_checked bad xs) \<noteq> 0 \<Longrightarrow> bad (snd (run_checked bad xs))"
  by (induction xs) (auto split: if_splits)

subsection \<open>The interface\<close>

text \<open>
  A pointer to a device of a vendor's library: \<open>NULL\<close>, an open device, or one that was closed.
\<close>

datatype handle = Null_handle | Open_handle | Stale_handle

text \<open>A thread handle of the driver: never written, a running thread, or one that was joined.\<close>

datatype rx_thread = No_rx_thread | Rx_running | Rx_joined

text \<open>
  \<open>start_rx\<close> gets the results of the library as its environment; from a state of rest it is defined, and
  its code is 0 exactly when the device receives afterwards; otherwise the driver is in a state
  \<open>failed\<close>.  Stopping a receiving driver is defined and brings it to rest.
\<close>

locale receiver =
  fixes env_ok :: "'e \<Rightarrow> bool"
    and rest :: "'d \<Rightarrow> bool"
    and receiving :: "'d \<Rightarrow> bool"
    and failed :: "'d \<Rightarrow> bool"
    and start_rx :: "'e \<Rightarrow> u32 \<Rightarrow> 'd \<Rightarrow> (int \<times> 'd) option"
    and stop_rx :: "'d \<Rightarrow> 'd option"
  assumes start_law: "env_ok env \<Longrightarrow> rest d \<Longrightarrow> \<exists>code d'. start_rx env band d = Some (code, d') \<and>
      (if code = 0 then receiving d' else failed d')"
    and stop_law: "receiving d \<Longrightarrow> \<exists>d'. stop_rx d = Some d' \<and> rest d'"
begin

text \<open>A start that succeeds can be stopped, and the driver started again.\<close>

lemma good_session:
  assumes "env_ok env" "rest d" "start_rx env band d = Some (0, d1)"
  shows "\<exists>d2. stop_rx d1 = Some d2 \<and> rest d2"
  using start_law [OF assms(1,2), of band] assms(3) stop_law [of d1] by auto

end

text \<open>
  The server stops the device after every start, also after one that failed: the client whose start
  failed leaves, no client is running, and the shutdown thread calls \<open>sdr_device_stop\<close>.  A driver is
  restartable when that is defined, too.
\<close>

fun run_sessions :: "('e \<Rightarrow> u32 \<Rightarrow> 'd \<Rightarrow> (int \<times> 'd) option) \<Rightarrow> ('d \<Rightarrow> 'd option) \<Rightarrow> ('e \<times> u32) list \<Rightarrow> 'd
    \<Rightarrow> (int list \<times> 'd) option" where
  "run_sessions start stop [] d = Some ([], d)"
| "run_sessions start stop ((env, band) # others) d = do {
     (code, d1) \<leftarrow> start env band d;
     d2 \<leftarrow> stop d1;
     (codes, d3) \<leftarrow> run_sessions start stop others d2;
     Some (code # codes, d3) }"

locale restartable_receiver = receiver env_ok rest receiving failed start_rx stop_rx
  for env_ok :: "'e \<Rightarrow> bool" and rest receiving failed :: "'d \<Rightarrow> bool"
    and start_rx :: "'e \<Rightarrow> u32 \<Rightarrow> 'd \<Rightarrow> (int \<times> 'd) option" and stop_rx +
  assumes stop_failed: "failed d \<Longrightarrow> \<exists>d'. stop_rx d = Some d' \<and> rest d'"
begin

lemma sessions_rest:
  assumes "rest d" "\<forall>s \<in> set starts. env_ok (fst s)"
  shows "\<exists>codes d'. run_sessions start_rx stop_rx starts d = Some (codes, d') \<and> length codes = length starts \<and> rest d'"
  using assms
proof (induction starts arbitrary: d)
  case (Cons s starts)
  obtain env band where s: "s = (env, band)" by (cases s)
  with Cons.prems(2) have "env_ok env" by simp
  from start_law [OF this Cons.prems(1), of band] obtain code d1 where
    st: "start_rx env band d = Some (code, d1)" "if code = 0 then receiving d1 else failed d1" by blast
  have "\<exists>d2. stop_rx d1 = Some d2 \<and> rest d2"
    using st(2) stop_law [of d1] stop_failed [of d1] by (cases "code = 0") auto
  then obtain d2 where "stop_rx d1 = Some d2" "rest d2" by blast
  with Cons.IH [of d2] Cons.prems(2) st(1) s show ?case by auto
qed simp

end

end
