(* ===== verification/Rtlsdr_Device.thy ===== *)
theory Rtlsdr_Device
  imports Driver
begin

text \<open>
  The RTL-SDR driver, \<open>src/src/sdr/rtlsdr_device.c\<close>.  The library is a parameter: the code every call
  returns and the gains of the tuner.
\<close>

subsection \<open>State\<close>

datatype rtl_call = Rtl_open int | Rtl_set_sample_rate u32 | Rtl_set_tuner_gain_mode int | Rtl_set_freq_correction int
  | Rtl_find_gain int | Rtl_set_tuner_gain int | Rtl_set_bias_tee int | Rtl_reset_buffer | Rtl_set_center_freq u32

record rtl_lib =
  rl_code :: "rtl_call \<Rightarrow> int"
  rl_index_by_serial :: "string \<Rightarrow> int"
  rl_gain_count :: int
  rl_gains :: "int list"
  rl_gains_code :: int
  rl_gains_mem :: bool
  rl_thread_code :: int

record rtlsdr_device =
  rd_dev :: handle
  rd_thread :: rx_thread
  rd_running :: bool
  rd_output_len :: nat
  rd_config :: server_config

subsection \<open>The nearest gain\<close>

text \<open>The loop of \<open>find_nearest_gain\<close> from index \<open>i\<close>, \<open>k\<close> steps left.\<close>

fun nearest_loop :: "int \<Rightarrow> int list \<Rightarrow> nat \<Rightarrow> nat \<Rightarrow> int \<Rightarrow> int option" where
  "nearest_loop target_gain gains i 0 nearest = Some nearest"
| "nearest_loop target_gain gains i (Suc k) nearest = do {
     g \<leftarrow> nth_opt gains i;
     let err1 = \<bar>target_gain - nearest\<bar>;
     let err2 = \<bar>target_gain - g\<bar>;
     nearest_loop target_gain gains (i + 1) k (if err2 < err1 then g else nearest) }"

text \<open>\<open>gains\<close> is what the second call of \<open>rtlsdr_get_tuner_gains\<close> stored into the array.\<close>

definition find_nearest_gain :: "rtl_lib \<Rightarrow> int \<Rightarrow> (int \<times> int) option" where
  "find_nearest_gain lib target_gain =
     (if rl_gain_count lib \<le> 0 then Some (- 1, 0)
      else if \<not> rl_gains_mem lib then Some (- ENOMEM, 0)
      else if rl_gains_code lib \<le> 0 then Some (- 1, 0)
      else do {
        first \<leftarrow> nth_opt (rl_gains lib) 0;
        nearest \<leftarrow> nearest_loop target_gain (rl_gains lib) 0 (nat (rl_gain_count lib)) first;
        Some (0, nearest) })"

subsection \<open>Operations\<close>

definition rtlsdr_device_create :: "bool \<Rightarrow> bool \<Rightarrow> server_config \<Rightarrow> int \<times> rtlsdr_device option" where
  "rtlsdr_device_create mem_ok buf_ok server =
     (if \<not> mem_ok then (- ENOMEM, None)
      else if \<not> buf_ok then (- ENOMEM, None)
      else (0, Some \<lparr>rd_dev = Null_handle, rd_thread = No_rx_thread, rd_running = False,
        rd_output_len = unat (buffer_size server), rd_config = server\<rparr>))"

text \<open>
  The thread of the driver: \<open>reads\<close> are the results of \<open>rtlsdr_read_sync\<close>, a code and the bytes read;
  \<open>running\<close> is cleared after \<open>n\<close> rounds (\<open>None\<close> when it never is).  The result is what was handed on.
\<close>

fun rtlsdr_callback :: "(int \<times> u8 list) list \<Rightarrow> nat option \<Rightarrow> u8 list list" where
  "rtlsdr_callback reads (Some 0) = []"
| "rtlsdr_callback [] rounds = []"
| "rtlsdr_callback ((code, bytes) # reads) rounds =
     (if code \<noteq> 0 then [] else bytes # rtlsdr_callback reads (map_option (\<lambda>n. n - 1) rounds))"

definition rtl_device_index :: "rtl_lib \<Rightarrow> server_config \<Rightarrow> int" where
  "rtl_device_index lib server =
     (let by_serial = (case device_serial server of None \<Rightarrow> - 1 | Some (_, serial) \<Rightarrow> rl_index_by_serial lib serial)
      in if by_serial < 0 then device_index server else by_serial)"

text \<open>The checked calls of \<open>rtlsdr_device_start_rx\<close>.\<close>

definition rtl_start_calls :: "rtl_lib \<Rightarrow> server_config \<Rightarrow> u32 \<Rightarrow> (rtl_call \<times> int) list option" where
  "rtl_start_calls lib server band_freq = do {
     (gain_code, nearest) \<leftarrow> (if gain_mode server = 1 then find_nearest_gain lib (gain server) else Some (0, 0));
     let calls =
       [Rtl_open (rtl_device_index lib server), Rtl_set_sample_rate (band_sampling_rate server),
        Rtl_set_tuner_gain_mode (gain_mode server)] @
       (if ppm server \<noteq> 0 then [Rtl_set_freq_correction (ppm server)] else []) @
       (if gain_mode server = 1 then [Rtl_find_gain (gain server), Rtl_set_tuner_gain nearest] else []) @
       [Rtl_set_bias_tee (bias_t server), Rtl_reset_buffer, Rtl_set_center_freq band_freq];
     Some (map (\<lambda>c. (c, case c of Rtl_find_gain _ \<Rightarrow> gain_code | _ \<Rightarrow> rl_code lib c)) calls) }"

text \<open>On a failing call the device is closed and forgotten; a thread that cannot be created leaves it open.\<close>

definition rtlsdr_device_start_rx :: "rtl_lib \<Rightarrow> u32 \<Rightarrow> rtlsdr_device \<Rightarrow> (int \<times> rtlsdr_device) option" where
  "rtlsdr_device_start_rx lib band_freq device = do {
     calls \<leftarrow> rtl_start_calls lib (rd_config device) band_freq;
     let code = snd (run_checked nonzero calls);
     Some (if code \<noteq> 0 then (code, device\<lparr>rd_dev := Null_handle\<rparr>)
           else if rl_thread_code lib \<noteq> 0 then (4, device\<lparr>rd_dev := Open_handle\<rparr>)
           else (0, device\<lparr>rd_dev := Open_handle, rd_thread := Rx_running, rd_running := True\<rparr>)) }"

text \<open>\<open>pthread_join\<close> on a handle that names no running thread is undefined; \<open>NULL\<close> is no plugin.\<close>

definition rtlsdr_device_stop_rx :: "rtlsdr_device option \<Rightarrow> rtlsdr_device option option" where
  "rtlsdr_device_stop_rx plugin =
     (case plugin of None \<Rightarrow> Some None
      | Some device \<Rightarrow>
          if rd_thread device = Rx_running
          then Some (Some (device\<lparr>rd_running := False, rd_dev := Null_handle, rd_thread := Rx_joined\<rparr>))
          else None)"

subsection \<open>Lemmas\<close>

lemma nearest_loop_best:
  assumes "i + k = length gains" "best \<in> set gains" "\<forall>j < i. \<bar>t - best\<bar> \<le> \<bar>t - gains ! j\<bar>"
  shows "\<exists>n. nearest_loop t gains i k best = Some n \<and> n \<in> set gains \<and> (\<forall>g \<in> set gains. \<bar>t - n\<bar> \<le> \<bar>t - g\<bar>)"
  using assms
proof (induction k arbitrary: i best)
  case 0
  then show ?case by (auto simp: in_set_conv_nth)
next
  case (Suc k)
  let ?g = "gains ! i"
  let ?b = "if \<bar>t - ?g\<bar> < \<bar>t - best\<bar> then ?g else best"
  have i: "i < length gains" using Suc.prems(1) by simp
  have "\<forall>j < Suc i. \<bar>t - ?b\<bar> \<le> \<bar>t - gains ! j\<bar>"
    using Suc.prems(3) by (auto simp: less_Suc_eq)
  moreover have "?b \<in> set gains" using i Suc.prems(2) by simp
  ultimately obtain n where "nearest_loop t gains (Suc i) k ?b = Some n" "n \<in> set gains"
    "\<forall>g \<in> set gains. \<bar>t - n\<bar> \<le> \<bar>t - g\<bar>"
    using Suc.IH [of "Suc i" ?b] Suc.prems(1) by auto
  then show ?case using i by (simp add: nth_opt_def Let_def)
qed

definition sound_lib :: "rtl_lib \<Rightarrow> bool" where
  "sound_lib lib \<longleftrightarrow> 0 < rl_gain_count lib \<longrightarrow> int (length (rl_gains lib)) = rl_gain_count lib"

lemma find_nearest_gain_defined:
  assumes "sound_lib lib"
  shows "\<exists>r. find_nearest_gain lib t = Some r"
proof (cases "0 < rl_gain_count lib")
  case True
  with assms have len: "0 + nat (rl_gain_count lib) = length (rl_gains lib)" by (auto simp: sound_lib_def)
  with True have ne: "rl_gains lib \<noteq> []" by auto
  with nearest_loop_best [OF len, of "rl_gains lib ! 0" t] show ?thesis
    by (auto simp: find_nearest_gain_def nth_opt_def)
qed (simp add: find_nearest_gain_def)

lemma rtl_start_calls_defined: "sound_lib lib \<Longrightarrow> \<exists>calls. rtl_start_calls lib server band = Some calls"
  using find_nearest_gain_defined [of lib "gain server"] by (auto simp: rtl_start_calls_def Let_def)

subsection \<open>The driver as a receiver\<close>

text \<open>A plugin pointer that is not \<open>NULL\<close>.\<close>

definition rtl_stop :: "rtlsdr_device \<Rightarrow> rtlsdr_device option" where
  "rtl_stop d = Option.bind (rtlsdr_device_stop_rx (Some d)) (\<lambda>d'. d')"

definition rtl_rest :: "rtlsdr_device \<Rightarrow> bool" where
  "rtl_rest d \<longleftrightarrow> rd_thread d \<noteq> Rx_running"

definition rtl_receiving :: "rtlsdr_device \<Rightarrow> bool" where
  "rtl_receiving d \<longleftrightarrow> rd_thread d = Rx_running \<and> rd_dev d = Open_handle"

interpretation rtl: receiver sound_lib rtl_rest rtl_receiving rtl_rest rtlsdr_device_start_rx rtl_stop
proof unfold_locales
  fix lib band d
  assume lib: "sound_lib lib" and d: "rtl_rest d"
  obtain calls where "rtl_start_calls lib (rd_config d) band = Some calls"
    using rtl_start_calls_defined [OF lib] by blast
  with d show "\<exists>code d'. rtlsdr_device_start_rx lib band d = Some (code, d') \<and>
      (if code = 0 then rtl_receiving d' else rtl_rest d')"
    by (auto simp: rtlsdr_device_start_rx_def Let_def rtl_rest_def rtl_receiving_def)
qed (auto simp: rtl_stop_def rtlsdr_device_stop_rx_def rtl_receiving_def rtl_rest_def)

subsection \<open>Properties\<close>

text \<open>The gain is the nearest one.  With a tuner that reports its gains, \<open>find_nearest_gain\<close> reads
  only the gains reported and returns one of them, and no other is closer to the gain asked for.\<close>

theorem nearest_gain_is_nearest:
  assumes "sound_lib lib" "0 < rl_gain_count lib" "rl_gains_mem lib" "0 < rl_gains_code lib"
  shows "\<exists>n. find_nearest_gain lib t = Some (0, n) \<and> n \<in> set (rl_gains lib) \<and>
    (\<forall>g \<in> set (rl_gains lib). \<bar>t - n\<bar> \<le> \<bar>t - g\<bar>)"
proof -
  have len: "0 + nat (rl_gain_count lib) = length (rl_gains lib)" using assms(1,2) by (auto simp: sound_lib_def)
  with assms(2) have ne: "rl_gains lib \<noteq> []" by auto
  with nearest_loop_best [OF len, of "rl_gains lib ! 0" t] assms show ?thesis
    by (auto simp: find_nearest_gain_def nth_opt_def)
qed

definition demo_rtl :: rtl_lib where
  "demo_rtl = \<lparr>rl_code = \<lambda>_. 0, rl_index_by_serial = \<lambda>_. 0, rl_gain_count = 4, rl_gains = [0, 90, 140, 496],
     rl_gains_code = 4, rl_gains_mem = True, rl_thread_code = 0\<rparr>"

theorem nearest_gain_is_nearest_witness:
  "\<exists>n. find_nearest_gain demo_rtl 120 = Some (0, n) \<and> (\<forall>g \<in> {0, 90, 140, 496}. \<bar>120 - n\<bar> \<le> \<bar>120 - g\<bar>)"
  using nearest_gain_is_nearest [of demo_rtl 120] by (auto simp: demo_rtl_def sound_lib_def)

text \<open>A failed start of an RTL device is fatal.  After a start that returns an error the driver's
  thread does not exist, or is one that was joined before, and stopping the driver, which the server
  does next, joins it: the behaviour is undefined.  After a start that returns 0 stopping is defined.\<close>

theorem rtl_failed_start_breaks_stop:
  assumes "sound_lib lib" "rtl_rest d"
  shows "\<exists>code d'. rtlsdr_device_start_rx lib band d = Some (code, d') \<and>
    (rtlsdr_device_stop_rx (Some d') = None \<longleftrightarrow> code \<noteq> 0) \<and>
    (code = 0 \<longrightarrow> (\<exists>d''. rtlsdr_device_stop_rx (Some d') = Some (Some d'') \<and> rtl_rest d'' \<and> rd_dev d'' = Null_handle))"
proof -
  from rtl.start_law [OF assms, of band] obtain code d' where
    s: "rtlsdr_device_start_rx lib band d = Some (code, d')" "if code = 0 then rtl_receiving d' else rtl_rest d'" by blast
  then show ?thesis
    by (cases "code = 0") (auto simp: rtlsdr_device_stop_rx_def rtl_receiving_def rtl_rest_def)
qed

theorem rtl_failed_start_breaks_stop_witness:
  "\<exists>d d'. rtlsdr_device_create True True zero_config = (0, Some d) \<and>
    rtlsdr_device_start_rx (demo_rtl\<lparr>rl_code := \<lambda>c. case c of Rtl_open i \<Rightarrow> - 3 | _ \<Rightarrow> 0\<rparr>) 100000000 d = Some (- 3, d') \<and>
    rtlsdr_device_stop_rx (Some d') = None"
proof -
  let ?lib = "demo_rtl\<lparr>rl_code := \<lambda>c. case c of Rtl_open i \<Rightarrow> - 3 | _ \<Rightarrow> 0\<rparr>"
  obtain d where d: "rtlsdr_device_create True True zero_config = (0, Some d)" "rtl_rest d" "rd_config d = zero_config"
    by (simp add: rtlsdr_device_create_def rtl_rest_def)
  have lib: "sound_lib ?lib" by (simp add: demo_rtl_def sound_lib_def)
  have "\<exists>d'. rtlsdr_device_start_rx ?lib 100000000 d = Some (- 3, d')"
    by (simp add: rtlsdr_device_start_rx_def rtl_start_calls_def d(3) zero_config_def Let_def)
  with rtl_failed_start_breaks_stop [OF lib d(2), of 100000000] d(1) show ?thesis by auto
qed

end
