(* ===== verification/Airspy_Device.thy ===== *)
theory Airspy_Device
  imports Driver
begin

text \<open>
  The AirSpy driver, \<open>src/src/sdr/airspy_device.c\<close>.  The codes of the library are a parameter, and
  whether a failing \<open>airspy_open\<close> clears the pointer it is given.
\<close>

subsection \<open>State\<close>

datatype airspy_call = As_open | As_set_sample_type | As_set_samplerate u32 | As_set_packing | As_set_rf_bias int
  | As_set_sensitivity_gain int | As_set_linearity_gain int | As_set_lna_agc | As_set_mixer_agc
  | As_set_vga_gain int | As_set_mixer_gain int | As_set_lna_gain int | As_set_freq u32 | As_start_rx

record airspy_lib =
  al_code :: "airspy_call \<Rightarrow> int"
  al_open_clears :: bool

record airspy_device =
  ad_dev :: handle
  ad_freed :: bool
  ad_config :: server_config

subsection \<open>Operations\<close>

definition airspy_device_create :: "bool \<Rightarrow> server_config \<Rightarrow> int \<times> airspy_device option" where
  "airspy_device_create mem_ok server =
     (if \<not> mem_ok then (- ENOMEM, None)
      else (0, Some \<lparr>ad_dev = Null_handle, ad_freed = False, ad_config = server\<rparr>))"

definition airspy_device_destroy :: "airspy_device \<Rightarrow> airspy_device option" where
  "airspy_device_destroy d = (if ad_freed d then None else Some (d\<lparr>ad_freed := True\<rparr>))"

text \<open>The samples of a transfer are pairs of 16-bit values: the length handed on, in bytes.\<close>

definition airspy_device_callback :: "nat \<Rightarrow> nat" where
  "airspy_device_callback sample_count = sample_count * 2 * 2"

definition airspy_common_calls :: "server_config \<Rightarrow> airspy_call list" where
  "airspy_common_calls server =
     [As_set_sample_type, As_set_samplerate (band_sampling_rate server), As_set_packing, As_set_rf_bias (bias_t server)]"

text \<open>The switch over the gain mode; \<open>None\<close> is its default case.\<close>

definition airspy_gain_calls :: "server_config \<Rightarrow> airspy_call list option" where
  "airspy_gain_calls server =
     (if airspy_gain_mode server = AIRSPY_GAIN_SENSITIVITY
      then Some [As_set_sensitivity_gain (airspy_sensitivity_gain server)]
      else if airspy_gain_mode server = AIRSPY_GAIN_LINEARITY
      then Some [As_set_linearity_gain (airspy_linearity_gain server)]
      else if airspy_gain_mode server = AIRSPY_GAIN_AUTO then Some [As_set_lna_agc, As_set_mixer_agc]
      else if airspy_gain_mode server = AIRSPY_GAIN_MANUAL
      then Some [As_set_vga_gain (airspy_vga_gain server), As_set_mixer_gain (airspy_mixer_gain server),
        As_set_lna_gain (airspy_lna_gain server)]
      else None)"

text \<open>The failing branch of \<open>ERROR_CHECK\<close>: closing a handle that was closed before is undefined.\<close>

definition airspy_error :: "int \<Rightarrow> airspy_device \<Rightarrow> (int \<times> airspy_device) option" where
  "airspy_error code d =
     (case ad_dev d of
        Stale_handle \<Rightarrow> None
      | _ \<Rightarrow> Some (code, d\<lparr>ad_dev := Null_handle\<rparr>))"

definition airspy_device_start_rx :: "airspy_lib \<Rightarrow> u32 \<Rightarrow> airspy_device \<Rightarrow> (int \<times> airspy_device) option" where
  "airspy_device_start_rx lib band_freq device =
     (let server = ad_config device; checked = (\<lambda>steps. snd (run_checked nonzero (map (\<lambda>c. (c, al_code lib c)) steps))) in
      if ad_freed device then None
      else if al_code lib As_open \<noteq> 0
      then airspy_error (al_code lib As_open) (if al_open_clears lib then device\<lparr>ad_dev := Null_handle\<rparr> else device)
      else
        let d = device\<lparr>ad_dev := Open_handle\<rparr>; common = checked (airspy_common_calls server) in
        if common \<noteq> 0 then airspy_error common d
        else case airspy_gain_calls server of
          None \<Rightarrow> map_option (\<lambda>d'. (1, d')) (airspy_device_destroy d)
        | Some steps \<Rightarrow>
            let gains = checked steps in
            if gains \<noteq> 0 then airspy_error gains d
            else if al_code lib (As_set_freq band_freq) \<noteq> 0 then airspy_error (al_code lib (As_set_freq band_freq)) d
            else Some (al_code lib As_start_rx, d))"

definition airspy_device_stop_rx :: "airspy_device option \<Rightarrow> airspy_device option" where
  "airspy_device_stop_rx plugin = do {
     device \<leftarrow> plugin;
     if ad_freed device then None
     else case ad_dev device of
       Null_handle \<Rightarrow> Some device
     | Open_handle \<Rightarrow> Some (device\<lparr>ad_dev := Stale_handle\<rparr>)
     | Stale_handle \<Rightarrow> None }"

subsection \<open>The driver as a receiver\<close>

definition valid_gain_mode :: "server_config \<Rightarrow> bool" where
  "valid_gain_mode server \<longleftrightarrow> airspy_gain_mode server \<in> {0, 1, 2, 3}"

definition airspy_clears :: "airspy_lib \<Rightarrow> bool" where
  "airspy_clears lib \<longleftrightarrow> al_open_clears lib"

definition airspy_stop :: "airspy_device \<Rightarrow> airspy_device option" where
  "airspy_stop d = airspy_device_stop_rx (Some d)"

definition airspy_rest :: "airspy_device \<Rightarrow> bool" where
  "airspy_rest d \<longleftrightarrow> valid_gain_mode (ad_config d) \<and> \<not> ad_freed d \<and> ad_dev d \<noteq> Open_handle"

definition airspy_receiving :: "airspy_device \<Rightarrow> bool" where
  "airspy_receiving d \<longleftrightarrow> valid_gain_mode (ad_config d) \<and> \<not> ad_freed d \<and> ad_dev d = Open_handle"

definition airspy_failed :: "airspy_device \<Rightarrow> bool" where
  "airspy_failed d \<longleftrightarrow> valid_gain_mode (ad_config d) \<and> \<not> ad_freed d \<and> ad_dev d \<noteq> Stale_handle"

lemma airspy_gain_calls_defined: "valid_gain_mode server \<Longrightarrow> airspy_gain_calls server \<noteq> None"
  by (auto simp: valid_gain_mode_def airspy_gain_calls_def config_consts)

lemma airspy_error_open:
  "ad_dev d \<noteq> Stale_handle \<Longrightarrow> airspy_error code d = Some (code, d\<lparr>ad_dev := Null_handle\<rparr>)"
  by (cases "ad_dev d") (auto simp: airspy_error_def)

interpretation airspy: restartable_receiver airspy_clears airspy_rest airspy_receiving airspy_failed
  airspy_device_start_rx airspy_stop
proof unfold_locales
  fix lib band d
  assume lib: "airspy_clears lib" and d: "airspy_rest d"
  have mode: "airspy_gain_calls (ad_config d) \<noteq> None"
    using d by (simp add: airspy_rest_def airspy_gain_calls_defined)
  let ?r = "airspy_device_start_rx lib band d"
  have "?r \<noteq> None"
    using lib d mode by (auto simp: airspy_device_start_rx_def Let_def airspy_error_open airspy_rest_def airspy_clears_def)
  then obtain code d' where r: "?r = Some (code, d')" by auto
  have "if code = 0 then airspy_receiving d' else airspy_failed d'"
    using r lib d mode by (auto simp: airspy_device_start_rx_def Let_def airspy_error_open airspy_rest_def
        airspy_receiving_def airspy_failed_def airspy_clears_def split: if_splits)
  with r show "\<exists>code d'. airspy_device_start_rx lib band d = Some (code, d') \<and>
      (if code = 0 then airspy_receiving d' else airspy_failed d')" by blast
next
  fix d
  show "\<exists>d'. airspy_stop d = Some d' \<and> airspy_rest d'" if "airspy_receiving d"
    using that by (simp add: airspy_stop_def airspy_device_stop_rx_def airspy_receiving_def airspy_rest_def)
  show "\<exists>d'. airspy_stop d = Some d' \<and> airspy_rest d'" if "airspy_failed d"
    using that by (cases "ad_dev d") (auto simp: airspy_stop_def airspy_device_stop_rx_def airspy_failed_def airspy_rest_def)
qed

end
