(* ===== verification/Hackrf_Device.thy ===== *)
theory Hackrf_Device
  imports Driver
begin

text \<open>The HackRF driver, \<open>src/src/sdr/hackrf_device.c\<close>; the codes of the library are a parameter.\<close>

subsection \<open>State\<close>

datatype hackrf_call = Hr_open_by_serial string | Hr_open | Hr_version_string_read | Hr_usb_api_version_read
  | Hr_set_freq u32 | Hr_set_sample_rate u32 | Hr_set_baseband_filter_bandwidth u32 | Hr_set_amp_enable u8
  | Hr_set_lna_gain u32 | Hr_set_vga_gain u32 | Hr_set_antenna_enable u8 | Hr_start_rx

record hackrf_wrapper =
  hw_dev :: handle
  hw_config :: server_config

subsection \<open>Operations\<close>

text \<open>The result tells also whether the library stays initialised.\<close>

definition hackrf_device_create :: "int \<Rightarrow> bool \<Rightarrow> server_config \<Rightarrow> (int \<times> hackrf_wrapper option) \<times> bool" where
  "hackrf_device_create init_code mem_ok server =
     (if init_code \<noteq> 0 then ((init_code, None), False)
      else if \<not> mem_ok then ((- ENOMEM, None), True)
      else ((0, Some \<lparr>hw_dev = Null_handle, hw_config = server\<rparr>), True))"

text \<open>Destroying leaves the library and frees the wrapper.\<close>

definition hackrf_device_destroy :: "hackrf_wrapper option \<Rightarrow> bool \<Rightarrow> bool" where
  "hackrf_device_destroy plugin initialised = (case plugin of None \<Rightarrow> initialised | Some d \<Rightarrow> False)"

text \<open>A transfer: its buffer and the length; the result is what is handed on, and the code 0.\<close>

definition hackrf_callback :: "u8 list \<Rightarrow> nat \<Rightarrow> u8 list \<times> int" where
  "hackrf_callback transfer_buffer buffer_length = (take buffer_length transfer_buffer, 0)"

definition hackrf_start_calls :: "server_config \<Rightarrow> u32 \<Rightarrow> hackrf_call list" where
  "hackrf_start_calls server band_freq =
     (case device_serial server of Some (_, serial) \<Rightarrow> [Hr_open_by_serial serial] | None \<Rightarrow> [Hr_open]) @
     [Hr_version_string_read, Hr_usb_api_version_read, Hr_set_freq band_freq,
      Hr_set_sample_rate (band_sampling_rate server), Hr_set_baseband_filter_bandwidth (band_sampling_rate server),
      Hr_set_amp_enable (word_of_int (hackrf_amp server)), Hr_set_lna_gain (word_of_int (hackrf_lna_gain server)),
      Hr_set_vga_gain (word_of_int (hackrf_vga_gain server)), Hr_set_antenna_enable (hackrf_bias_t server), Hr_start_rx]"

definition hackrf_device_stop_rx :: "hackrf_wrapper option \<Rightarrow> hackrf_wrapper option" where
  "hackrf_device_stop_rx plugin = do {
     wrapper \<leftarrow> plugin;
     (case hw_dev wrapper of
        Null_handle \<Rightarrow> Some wrapper
      | Open_handle \<Rightarrow> Some (wrapper\<lparr>hw_dev := Null_handle\<rparr>)
      | Stale_handle \<Rightarrow> None) }"

text \<open>\<open>ERROR_CHECK\<close> stops the driver; when opening fails the pointer is as it was.\<close>

definition hackrf_device_start_rx :: "(hackrf_call \<Rightarrow> int) \<Rightarrow> u32 \<Rightarrow> hackrf_wrapper \<Rightarrow> (int \<times> hackrf_wrapper) option" where
  "hackrf_device_start_rx lib band_freq wrapper =
     (let (steps, code) = run_checked nonzero (map (\<lambda>c. (c, lib c)) (hackrf_start_calls (hw_config wrapper) band_freq))
      in if code = 0 then Some (0, wrapper\<lparr>hw_dev := Open_handle\<rparr>)
         else map_option (Pair code)
           (hackrf_device_stop_rx (Some (if length steps = 1 then wrapper else wrapper\<lparr>hw_dev := Open_handle\<rparr>))))"

subsection \<open>The driver as a receiver\<close>

definition hackrf_stop :: "hackrf_wrapper \<Rightarrow> hackrf_wrapper option" where
  "hackrf_stop d = hackrf_device_stop_rx (Some d)"

definition hackrf_rest :: "hackrf_wrapper \<Rightarrow> bool" where
  "hackrf_rest d \<longleftrightarrow> hw_dev d = Null_handle"

definition hackrf_receiving :: "hackrf_wrapper \<Rightarrow> bool" where
  "hackrf_receiving d \<longleftrightarrow> hw_dev d = Open_handle"

interpretation hackrf: restartable_receiver "\<lambda>_. True" hackrf_rest hackrf_receiving hackrf_rest
  hackrf_device_start_rx hackrf_stop
  by unfold_locales (auto simp: hackrf_device_start_rx_def hackrf_stop_def hackrf_device_stop_rx_def hackrf_rest_def
      hackrf_receiving_def Let_def split: prod.splits)

end
