(* ===== verification/Msisdr_Device.thy ===== *)
theory Msisdr_Device
  imports Driver
begin

text \<open>
  The MSi SDR driver, \<open>src/src/sdr/msisdr_device.c\<close>.  The codes of the library are a parameter; of
  its asynchronous reader the driver relies on one flag, set when \<open>msisdr_read_async\<close> has started and
  tested by \<open>msisdr_cancel_async\<close>, which does nothing before.
\<close>

subsection \<open>State\<close>

datatype msisdr_call = Ms_open u32 | Ms_set_hw_flavour | Ms_rsp1a_gpio_init | Ms_set_sample_format | Ms_set_if_freq u32
  | Ms_set_bandwidth u32 | Ms_set_sample_rate u32 | Ms_set_center_freq u32 | Ms_set_tuner_gain_mode int
  | Ms_set_tuner_gain int | Ms_reset_buffer

record msisdr_lib =
  ml_code :: "msisdr_call \<Rightarrow> int"
  ml_thread_code :: int

record msisdr_device =
  md_dev :: handle
  md_thread :: rx_thread
  md_async :: bool
  md_running :: bool
  md_config :: server_config

subsection \<open>Operations\<close>

definition msisdr_device_create :: "bool \<Rightarrow> server_config \<Rightarrow> int \<times> msisdr_device option" where
  "msisdr_device_create mem_ok server =
     (if \<not> mem_ok then (- ENOMEM, None)
      else (0, Some \<lparr>md_dev = Null_handle, md_thread = No_rx_thread, md_async = False, md_running = False,
        md_config = server\<rparr>))"

definition msisdr_async_callback :: "u8 list \<Rightarrow> msisdr_device \<Rightarrow> u8 list list" where
  "msisdr_async_callback buf device = (if md_running device then [buf] else [])"

text \<open>The thread enters \<open>msisdr_read_async\<close>.\<close>

definition msisdr_rx_thread_fn :: "msisdr_device \<Rightarrow> msisdr_device" where
  "msisdr_rx_thread_fn device = (if md_thread device = Rx_running then device\<lparr>md_async := True\<rparr> else device)"

text \<open>The code of \<open>msisdr_rsp1a_gpio_init\<close> is ignored.\<close>

definition msisdr_start_calls :: "server_config \<Rightarrow> u32 \<Rightarrow> msisdr_call list" where
  "msisdr_start_calls cfg band_freq =
     [Ms_open (word_of_int (device_index cfg)), Ms_set_hw_flavour] @
     (if msisdr_hw_flavour cfg = 1 then [Ms_rsp1a_gpio_init] else []) @
     [Ms_set_sample_format, Ms_set_if_freq (word_of_int (if msisdr_if_freq cfg < 0 then 0 else msisdr_if_freq cfg)),
      Ms_set_bandwidth (if 0 < msisdr_bandwidth cfg then msisdr_bandwidth cfg else 8000000),
      Ms_set_sample_rate (band_sampling_rate cfg), Ms_set_center_freq band_freq,
      Ms_set_tuner_gain_mode (msisdr_gain_mode cfg)] @
     (if msisdr_gain_mode cfg = 1 then [Ms_set_tuner_gain (msisdr_gain cfg)] else []) @ [Ms_reset_buffer]"

definition msisdr_device_start_rx :: "msisdr_lib \<Rightarrow> u32 \<Rightarrow> msisdr_device \<Rightarrow> (int \<times> msisdr_device) option" where
  "msisdr_device_start_rx lib band_freq device =
     (let code = snd (run_checked negative (map (\<lambda>c. (c, if c = Ms_rsp1a_gpio_init then 0 else ml_code lib c))
            (msisdr_start_calls (md_config device) band_freq)))
      in if code < 0 then Some (code, device\<lparr>md_dev := Null_handle\<rparr>)
         else if ml_thread_code lib \<noteq> 0
         then Some (- ml_thread_code lib, device\<lparr>md_dev := Null_handle, md_running := False\<rparr>)
         else Some (0, device\<lparr>md_dev := Open_handle, md_running := True, md_thread := Rx_running, md_async := False\<rparr>))"

text \<open>Joining a reader that was not cancelled never returns, which is \<open>None\<close> here.\<close>

definition msisdr_device_stop_rx :: "msisdr_device option \<Rightarrow> msisdr_device option" where
  "msisdr_device_stop_rx plugin = do {
     device \<leftarrow> plugin;
     if md_dev device = Null_handle then Some device
     else if md_thread device = Rx_running \<and> md_async device
     then Some (device\<lparr>md_running := False, md_async := False, md_thread := Rx_joined, md_dev := Null_handle\<rparr>)
     else None }"

subsection \<open>The driver as a receiver\<close>

text \<open>A start whose thread has reached the reader before anything else happens.\<close>

definition msisdr_settled_start :: "msisdr_lib \<Rightarrow> u32 \<Rightarrow> msisdr_device \<Rightarrow> (int \<times> msisdr_device) option" where
  "msisdr_settled_start lib band_freq device =
     map_option (apsnd msisdr_rx_thread_fn) (msisdr_device_start_rx lib band_freq device)"

definition msisdr_stop :: "msisdr_device \<Rightarrow> msisdr_device option" where
  "msisdr_stop d = msisdr_device_stop_rx (Some d)"

definition msisdr_rest :: "msisdr_device \<Rightarrow> bool" where
  "msisdr_rest d \<longleftrightarrow> md_dev d = Null_handle \<and> md_thread d \<noteq> Rx_running"

definition msisdr_receiving :: "msisdr_device \<Rightarrow> bool" where
  "msisdr_receiving d \<longleftrightarrow> md_dev d = Open_handle \<and> md_thread d = Rx_running \<and> md_async d \<and> md_running d"

interpretation msisdr: restartable_receiver "\<lambda>_. True" msisdr_rest msisdr_receiving msisdr_rest
  msisdr_settled_start msisdr_stop
  by unfold_locales (auto simp: msisdr_settled_start_def msisdr_device_start_rx_def msisdr_stop_def
      msisdr_device_stop_rx_def msisdr_rx_thread_fn_def msisdr_rest_def msisdr_receiving_def Let_def)

subsection \<open>A stop that comes too early\<close>

text \<open>A stop before the reader has started hangs.  When the driver is stopped between the creation
  of its thread and the start of \<open>msisdr_read_async\<close>, the cancellation is lost and joining the thread
  does not return; once the thread has reached the reader the stop returns and the device is closed.\<close>

theorem msisdr_early_stop_hangs:
  assumes "msisdr_rest d" "msisdr_device_start_rx lib band d = Some (0, d1)"
  shows "msisdr_device_stop_rx (Some d1) = None \<and>
    (\<exists>d2. msisdr_device_stop_rx (Some (msisdr_rx_thread_fn d1)) = Some d2 \<and> msisdr_rest d2 \<and> \<not> md_running d2)"
  using assms by (auto simp: msisdr_device_start_rx_def msisdr_device_stop_rx_def msisdr_rx_thread_fn_def
      msisdr_rest_def Let_def split: if_splits)

theorem msisdr_early_stop_hangs_witness:
  "\<exists>d d1. msisdr_device_create True zero_config = (0, Some d) \<and>
    msisdr_device_start_rx \<lparr>ml_code = \<lambda>_. 0, ml_thread_code = 0\<rparr> 100000000 d = Some (0, d1) \<and>
    msisdr_device_stop_rx (Some d1) = None"
proof -
  obtain d where d: "msisdr_device_create True zero_config = (0, Some d)" "msisdr_rest d" "md_config d = zero_config"
    by (simp add: msisdr_device_create_def msisdr_rest_def)
  obtain d1 where "msisdr_device_start_rx \<lparr>ml_code = \<lambda>_. 0, ml_thread_code = 0\<rparr> 100000000 d = Some (0, d1)"
    by (simp add: msisdr_device_start_rx_def msisdr_start_calls_def zero_config_def d(3))
  with msisdr_early_stop_hangs [OF d(2) this] d(1) show ?thesis by blast
qed

end
