(* ===== verification/Sdr_Device.thy ===== *)
theory Sdr_Device
  imports Rtlsdr_Device Airspy_Device Hackrf_Device Msisdr_Device Request
begin

text \<open>
  The switch over the devices, \<open>src/src/sdr_device.c\<close>: loading the vendor's library, creating the
  plugin at the first start, starting, stopping and destroying it.
\<close>

subsection \<open>State\<close>

datatype plugin = Rtl_plugin rtlsdr_device | Airspy_plugin airspy_device | Hackrf_plugin hackrf_wrapper
  | Msisdr_plugin msisdr_device

text \<open>\<open>sd_functions\<close> is the type whose functions \<open>sdr_device_create\<close> stored, \<open>sd_library\<close> the library loaded.\<close>

record sdr_device =
  sd_config :: server_config
  sd_functions :: int
  sd_library :: "int option"
  sd_plugin :: "plugin option"

text \<open>What the environment decides about a start: the memory and codes of \<open>create\<close>, and the libraries.\<close>

record device_env =
  de_mem :: bool
  de_buffer_mem :: bool
  de_hackrf_init :: int
  de_rtl :: rtl_lib
  de_airspy :: airspy_lib
  de_hackrf :: "hackrf_call \<Rightarrow> int"
  de_msisdr :: msisdr_lib

subsection \<open>Operations\<close>

definition known_types :: "int set" where
  "known_types = {SDR_TYPE_RTL, SDR_TYPE_AIRSPY, SDR_TYPE_HACKRF, SDR_TYPE_MSI}"

definition sdr_device_create :: "bool \<Rightarrow> int \<Rightarrow> server_config \<Rightarrow> int \<times> sdr_device option" where
  "sdr_device_create mem_ok lib_code server =
     (if \<not> mem_ok then (- ENOMEM, None)
      else if sdr_type server \<notin> known_types then (- 1, None)
      else if lib_code \<noteq> 0 then (lib_code, None)
      else (0, Some \<lparr>sd_config = server, sd_functions = sdr_type server, sd_library = Some (sdr_type server),
        sd_plugin = None\<rparr>))"

definition create_plugin :: "device_env \<Rightarrow> int \<Rightarrow> server_config \<Rightarrow> int \<times> plugin option" where
  "create_plugin env type server =
     (if type = SDR_TYPE_RTL
      then apsnd (map_option Rtl_plugin) (rtlsdr_device_create (de_mem env) (de_buffer_mem env) server)
      else if type = SDR_TYPE_AIRSPY then apsnd (map_option Airspy_plugin) (airspy_device_create (de_mem env) server)
      else if type = SDR_TYPE_HACKRF
      then apsnd (map_option Hackrf_plugin) (fst (hackrf_device_create (de_hackrf_init env) (de_mem env) server))
      else if type = SDR_TYPE_MSI then apsnd (map_option Msisdr_plugin) (msisdr_device_create (de_mem env) server)
      else (- 1, None))"

text \<open>The function pointers \<open>start_rx\<close> and \<open>stop_rx\<close>; a \<open>NULL\<close> plugin is dereferenced by all drivers but RTL.\<close>

fun plugin_start_rx :: "device_env \<Rightarrow> u32 \<Rightarrow> plugin \<Rightarrow> (int \<times> plugin) option" where
  "plugin_start_rx env band (Rtl_plugin d) = map_option (apsnd Rtl_plugin) (rtlsdr_device_start_rx (de_rtl env) band d)"
| "plugin_start_rx env band (Airspy_plugin d) = map_option (apsnd Airspy_plugin) (airspy_device_start_rx (de_airspy env) band d)"
| "plugin_start_rx env band (Hackrf_plugin d) = map_option (apsnd Hackrf_plugin) (hackrf_device_start_rx (de_hackrf env) band d)"
| "plugin_start_rx env band (Msisdr_plugin d) = map_option (apsnd Msisdr_plugin) (msisdr_settled_start (de_msisdr env) band d)"

fun plugin_stop_rx :: "plugin \<Rightarrow> plugin option" where
  "plugin_stop_rx (Rtl_plugin d) = map_option Rtl_plugin (rtl_stop d)"
| "plugin_stop_rx (Airspy_plugin d) = map_option Airspy_plugin (airspy_stop d)"
| "plugin_stop_rx (Hackrf_plugin d) = map_option Hackrf_plugin (hackrf_stop d)"
| "plugin_stop_rx (Msisdr_plugin d) = map_option Msisdr_plugin (msisdr_stop d)"

definition sdr_device_start :: "device_env \<Rightarrow> client_config \<Rightarrow> sdr_device \<Rightarrow> (int \<times> sdr_device) option" where
  "sdr_device_start env config device =
     (let (code, plugin) = (case sd_plugin device of
            Some p \<Rightarrow> (0, Some p)
          | None \<Rightarrow> create_plugin env (cc_sdr_type config) (sd_config device))
      in if code \<noteq> 0 then Some (4, device)
         else do {
           p \<leftarrow> plugin;
           (code, p') \<leftarrow> plugin_start_rx env (band_freq config) p;
           Some (if code \<noteq> 0 then 4 else 0, device\<lparr>sd_plugin := Some p'\<rparr>) })"

definition sdr_device_stop :: "sdr_device \<Rightarrow> sdr_device option" where
  "sdr_device_stop device =
     (case sd_plugin device of
        None \<Rightarrow> (if sd_functions device = SDR_TYPE_RTL then Some device else None)
      | Some p \<Rightarrow> map_option (\<lambda>p'. device\<lparr>sd_plugin := Some p'\<rparr>) (plugin_stop_rx p))"

text \<open>Destroying frees the plugin, then the library; a plugin that was freed before is freed twice.\<close>

definition sdr_device_destroy :: "sdr_device option \<Rightarrow> unit option" where
  "sdr_device_destroy device =
     (case device of None \<Rightarrow> Some ()
      | Some d \<Rightarrow> (case sd_plugin d of
            Some (Airspy_plugin p) \<Rightarrow> map_option (\<lambda>_. ()) (airspy_device_destroy p)
          | _ \<Rightarrow> Some ()))"

subsection \<open>The switch over restartable drivers\<close>

text \<open>
  The state of the whole device: no plugin yet, or a plugin of the device's type in the given state.
\<close>

fun plugin_in :: "(airspy_device \<Rightarrow> bool) \<Rightarrow> (hackrf_wrapper \<Rightarrow> bool) \<Rightarrow> (msisdr_device \<Rightarrow> bool) \<Rightarrow> plugin \<Rightarrow> bool" where
  "plugin_in A H M (Rtl_plugin d) \<longleftrightarrow> False"
| "plugin_in A H M (Airspy_plugin d) \<longleftrightarrow> A d"
| "plugin_in A H M (Hackrf_plugin d) \<longleftrightarrow> H d"
| "plugin_in A H M (Msisdr_plugin d) \<longleftrightarrow> M d"

definition plugin_rest :: "plugin \<Rightarrow> bool" where
  "plugin_rest = plugin_in airspy_rest hackrf_rest msisdr_rest"

definition plugin_receiving :: "plugin \<Rightarrow> bool" where
  "plugin_receiving = plugin_in airspy_receiving hackrf_receiving msisdr_receiving"

definition plugin_failed :: "plugin \<Rightarrow> bool" where
  "plugin_failed = plugin_in airspy_failed hackrf_rest msisdr_rest"

definition env_clears :: "device_env \<Rightarrow> bool" where
  "env_clears env \<longleftrightarrow> airspy_clears (de_airspy env)"

interpretation plugin: restartable_receiver env_clears plugin_rest plugin_receiving plugin_failed
  plugin_start_rx plugin_stop_rx
proof unfold_locales
  fix env band p
  assume env: "env_clears env" and p: "plugin_rest p"
  show "\<exists>code p'. plugin_start_rx env band p = Some (code, p') \<and> (if code = 0 then plugin_receiving p' else plugin_failed p')"
  proof (cases p)
    case (Airspy_plugin d)
    with airspy.start_law [of "de_airspy env" d band] env p show ?thesis
      by (force simp: plugin_rest_def plugin_receiving_def plugin_failed_def env_clears_def split: if_splits)
  next
    case (Hackrf_plugin d)
    with hackrf.start_law [of d "de_hackrf env" band] p show ?thesis
      by (force simp: plugin_rest_def plugin_receiving_def plugin_failed_def split: if_splits)
  next
    case (Msisdr_plugin d)
    with msisdr.start_law [of d "de_msisdr env" band] p show ?thesis
      by (force simp: plugin_rest_def plugin_receiving_def plugin_failed_def split: if_splits)
  qed (use p in \<open>simp add: plugin_rest_def\<close>)
next
  fix p
  assume p: "plugin_receiving p"
  show "\<exists>p'. plugin_stop_rx p = Some p' \<and> plugin_rest p'"
    using p airspy.stop_law hackrf.stop_law msisdr.stop_law
    by (cases p) (force simp: plugin_rest_def plugin_receiving_def)+
next
  fix p
  assume p: "plugin_failed p"
  show "\<exists>p'. plugin_stop_rx p = Some p' \<and> plugin_rest p'"
    using p airspy.stop_failed hackrf.stop_failed msisdr.stop_failed
    by (cases p) (force simp: plugin_rest_def plugin_failed_def)+
qed

end
