(* ===== verification/Sdr_Device_Properties.thy ===== *)
theory Sdr_Device_Properties
  imports Sdr_Device
begin

text \<open>
  The properties of the device as the server uses it: a start and a stop for every period in which
  clients are connected, whatever the results of the starts, and the destruction at the end.
\<close>

subsection \<open>The device as a receiver\<close>

definition start_for :: "device_env \<Rightarrow> u32 \<Rightarrow> sdr_device \<Rightarrow> (int \<times> sdr_device) option" where
  "start_for env band d =
     sdr_device_start env (zero_client\<lparr>cc_sdr_type := sd_functions d, band_freq := band\<rparr>) d"

definition env_good :: "device_env \<Rightarrow> bool" where
  "env_good env \<longleftrightarrow> env_clears env \<and> de_mem env \<and> de_hackrf_init env = 0"

definition restartable_type :: "sdr_device \<Rightarrow> bool" where
  "restartable_type d \<longleftrightarrow> sd_functions d = SDR_TYPE_AIRSPY \<and> valid_gain_mode (sd_config d) \<or>
     sd_functions d = SDR_TYPE_HACKRF \<or> sd_functions d = SDR_TYPE_MSI"

definition device_rest :: "sdr_device \<Rightarrow> bool" where
  "device_rest d \<longleftrightarrow> restartable_type d \<and> (\<forall>p. sd_plugin d = Some p \<longrightarrow> plugin_rest p)"

definition device_receiving :: "sdr_device \<Rightarrow> bool" where
  "device_receiving d \<longleftrightarrow> restartable_type d \<and> (\<exists>p. sd_plugin d = Some p \<and> plugin_receiving p)"

definition device_failed :: "sdr_device \<Rightarrow> bool" where
  "device_failed d \<longleftrightarrow> restartable_type d \<and> (\<exists>p. sd_plugin d = Some p \<and> plugin_failed p)"

lemma create_plugin_rest:
  assumes "env_good env" "restartable_type d"
  shows "\<exists>p. create_plugin env (sd_functions d) (sd_config d) = (0, Some p) \<and> plugin_rest p"
  using assms
  by (auto simp: create_plugin_def restartable_type_def env_good_def config_consts airspy_device_create_def
      hackrf_device_create_def msisdr_device_create_def plugin_rest_def airspy_rest_def hackrf_rest_def msisdr_rest_def)

text \<open>A start runs the driver's start on the plugin it finds or creates.\<close>

lemma start_for_plugin:
  assumes "env_good env" "device_rest d"
  obtains p code p' where "plugin_rest p" "plugin_start_rx env band p = Some (code, p')"
    "start_for env band d = Some (if code \<noteq> 0 then 4 else 0, d\<lparr>sd_plugin := Some p'\<rparr>)"
    "if code = 0 then plugin_receiving p' else plugin_failed p'"
proof -
  obtain p where p: "plugin_rest p" "(case sd_plugin d of Some p \<Rightarrow> (0, Some p)
      | None \<Rightarrow> create_plugin env (sd_functions d) (sd_config d)) = (0, Some p)"
    using create_plugin_rest [OF assms(1)] assms(2) by (cases "sd_plugin d") (auto simp: device_rest_def)
  from assms(1) have "env_clears env" by (simp add: env_good_def)
  from plugin.start_law [OF this p(1), of band] obtain code p' where s:
    "plugin_start_rx env band p = Some (code, p')" "if code = 0 then plugin_receiving p' else plugin_failed p'" by blast
  have "start_for env band d = Some (if code \<noteq> 0 then 4 else 0, d\<lparr>sd_plugin := Some p'\<rparr>)"
    using p(2) s(1) by (cases "sd_plugin d") (auto simp: start_for_def sdr_device_start_def)
  with that p(1) s show ?thesis by blast
qed

interpretation device: restartable_receiver env_good device_rest device_receiving device_failed start_for sdr_device_stop
proof unfold_locales
  fix env band d
  assume a: "env_good env" "device_rest d"
  then have type: "restartable_type d" by (simp add: device_rest_def)
  obtain p code p' where "plugin_rest p" "plugin_start_rx env band p = Some (code, p')"
    "start_for env band d = Some (if code \<noteq> 0 then 4 else 0, d\<lparr>sd_plugin := Some p'\<rparr>)"
    "if code = 0 then plugin_receiving p' else plugin_failed p'"
    by (rule start_for_plugin [OF a, of band])
  with type show "\<exists>code d'. start_for env band d = Some (code, d') \<and> (if code = 0 then device_receiving d' else device_failed d')"
    by (cases "code = 0") (auto simp: device_receiving_def device_failed_def restartable_type_def)
next
  fix d
  show "\<exists>d'. sdr_device_stop d = Some d' \<and> device_rest d'" if "device_receiving d"
    using that plugin.stop_law
    by (force simp: device_receiving_def device_rest_def restartable_type_def sdr_device_stop_def)
  show "\<exists>d'. sdr_device_stop d = Some d' \<and> device_rest d'" if "device_failed d"
    using that plugin.stop_failed
    by (force simp: device_failed_def device_rest_def restartable_type_def sdr_device_stop_def)
qed

lemma start_for_codes:
  assumes "start_for env band d = Some (code, d')"
  shows "code = 0 \<or> code = 4"
  using assms by (auto simp: start_for_def sdr_device_start_def Let_def split: prod.splits if_splits option.splits
      Option.bind_splits)

lemma session_codes:
  "run_sessions start_for sdr_device_stop starts d = Some (codes, d') \<Longrightarrow> set codes \<subseteq> {0, 4}"
proof (induction starts arbitrary: d codes)
  case (Cons s starts)
  obtain env band where s: "s = (env, band)" by (cases s)
  with Cons.prems obtain code d1 d2 codes' where
    "start_for env band d = Some (code, d1)" "run_sessions start_for sdr_device_stop starts d2 = Some (codes', d')"
    "codes = code # codes'" by (auto split: Option.bind_splits)
  with Cons.IH start_for_codes show ?case by fastforce
qed simp

lemma destroy_rest: "device_rest d \<Longrightarrow> sdr_device_destroy (Some d) = Some ()"
  by (auto simp: sdr_device_destroy_def device_rest_def plugin_rest_def airspy_rest_def airspy_device_destroy_def
      split: option.splits plugin.splits)

subsection \<open>Properties\<close>


definition demo_device_env :: device_env where
  "demo_device_env = \<lparr>de_mem = True, de_buffer_mem = True, de_hackrf_init = 0, de_rtl = demo_rtl,
     de_airspy = \<lparr>al_code = \<lambda>_. 0, al_open_clears = True\<rparr>, de_hackrf = \<lambda>_. 0,
     de_msisdr = \<lparr>ml_code = \<lambda>_. 0, ml_thread_code = 0\<rparr>\<rparr>"


text \<open>An unknown AirSpy gain mode leaves a freed plugin.  \<open>create_server_config\<close> accepts any
  \<open>airspy_gain_mode\<close>; for one that the driver does not know the start fails, frees the plugin whose
  pointer the device keeps, and the stop that follows and the destruction both touch freed memory.\<close>

theorem unknown_gain_mode_dangles:
  assumes "sdr_device_create True 0 server = (0, Some d)" "sdr_type server = SDR_TYPE_AIRSPY" "\<not> valid_gain_mode server"
    and "de_mem env" "\<forall>c. al_code (de_airspy env) c = 0"
  shows "\<exists>d'. start_for env band d = Some (4, d') \<and> sdr_device_stop d' = None \<and> sdr_device_destroy (Some d') = None"
proof -
  have d: "sd_plugin d = None" "sd_functions d = SDR_TYPE_AIRSPY" "sd_config d = server"
    using assms(1,2) by (auto simp: sdr_device_create_def split: if_splits)
  let ?p = "\<lparr>ad_dev = Null_handle, ad_freed = False, ad_config = server\<rparr>"
  have "airspy_gain_calls server = None"
    using assms(3) by (auto simp: valid_gain_mode_def airspy_gain_calls_def config_consts)
  moreover have "snd (run_checked nonzero (map (\<lambda>c. (c, al_code (de_airspy env) c)) (airspy_common_calls server))) = 0"
    using assms(5) by (simp add: run_checked_ok)
  ultimately have s: "airspy_device_start_rx (de_airspy env) band ?p = Some (1, ?p\<lparr>ad_dev := Open_handle, ad_freed := True\<rparr>)"
    using assms(5) by (simp add: airspy_device_start_rx_def Let_def airspy_device_destroy_def)
  have "create_plugin env SDR_TYPE_AIRSPY server = (0, Some (Airspy_plugin ?p))"
    using assms(4) by (simp add: create_plugin_def config_consts airspy_device_create_def)
  then have "start_for env band d = Some (4, d\<lparr>sd_plugin := Some (Airspy_plugin (?p\<lparr>ad_dev := Open_handle, ad_freed := True\<rparr>))\<rparr>)"
    using d s by (simp add: start_for_def sdr_device_start_def)
  then show ?thesis
    by (simp add: sdr_device_stop_def airspy_stop_def airspy_device_stop_rx_def sdr_device_destroy_def
        airspy_device_destroy_def)
qed

theorem unknown_gain_mode_dangles_witness:
  "\<exists>d d'. sdr_device_create True 0 (zero_config\<lparr>sdr_type := SDR_TYPE_AIRSPY, airspy_gain_mode := 7\<rparr>) = (0, Some d) \<and>
    start_for demo_device_env 100 d = Some (4, d') \<and> sdr_device_stop d' = None"
proof -
  let ?server = "zero_config\<lparr>sdr_type := SDR_TYPE_AIRSPY, airspy_gain_mode := 7\<rparr>"
  obtain d where d: "sdr_device_create True 0 ?server = (0, Some d)"
    by (simp add: sdr_device_create_def known_types_def)
  from unknown_gain_mode_dangles [OF d, of demo_device_env 100] d show ?thesis
    by (auto simp: valid_gain_mode_def demo_device_env_def)
qed

text \<open>A plugin that cannot be created breaks the stop.  When the first start fails before the plugin
  exists, because of memory or of the initialisation of the HackRF library, the start answers 4; the stop
  that follows dereferences \<open>NULL\<close> for every device but an RTL one.\<close>

theorem missing_plugin_breaks_stop:
  assumes "sdr_device_create True 0 server = (0, Some d)" "\<not> de_mem env"
  shows "start_for env band d = Some (4, d) \<and> (sdr_device_stop d = None \<longleftrightarrow> sdr_type server \<noteq> SDR_TYPE_RTL)"
proof -
  have d: "sd_plugin d = None" "sd_functions d = sdr_type server" "sd_config d = server" "sdr_type server \<in> known_types"
    using assms(1) by (auto simp: sdr_device_create_def split: if_splits)
  have "fst (create_plugin env (sdr_type server) server) \<noteq> 0"
    using assms(2) by (auto simp: create_plugin_def rtlsdr_device_create_def airspy_device_create_def
        hackrf_device_create_def msisdr_device_create_def errno_defs)
  with d show ?thesis by (auto simp: start_for_def sdr_device_start_def sdr_device_stop_def split: prod.splits)
qed

theorem missing_plugin_breaks_stop_witness:
  "\<exists>d. sdr_device_create True 0 (zero_config\<lparr>sdr_type := SDR_TYPE_MSI\<rparr>) = (0, Some d) \<and>
    start_for (demo_device_env\<lparr>de_mem := False\<rparr>) 100 d = Some (4, d) \<and> sdr_device_stop d = None"
proof -
  obtain d where d: "sdr_device_create True 0 (zero_config\<lparr>sdr_type := SDR_TYPE_MSI\<rparr>) = (0, Some d)"
    by (simp add: sdr_device_create_def known_types_def)
  from missing_plugin_breaks_stop [OF d, of "demo_device_env\<lparr>de_mem := False\<rparr>" 100] d show ?thesis
    by (auto simp: config_consts)
qed

end
