(* ===== verification/Device_Memory.thy ===== *)
theory Device_Memory
  imports Sdr_Device_Properties
begin

text \<open>
  What a device holds, over its whole life: the memory of \<open>sdr_device.c\<close> and of the drivers, the loaded
  library of the vendor, and the session that \<open>hackrf_init\<close> opens.
\<close>

datatype device_resource = Wrapper_memory | Vendor_library | Plugin_memory | Output_memory | Library_session

subsection \<open>Release\<close>

text \<open>The plugin pointer, \<open>NULL\<close> or a device whose output buffer may be missing.\<close>

definition rtlsdr_device_destroy :: "bool option \<Rightarrow> device_resource list" where
  "rtlsdr_device_destroy plugin =
     (case plugin of None \<Rightarrow> []
      | Some output \<Rightarrow> (if output then [Output_memory] else []) @ [Plugin_memory])"

definition msisdr_device_destroy :: "msisdr_device option \<Rightarrow> device_resource list" where
  "msisdr_device_destroy plugin = (case plugin of None \<Rightarrow> [] | Some d \<Rightarrow> [Plugin_memory])"

text \<open>The function pointer \<open>destroy\<close>; freeing a plugin twice is undefined.\<close>

fun plugin_destroy :: "plugin \<Rightarrow> device_resource list option" where
  "plugin_destroy (Rtl_plugin d) = Some (rtlsdr_device_destroy (Some True))"
| "plugin_destroy (Airspy_plugin d) = map_option (\<lambda>_. [Plugin_memory]) (airspy_device_destroy d)"
| "plugin_destroy (Hackrf_plugin d) =
     Some ((if hackrf_device_destroy (Some d) True then [] else [Library_session]) @ [Plugin_memory])"
| "plugin_destroy (Msisdr_plugin d) = Some (msisdr_device_destroy (Some d))"

definition device_releases :: "sdr_device \<Rightarrow> device_resource list option" where
  "device_releases device = do {
     plugin \<leftarrow> (case sd_plugin device of None \<Rightarrow> Some [] | Some p \<Rightarrow> plugin_destroy p);
     Some (plugin @ (if sd_library device = None then [] else [Vendor_library]) @ [Wrapper_memory]) }"

subsection \<open>Allocation\<close>

text \<open>
  What the \<open>create\<close> functions leave allocated: a driver that gets no output buffer destroys itself, a
  HackRF driver that gets no memory leaves the library initialised.
\<close>

definition create_memory :: "device_env \<Rightarrow> int \<Rightarrow> server_config \<Rightarrow> device_resource set" where
  "create_memory env type server =
     (if type = SDR_TYPE_RTL
      then if \<not> de_mem env then {}
           else if \<not> de_buffer_mem env then {Plugin_memory} - set (rtlsdr_device_destroy (Some False))
           else {Plugin_memory, Output_memory}
      else if type = SDR_TYPE_HACKRF
      then (let ((code, plugin), session) = hackrf_device_create (de_hackrf_init env) (de_mem env) server
            in (if session then {Library_session} else {}) \<union> (if plugin = None then {} else {Plugin_memory}))
      else if snd (create_plugin env type server) = None then {} else {Plugin_memory})"

text \<open>A start creates the missing plugin; the AirSpy driver may free it in the course of a start.\<close>

fun plugin_freed :: "plugin option \<Rightarrow> bool" where
  "plugin_freed (Some (Airspy_plugin d)) \<longleftrightarrow> ad_freed d"
| "plugin_freed _ \<longleftrightarrow> False"

definition start_holding :: "device_env \<Rightarrow> u32 \<Rightarrow> sdr_device \<times> device_resource set
    \<Rightarrow> (int \<times> sdr_device \<times> device_resource set) option" where
  "start_holding env band st = do {
     (code, d') \<leftarrow> start_for env band (fst st);
     let held = snd st \<union>
       (if sd_plugin (fst st) = None then create_memory env (sd_functions (fst st)) (sd_config (fst st)) else {});
     Some (code, d', if plugin_freed (sd_plugin d') then held - {Plugin_memory} else held) }"

definition stop_holding :: "sdr_device \<times> device_resource set \<Rightarrow> (sdr_device \<times> device_resource set) option" where
  "stop_holding st = map_option (\<lambda>d'. (d', snd st)) (sdr_device_stop (fst st))"

subsection \<open>The accounts\<close>

fun plugin_holds :: "plugin option \<Rightarrow> device_resource set" where
  "plugin_holds None = {}"
| "plugin_holds (Some (Rtl_plugin d)) = {Plugin_memory, Output_memory}"
| "plugin_holds (Some (Airspy_plugin d)) = {Plugin_memory}"
| "plugin_holds (Some (Hackrf_plugin d)) = {Plugin_memory, Library_session}"
| "plugin_holds (Some (Msisdr_plugin d)) = {Plugin_memory}"

fun plugin_type :: "plugin \<Rightarrow> int" where
  "plugin_type (Rtl_plugin d) = SDR_TYPE_RTL"
| "plugin_type (Airspy_plugin d) = SDR_TYPE_AIRSPY"
| "plugin_type (Hackrf_plugin d) = SDR_TYPE_HACKRF"
| "plugin_type (Msisdr_plugin d) = SDR_TYPE_MSI"

definition accounted :: "sdr_device \<times> device_resource set \<Rightarrow> bool" where
  "accounted st \<longleftrightarrow> sd_library (fst st) \<noteq> None \<and> \<not> plugin_freed (sd_plugin (fst st)) \<and>
     snd st = {Wrapper_memory, Vendor_library} \<union> plugin_holds (sd_plugin (fst st))"

lemma created_holds:
  assumes "create_plugin env type server = (code, p)" "type \<noteq> SDR_TYPE_HACKRF \<or> p \<noteq> None"
  shows "create_memory env type server = plugin_holds p" "\<not> plugin_freed p" "code = 0 \<longleftrightarrow> p \<noteq> None"
  using assms
  by (auto simp: create_plugin_def create_memory_def rtlsdr_device_create_def airspy_device_create_def
      hackrf_device_create_def msisdr_device_create_def rtlsdr_device_destroy_def config_consts errno_defs Let_def
      split: if_splits)

lemma start_keeps_kind:
  "plugin_start_rx env band p = Some (code, p') \<Longrightarrow> plugin_holds (Some p') = plugin_holds (Some p)"
  by (cases p) auto

lemma stop_keeps_kind:
  "plugin_stop_rx p = Some p' \<Longrightarrow> plugin_holds (Some p') = plugin_holds (Some p)"
  by (cases p) auto

lemma stop_not_freed: "plugin_stop_rx p = Some p' \<Longrightarrow> \<not> plugin_freed (Some p) \<and> \<not> plugin_freed (Some p')"
  by (cases p) (auto simp: airspy_stop_def airspy_device_stop_rx_def split: if_splits handle.splits)

lemma create_outcome:
  "create_plugin env type server = (code, p) \<Longrightarrow> code = 0 \<longleftrightarrow> p \<noteq> None"
  by (auto simp: create_plugin_def rtlsdr_device_create_def airspy_device_create_def hackrf_device_create_def
      msisdr_device_create_def errno_defs split: if_splits)

lemma stop_accounted:
  assumes "sdr_device_stop (d\<lparr>sd_plugin := Some p'\<rparr>) = Some d2" "plugin_start_rx env band p = Some (code, p')"
    and "sd_library d \<noteq> None" "held = {Wrapper_memory, Vendor_library} \<union> plugin_holds (Some p)"
  shows "\<not> plugin_freed (Some p')" "accounted (d2, held)"
proof -
  from assms(1) obtain p2 where p2: "plugin_stop_rx p' = Some p2" "d2 = d\<lparr>sd_plugin := Some p2\<rparr>"
    by (auto simp: sdr_device_stop_def)
  show "\<not> plugin_freed (Some p')" using stop_not_freed [OF p2(1)] by blast
  show "accounted (d2, held)"
    using stop_not_freed [OF p2(1)] stop_keeps_kind [OF p2(1)] start_keeps_kind [OF assms(2)] assms(3,4) p2(2)
    by (simp add: accounted_def)
qed

lemma session_accounted:
  assumes "accounted st" "start_holding env band st = Some (code, st1)" "stop_holding st1 = Some st2"
  shows "accounted st2"
proof -
  obtain d held where st: "st = (d, held)" by (cases st)
  from assms(1) have lib: "sd_library d \<noteq> None" and held: "held = {Wrapper_memory, Vendor_library} \<union> plugin_holds (sd_plugin d)"
    by (simp_all add: accounted_def st)
  from assms(2,3) obtain d1 d2 held1 where st1: "st1 = (d1, held1)" "st2 = (d2, held1)" "start_for env band d = Some (code, d1)"
    and stop: "sdr_device_stop d1 = Some d2"
    and held1: "held1 = (let h = held \<union> (if sd_plugin d = None then create_memory env (sd_functions d) (sd_config d) else {})
      in if plugin_freed (sd_plugin d1) then h - {Plugin_memory} else h)"
    by (auto simp: st start_holding_def stop_holding_def Let_def bind_eq_Some_conv split: if_splits)
  show ?thesis
  proof (cases "sd_plugin d")
    case (Some p)
    with st1(3) obtain c p' where s: "plugin_start_rx env band p = Some (c, p')" "d1 = d\<lparr>sd_plugin := Some p'\<rparr>"
      by (auto simp: start_for_def sdr_device_start_def bind_eq_Some_conv)
    from stop_accounted [OF stop [unfolded s(2)] s(1) lib held [unfolded Some]] held1 Some s(2) st1(2)
    show ?thesis by simp
  next
    case None
    obtain c p where c: "create_plugin env (sd_functions d) (sd_config d) = (c, p)" by force
    show ?thesis
    proof (cases p)
      case (Some p0)
      with create_outcome [OF c] None st1(3) c obtain c' p' where
        s: "plugin_start_rx env band p0 = Some (c', p')" "d1 = d\<lparr>sd_plugin := Some p'\<rparr>"
        by (auto simp: start_for_def sdr_device_start_def bind_eq_Some_conv)
      have h: "held \<union> plugin_holds (Some p0) = {Wrapper_memory, Vendor_library} \<union> plugin_holds (Some p0)"
        using held None by simp
      from stop_accounted [OF stop [unfolded s(2)] s(1) lib h] created_holds(1) [OF c] held1 None Some s(2) st1(2)
      show ?thesis by simp
    next
      case nop: None
      with create_outcome [OF c] None st1(3) c have d1: "d1 = d"
        by (auto simp: start_for_def sdr_device_start_def)
      with stop None have type: "sd_functions d = SDR_TYPE_RTL" "d2 = d"
        by (auto simp: sdr_device_stop_def split: if_splits)
      then have "create_memory env (sd_functions d) (sd_config d) = {}"
        using created_holds(1) [OF c] nop by (simp add: config_consts)
      with held held1 None d1 type(2) lib st1(2) show ?thesis by (simp add: accounted_def)
    qed
  qed
qed

lemma sessions_accounted:
  "accounted st \<Longrightarrow> run_sessions start_holding stop_holding starts st = Some (codes, st') \<Longrightarrow> accounted st'"
proof (induction starts arbitrary: st codes)
  case (Cons s starts)
  obtain env band where s: "s = (env, band)" by (cases s)
  with Cons.prems(2) obtain code st1 st2 codes' where
    "start_holding env band st = Some (code, st1)" "stop_holding st1 = Some st2"
    "run_sessions start_holding stop_holding starts st2 = Some (codes', st')" by (auto split: Option.bind_splits)
  with Cons.IH session_accounted [OF Cons.prems(1)] show ?case by blast
qed simp

text \<open>C15.  A device leaves nothing behind.  After any sessions that are defined, of any type of device and
  whatever memory, \<open>hackrf_init\<close> and the vendor's library answer, \<open>sdr_device_destroy\<close> releases every
  resource that is held, each once, and nothing else.\<close>

theorem device_leaves_nothing:
  assumes "sdr_device_create True 0 server = (0, Some d)"
    and "run_sessions start_holding stop_holding starts (d, {Wrapper_memory, Vendor_library}) = Some (codes, d', held)"
  shows "\<exists>rs. device_releases d' = Some rs \<and> set rs = held \<and> distinct rs \<and> sdr_device_destroy (Some d') = Some ()"
proof -
  have "accounted (d, {Wrapper_memory, Vendor_library})"
    using assms(1) by (auto simp: sdr_device_create_def accounted_def split: if_splits)
  from sessions_accounted [OF this assms(2)] have a: "sd_library d' \<noteq> None" "\<not> plugin_freed (sd_plugin d')"
    "held = {Wrapper_memory, Vendor_library} \<union> plugin_holds (sd_plugin d')" by (simp_all add: accounted_def)
  show ?thesis
  proof (cases "sd_plugin d'")
    case None
    with a show ?thesis by (auto simp: device_releases_def sdr_device_destroy_def)
  next
    case (Some p)
    with a show ?thesis
      by (cases p) (auto simp: device_releases_def sdr_device_destroy_def airspy_device_destroy_def
          rtlsdr_device_destroy_def msisdr_device_destroy_def hackrf_device_destroy_def)
  qed
qed

theorem device_leaves_nothing_witness:
  "\<exists>d d' codes. sdr_device_create True 0 (zero_config\<lparr>sdr_type := SDR_TYPE_MSI\<rparr>) = (0, Some d) \<and>
    run_sessions start_holding stop_holding [(demo_device_env, 100), (demo_device_env, 200)] (d, {Wrapper_memory, Vendor_library}) =
      Some (codes, d', {Wrapper_memory, Vendor_library, Plugin_memory}) \<and>
    (\<exists>rs. device_releases d' = Some rs \<and> set rs = {Wrapper_memory, Vendor_library, Plugin_memory})"
proof -
  let ?server = "zero_config\<lparr>sdr_type := SDR_TYPE_MSI\<rparr>"
  obtain d where d: "sdr_device_create True 0 ?server = (0, Some d)" "sd_plugin d = None" "sd_functions d = SDR_TYPE_MSI"
    "sd_config d = ?server"
    by (simp add: sdr_device_create_def known_types_def)
  have "\<exists>codes d'. run_sessions start_holding stop_holding [(demo_device_env, 100), (demo_device_env, 200)]
      (d, {Wrapper_memory, Vendor_library}) = Some (codes, d', {Wrapper_memory, Vendor_library, Plugin_memory})"
    using d(2-4)
    by (simp add: start_holding_def stop_holding_def start_for_def sdr_device_start_def create_plugin_def create_memory_def
        config_consts msisdr_device_create_def demo_device_env_def msisdr_settled_start_def msisdr_device_start_rx_def
        msisdr_start_calls_def zero_config_def msisdr_rx_thread_fn_def sdr_device_stop_def msisdr_stop_def
        msisdr_device_stop_rx_def insert_commute)
  with device_leaves_nothing [OF d(1)] d(1) show ?thesis by blast
qed

text \<open>A HackRF device that gets no memory keeps the library initialised: the destruction does not undo it.\<close>

lemma hackrf_session_leaks:
  assumes "sd_functions d = SDR_TYPE_HACKRF" "sd_plugin d = None" "sd_library d \<noteq> None" "de_hackrf_init env = 0" "\<not> de_mem env"
  shows "start_holding env band (d, held) = Some (4, d, held \<union> {Library_session})"
    "\<exists>rs. device_releases d = Some rs \<and> Library_session \<notin> set rs"
  using assms
  by (auto simp: start_holding_def start_for_def sdr_device_start_def create_plugin_def hackrf_device_create_def
      create_memory_def config_consts errno_defs device_releases_def)

end
