(* ===== verification/Lib_Loaders.thy ===== *)
theory Lib_Loaders
  imports Rtlsdr_Device Airspy_Device Hackrf_Device Msisdr_Device
begin

text \<open>
  Loading the vendors' libraries, \<open>src/src/sdr/rtlsdr_lib.c\<close>, \<open>airspy_lib.c\<close>, \<open>hackrf_lib.c\<close> with
  \<open>dlopen\<close> and \<open>dlsym\<close>, and \<open>msisdr_lib.c\<close>, whose functions are linked.  A function pointer that was not
  loaded is \<open>NULL\<close>.
\<close>

subsection \<open>Loading\<close>

datatype lib_resource = Lib_memory | Lib_handle

text \<open>The fields filled in so far.\<close>

record loaded_lib =
  ll_handle :: bool
  ll_functions :: "string list"

definition lib_destroy :: "loaded_lib \<Rightarrow> lib_resource set \<Rightarrow> lib_resource set" where
  "lib_destroy lib held = held - (if ll_handle lib then {Lib_handle} else {}) - {Lib_memory}"

text \<open>The sequence of \<open>SETUP_FUNCTION\<close>; \<open>dlsym\<close> tells which symbols the library has.\<close>

fun setup_functions :: "(string \<Rightarrow> bool) \<Rightarrow> string list \<Rightarrow> loaded_lib \<Rightarrow> (int \<times> loaded_lib option) \<times> lib_resource set" where
  "setup_functions dlsym [] lib = ((0, Some lib), {Lib_memory, Lib_handle})"
| "setup_functions dlsym (name # names) lib =
     (if dlsym name then setup_functions dlsym names (lib\<lparr>ll_functions := ll_functions lib @ [name]\<rparr>)
      else ((- 1, None), lib_destroy lib {Lib_memory, Lib_handle}))"

definition load_library :: "bool \<Rightarrow> bool \<Rightarrow> (string \<Rightarrow> bool) \<Rightarrow> string list \<Rightarrow> (int \<times> loaded_lib option) \<times> lib_resource set" where
  "load_library mem_ok dlopen_ok dlsym names =
     (if \<not> mem_ok then ((- ENOMEM, None), {})
      else if \<not> dlopen_ok then ((- 1, None), lib_destroy (\<lparr>ll_handle = False, ll_functions = []\<rparr>) {Lib_memory})
      else setup_functions dlsym names (\<lparr>ll_handle = True, ll_functions = []\<rparr>))"

definition rtlsdr_symbols :: "string list" where
  "rtlsdr_symbols = [''rtlsdr_open'', ''rtlsdr_close'', ''rtlsdr_set_sample_rate'', ''rtlsdr_set_center_freq'',
     ''rtlsdr_set_tuner_gain_mode'', ''rtlsdr_get_tuner_gains'', ''rtlsdr_set_tuner_gain'', ''rtlsdr_set_bias_tee'',
     ''rtlsdr_reset_buffer'', ''rtlsdr_read_sync'', ''rtlsdr_set_freq_correction'', ''rtlsdr_get_index_by_serial'']"

definition airspy_symbols :: "string list" where
  "airspy_symbols = [''airspy_lib_version'', ''airspy_open'', ''airspy_set_sample_type'', ''airspy_close'', ''airspy_set_lna_agc'',
     ''airspy_set_samplerate'', ''airspy_set_packing'', ''airspy_set_rf_bias'', ''airspy_set_lna_gain'', ''airspy_set_mixer_agc'',
     ''airspy_set_vga_gain'', ''airspy_set_mixer_gain'', ''airspy_set_linearity_gain'', ''airspy_set_sensitivity_gain'',
     ''airspy_start_rx'', ''airspy_set_freq'', ''airspy_stop_rx'']"

definition hackrf_symbols :: "string list" where
  "hackrf_symbols = [''hackrf_init'', ''hackrf_error_name'', ''hackrf_version_string_read'', ''hackrf_usb_api_version_read'',
     ''hackrf_set_vga_gain'', ''hackrf_set_lna_gain'', ''hackrf_set_amp_enable'', ''hackrf_set_freq'',
     ''hackrf_set_baseband_filter_bandwidth'', ''hackrf_set_sample_rate'', ''hackrf_start_rx'', ''hackrf_stop_rx'', ''hackrf_close'',
     ''hackrf_exit'', ''hackrf_open'', ''hackrf_open_by_serial'', ''hackrf_set_antenna_enable'']"

definition rtlsdr_lib_create :: "bool \<Rightarrow> bool \<Rightarrow> (string \<Rightarrow> bool) \<Rightarrow> (int \<times> loaded_lib option) \<times> lib_resource set" where
  "rtlsdr_lib_create mem_ok dlopen_ok dlsym = load_library mem_ok dlopen_ok dlsym rtlsdr_symbols"

definition airspy_lib_create :: "bool \<Rightarrow> bool \<Rightarrow> (string \<Rightarrow> bool) \<Rightarrow> (int \<times> loaded_lib option) \<times> lib_resource set" where
  "airspy_lib_create mem_ok dlopen_ok dlsym = load_library mem_ok dlopen_ok dlsym airspy_symbols"

definition hackrf_lib_create :: "bool \<Rightarrow> bool \<Rightarrow> (string \<Rightarrow> bool) \<Rightarrow> (int \<times> loaded_lib option) \<times> lib_resource set" where
  "hackrf_lib_create mem_ok dlopen_ok dlsym = load_library mem_ok dlopen_ok dlsym hackrf_symbols"

text \<open>\<open>NULL\<close> may be destroyed.\<close>

definition rtlsdr_lib_destroy :: "loaded_lib option \<Rightarrow> lib_resource set \<Rightarrow> lib_resource set" where
  "rtlsdr_lib_destroy lib held = (case lib of None \<Rightarrow> held | Some l \<Rightarrow> lib_destroy l held)"

definition airspy_lib_destroy :: "loaded_lib option \<Rightarrow> lib_resource set \<Rightarrow> lib_resource set" where
  "airspy_lib_destroy lib held = (case lib of None \<Rightarrow> held | Some l \<Rightarrow> lib_destroy l held)"

definition hackrf_lib_destroy :: "loaded_lib option \<Rightarrow> lib_resource set \<Rightarrow> lib_resource set" where
  "hackrf_lib_destroy lib held = (case lib of None \<Rightarrow> held | Some l \<Rightarrow> lib_destroy l held)"

subsection \<open>The linked library\<close>

definition msisdr_symbols :: "string list" where
  "msisdr_symbols = [''msisdr_open'', ''msisdr_close'', ''msisdr_set_center_freq'', ''msisdr_set_sample_rate'',
     ''msisdr_set_sample_format'', ''msisdr_set_bandwidth'', ''msisdr_set_if_freq'', ''msisdr_set_hw_flavour'',
     ''msisdr_rsp1a_gpio_init'', ''msisdr_set_tuner_gain'', ''msisdr_set_tuner_gain_mode'', ''msisdr_get_tuner_gains'',
     ''msisdr_reset_buffer'', ''msisdr_read_async'', ''msisdr_cancel_async'']"

definition msisdr_lib_create :: "bool \<Rightarrow> (int \<times> loaded_lib option) \<times> lib_resource set" where
  "msisdr_lib_create mem_ok =
     (if \<not> mem_ok then ((- ENOMEM, None), {})
      else ((0, Some \<lparr>ll_handle = False, ll_functions = msisdr_symbols\<rparr>), {Lib_memory}))"

definition msisdr_lib_destroy :: "loaded_lib option \<Rightarrow> lib_resource set \<Rightarrow> lib_resource set" where
  "msisdr_lib_destroy lib held = (case lib of None \<Rightarrow> held | Some l \<Rightarrow> held - {Lib_memory})"

subsection \<open>The structures\<close>

text \<open>The function pointers the headers declare, in their order.\<close>

definition rtlsdr_lib_fields :: "string list" where
  "rtlsdr_lib_fields = [''rtlsdr_open'', ''rtlsdr_close'', ''rtlsdr_set_sample_rate'', ''rtlsdr_set_center_freq'',
     ''rtlsdr_set_tuner_gain_mode'', ''rtlsdr_get_tuner_gains'', ''rtlsdr_set_tuner_gain'', ''rtlsdr_set_bias_tee'',
     ''rtlsdr_reset_buffer'', ''rtlsdr_read_sync'', ''rtlsdr_set_freq_correction'', ''rtlsdr_get_index_by_serial'']"

definition airspy_lib_fields :: "string list" where
  "airspy_lib_fields = [''airspy_open'', ''airspy_set_sample_type'', ''airspy_close'', ''airspy_set_lna_agc'', ''airspy_set_mixer_agc'',
     ''airspy_set_samplerate'', ''airspy_set_packing'', ''airspy_set_rf_bias'', ''airspy_set_lna_gain'', ''airspy_set_vga_gain'',
     ''airspy_set_mixer_gain'', ''airspy_set_linearity_gain'', ''airspy_set_sensitivity_gain'', ''airspy_start_rx'',
     ''airspy_set_freq'', ''airspy_stop_rx'', ''airspy_lib_version'']"

definition hackrf_lib_fields :: "string list" where
  "hackrf_lib_fields = [''hackrf_init'', ''hackrf_error_name'', ''hackrf_version_string_read'', ''hackrf_usb_api_version_read'',
     ''hackrf_set_vga_gain'', ''hackrf_set_lna_gain'', ''hackrf_set_amp_enable'', ''hackrf_set_freq'',
     ''hackrf_set_baseband_filter_bandwidth'', ''hackrf_set_sample_rate'', ''hackrf_start_rx'', ''hackrf_stop_rx'', ''hackrf_close'',
     ''hackrf_exit'', ''hackrf_open'', ''hackrf_open_by_serial'', ''hackrf_set_antenna_enable'']"

definition msisdr_lib_fields :: "string list" where
  "msisdr_lib_fields = [''msisdr_open'', ''msisdr_close'', ''msisdr_set_center_freq'', ''msisdr_set_sample_rate'',
     ''msisdr_set_sample_format'', ''msisdr_set_bandwidth'', ''msisdr_set_if_freq'', ''msisdr_set_hw_flavour'',
     ''msisdr_rsp1a_gpio_init'', ''msisdr_set_tuner_gain'', ''msisdr_set_tuner_gain_mode'', ''msisdr_get_tuner_gains'',
     ''msisdr_reset_buffer'', ''msisdr_read_async'', ''msisdr_cancel_async'']"

text \<open>
  Every pointer of a structure is filled by its loader, so none keeps what \<open>malloc\<close> or \<open>calloc\<close> left.
\<close>

lemma fields_loaded:
  "set rtlsdr_lib_fields \<subseteq> set rtlsdr_symbols" "set airspy_lib_fields \<subseteq> set airspy_symbols"
  "set hackrf_lib_fields \<subseteq> set hackrf_symbols" "set msisdr_lib_fields \<subseteq> set msisdr_symbols"
  by (simp_all add: rtlsdr_lib_fields_def airspy_lib_fields_def hackrf_lib_fields_def msisdr_lib_fields_def
      rtlsdr_symbols_def airspy_symbols_def hackrf_symbols_def msisdr_symbols_def)

subsection \<open>The functions the drivers call\<close>

fun rtl_symbol :: "rtl_call \<Rightarrow> string" where
  "rtl_symbol (Rtl_open i) = ''rtlsdr_open''"
| "rtl_symbol (Rtl_set_sample_rate r) = ''rtlsdr_set_sample_rate''"
| "rtl_symbol (Rtl_set_tuner_gain_mode m) = ''rtlsdr_set_tuner_gain_mode''"
| "rtl_symbol (Rtl_set_freq_correction p) = ''rtlsdr_set_freq_correction''"
| "rtl_symbol (Rtl_set_tuner_gain g) = ''rtlsdr_set_tuner_gain''"
| "rtl_symbol (Rtl_set_bias_tee b) = ''rtlsdr_set_bias_tee''"
| "rtl_symbol Rtl_reset_buffer = ''rtlsdr_reset_buffer''"
| "rtl_symbol (Rtl_set_center_freq f) = ''rtlsdr_set_center_freq''"
| "rtl_symbol (Rtl_find_gain g) = ''rtlsdr_get_tuner_gains''"

fun airspy_symbol :: "airspy_call \<Rightarrow> string" where
  "airspy_symbol As_open = ''airspy_open''"
| "airspy_symbol As_set_sample_type = ''airspy_set_sample_type''"
| "airspy_symbol (As_set_samplerate r) = ''airspy_set_samplerate''"
| "airspy_symbol As_set_packing = ''airspy_set_packing''"
| "airspy_symbol (As_set_rf_bias b) = ''airspy_set_rf_bias''"
| "airspy_symbol (As_set_sensitivity_gain g) = ''airspy_set_sensitivity_gain''"
| "airspy_symbol (As_set_linearity_gain g) = ''airspy_set_linearity_gain''"
| "airspy_symbol As_set_lna_agc = ''airspy_set_lna_agc''"
| "airspy_symbol As_set_mixer_agc = ''airspy_set_mixer_agc''"
| "airspy_symbol (As_set_vga_gain g) = ''airspy_set_vga_gain''"
| "airspy_symbol (As_set_mixer_gain g) = ''airspy_set_mixer_gain''"
| "airspy_symbol (As_set_lna_gain g) = ''airspy_set_lna_gain''"
| "airspy_symbol (As_set_freq f) = ''airspy_set_freq''"
| "airspy_symbol As_start_rx = ''airspy_start_rx''"

fun hackrf_symbol :: "hackrf_call \<Rightarrow> string" where
  "hackrf_symbol (Hr_open_by_serial s) = ''hackrf_open_by_serial''"
| "hackrf_symbol Hr_open = ''hackrf_open''"
| "hackrf_symbol Hr_version_string_read = ''hackrf_version_string_read''"
| "hackrf_symbol Hr_usb_api_version_read = ''hackrf_usb_api_version_read''"
| "hackrf_symbol (Hr_set_freq f) = ''hackrf_set_freq''"
| "hackrf_symbol (Hr_set_sample_rate r) = ''hackrf_set_sample_rate''"
| "hackrf_symbol (Hr_set_baseband_filter_bandwidth b) = ''hackrf_set_baseband_filter_bandwidth''"
| "hackrf_symbol (Hr_set_amp_enable a) = ''hackrf_set_amp_enable''"
| "hackrf_symbol (Hr_set_lna_gain g) = ''hackrf_set_lna_gain''"
| "hackrf_symbol (Hr_set_vga_gain g) = ''hackrf_set_vga_gain''"
| "hackrf_symbol (Hr_set_antenna_enable a) = ''hackrf_set_antenna_enable''"
| "hackrf_symbol Hr_start_rx = ''hackrf_start_rx''"

fun msisdr_symbol :: "msisdr_call \<Rightarrow> string" where
  "msisdr_symbol (Ms_open i) = ''msisdr_open''"
| "msisdr_symbol Ms_set_hw_flavour = ''msisdr_set_hw_flavour''"
| "msisdr_symbol Ms_rsp1a_gpio_init = ''msisdr_rsp1a_gpio_init''"
| "msisdr_symbol Ms_set_sample_format = ''msisdr_set_sample_format''"
| "msisdr_symbol (Ms_set_if_freq f) = ''msisdr_set_if_freq''"
| "msisdr_symbol (Ms_set_bandwidth b) = ''msisdr_set_bandwidth''"
| "msisdr_symbol (Ms_set_sample_rate r) = ''msisdr_set_sample_rate''"
| "msisdr_symbol (Ms_set_center_freq f) = ''msisdr_set_center_freq''"
| "msisdr_symbol (Ms_set_tuner_gain_mode m) = ''msisdr_set_tuner_gain_mode''"
| "msisdr_symbol (Ms_set_tuner_gain g) = ''msisdr_set_tuner_gain''"
| "msisdr_symbol Ms_reset_buffer = ''msisdr_reset_buffer''"

lemma msisdr_lib_complete:
  assumes "msisdr_lib_create mem_ok = ((code, lib), held)"
  shows "(if code = 0 then \<exists>l. lib = Some l \<and> range msisdr_symbol \<subseteq> set (ll_functions l) \<and> msisdr_lib_destroy lib held = {}
     else lib = None \<and> held = {})"
proof -
  have "msisdr_symbol c \<in> set msisdr_symbols" for c by (cases c) (simp_all add: msisdr_symbols_def)
  then show ?thesis
    using assms by (auto simp: msisdr_lib_create_def msisdr_lib_destroy_def errno_defs split: if_splits)
qed

subsection \<open>All or nothing\<close>

lemma setup_functions_outcome:
  "ll_handle lib \<Longrightarrow> setup_functions dlsym names lib =
     (if list_all dlsym names then ((0, Some (lib\<lparr>ll_functions := ll_functions lib @ names\<rparr>)), {Lib_memory, Lib_handle})
      else ((- 1, None), {}))"
  by (induction names arbitrary: lib) (auto simp: lib_destroy_def)

lemma load_library_outcome:
  "load_library mem_ok dlopen_ok dlsym names =
     (if mem_ok \<and> dlopen_ok \<and> list_all dlsym names
      then ((0, Some \<lparr>ll_handle = True, ll_functions = names\<rparr>), {Lib_memory, Lib_handle})
      else ((if mem_ok then - 1 else - ENOMEM, None), {}))"
  by (simp add: load_library_def setup_functions_outcome lib_destroy_def)

lemma library_released:
  "rtlsdr_lib_create m o' dls = ((c, l), held) \<Longrightarrow> rtlsdr_lib_destroy l held = {}"
  "airspy_lib_create m o' dls = ((c, l), held) \<Longrightarrow> airspy_lib_destroy l held = {}"
  "hackrf_lib_create m o' dls = ((c, l), held) \<Longrightarrow> hackrf_lib_destroy l held = {}"
  by (auto simp: rtlsdr_lib_create_def airspy_lib_create_def hackrf_lib_create_def load_library_outcome
      rtlsdr_lib_destroy_def airspy_lib_destroy_def hackrf_lib_destroy_def lib_destroy_def split: if_splits)

text \<open>A library is loaded completely or not at all.  When a loader succeeds every function the driver
  calls is there, so that no start or stop goes through a null pointer; otherwise it leaves neither memory
  nor an open library behind.\<close>

theorem library_loaded_completely:
  assumes "(rtlsdr_lib_create m1 o1 sym1 = ((c1, l1), held1)) \<and> (airspy_lib_create m2 o2 sym2 = ((c2, l2), held2)) \<and>
    (hackrf_lib_create m3 o3 sym3 = ((c3, l3), held3))"
  shows "(if c1 = 0 then \<exists>lib. l1 = Some lib \<and> range rtl_symbol \<union> {''rtlsdr_close'', ''rtlsdr_read_sync'',
      ''rtlsdr_get_index_by_serial''} \<subseteq> set (ll_functions lib) else l1 = None \<and> held1 = {}) \<and>
    (if c2 = 0 then \<exists>lib. l2 = Some lib \<and> range airspy_symbol \<union> {''airspy_close'', ''airspy_stop_rx''} \<subseteq> set (ll_functions lib)
     else l2 = None \<and> held2 = {}) \<and>
    (if c3 = 0 then \<exists>lib. l3 = Some lib \<and> range hackrf_symbol \<union> {''hackrf_init'', ''hackrf_stop_rx'', ''hackrf_close'', ''hackrf_exit''}
      \<subseteq> set (ll_functions lib) else l3 = None \<and> held3 = {})"
proof -
  have rtl: "rtl_symbol c \<in> set rtlsdr_symbols" for c by (cases c) (simp_all add: rtlsdr_symbols_def)
  have airspy: "airspy_symbol c \<in> set airspy_symbols" for c by (cases c) (simp_all add: airspy_symbols_def)
  have hackrf: "hackrf_symbol c \<in> set hackrf_symbols" for c by (cases c) (simp_all add: hackrf_symbols_def)
  have others: "{''rtlsdr_close'', ''rtlsdr_read_sync'', ''rtlsdr_get_index_by_serial''} \<subseteq> set rtlsdr_symbols"
    "{''airspy_close'', ''airspy_stop_rx''} \<subseteq> set airspy_symbols"
    "{''hackrf_init'', ''hackrf_stop_rx'', ''hackrf_close'', ''hackrf_exit''} \<subseteq> set hackrf_symbols"
    by (simp_all add: rtlsdr_symbols_def airspy_symbols_def hackrf_symbols_def)
  from assms have r: "load_library m1 o1 sym1 rtlsdr_symbols = ((c1, l1), held1)"
    "load_library m2 o2 sym2 airspy_symbols = ((c2, l2), held2)" "load_library m3 o3 sym3 hackrf_symbols = ((c3, l3), held3)"
    by (simp_all add: rtlsdr_lib_create_def airspy_lib_create_def hackrf_lib_create_def)
  show ?thesis
    using r [unfolded load_library_outcome] rtl airspy hackrf others
    by (auto simp: errno_defs split: if_splits)
qed

theorem library_loaded_completely_witness:
  "snd (rtlsdr_lib_create True True (\<lambda>s. s \<noteq> ''rtlsdr_set_bias_tee'')) = {} \<and>
    fst (fst (airspy_lib_create True True (\<lambda>_. True))) = 0 \<and> snd (hackrf_lib_create True False (\<lambda>_. True)) = {}"
proof -
  obtain c1 l1 held1 where r1: "rtlsdr_lib_create True True (\<lambda>s. s \<noteq> ''rtlsdr_set_bias_tee'') = ((c1, l1), held1)" by (metis surj_pair)
  obtain c2 l2 held2 where r2: "airspy_lib_create True True (\<lambda>_. True) = ((c2, l2), held2)" by (metis surj_pair)
  obtain c3 l3 held3 where r3: "hackrf_lib_create True False (\<lambda>_. True) = ((c3, l3), held3)" by (metis surj_pair)
  have "c1 \<noteq> 0" "c2 = 0" "c3 \<noteq> 0"
    using r1 r2 r3 by (auto simp: rtlsdr_lib_create_def airspy_lib_create_def hackrf_lib_create_def load_library_outcome
        rtlsdr_symbols_def list_all_iff)
  with library_loaded_completely [OF conjI [OF r1 conjI [OF r2 r3]]] r1 r2 r3 show ?thesis by simp
qed

end
