(* ===== verification/Rtltcp_Samples.thy ===== *)
theory Rtltcp_Samples
  imports Dsp_Worker
begin

text \<open>
  The samples of the rtl_tcp server, \<open>msisdr_callback\<close> of \<open>src/src/rtltcp_server.c\<close>: removing the
  constant component, narrowing to unsigned bytes, sending the block to every connected client.
\<close>

subsection \<open>Removing the constant component\<close>

text \<open>
  The literals \<open>0.998f\<close> and \<open>0.002f\<close> and the conversion to \<open>int32_t\<close>, undefined (\<open>None\<close>) outside of the
  range of the type; the other operations are those of the filter.
\<close>

record 'f dc_ops =
  dc_keep :: 'f
  dc_new :: 'f
  dc_to_i32 :: "'f \<Rightarrow> int option"

definition clamp_i16 :: "int \<Rightarrow> int" where
  "clamp_i16 c = (if c > 32767 then 32767 else if c < - 32768 then - 32768 else c)"

definition dc_average :: "'f fops \<Rightarrow> 'f dc_ops \<Rightarrow> 'f \<Rightarrow> int \<Rightarrow> 'f" where
  "dc_average F C avg s = f_add F (f_mul F (dc_keep C) avg) (f_mul F (dc_new C) (f_of_int F s))"

definition dc_correct :: "'f fops \<Rightarrow> 'f dc_ops \<Rightarrow> 'f \<Rightarrow> int \<Rightarrow> int option" where
  "dc_correct F C avg s = map_option clamp_i16 (dc_to_i32 C (f_sub F (f_of_int F s) avg))"

text \<open>The loop over the pairs, in place; a last sample without a partner stays as it is.\<close>

fun remove_dc :: "'f fops \<Rightarrow> 'f dc_ops \<Rightarrow> 'f \<Rightarrow> 'f \<Rightarrow> int list \<Rightarrow> (int list \<times> 'f \<times> 'f) option" where
  "remove_dc F C avg_i avg_q (si # sq # samples) = (
     let avg_i' = dc_average F C avg_i si; avg_q' = dc_average F C avg_q sq in do {
       ci \<leftarrow> dc_correct F C avg_i' si;
       cq \<leftarrow> dc_correct F C avg_q' sq;
       (rest, avgs) \<leftarrow> remove_dc F C avg_i' avg_q' samples;
       Some (ci # cq # rest, avgs) })"
| "remove_dc F C avg_i avg_q samples = Some (samples, avg_i, avg_q)"

subsection \<open>Bytes\<close>

text \<open>\<open>(uint8_t) ((s >> 8) + 128)\<close> with the arithmetic shift of a signed value.\<close>

definition to_u8 :: "int \<Rightarrow> u8" where
  "to_u8 s = word_of_int (drop_bit 8 s + 128)"

definition U8BUF_MAX :: nat where "U8BUF_MAX = 262144"

definition convert_samples :: "int list \<Rightarrow> u8 list" where
  "convert_samples samples = map to_u8 (take U8BUF_MAX samples)"

subsection \<open>Broadcast\<close>

text \<open>
  The results of \<open>send\<close>: a number of bytes (0 drops the client), \<open>EAGAIN\<close>, another error.  Without a
  further event the socket takes everything.  The result tells whether the client stays and what it got.
\<close>

datatype send_result = Took nat | Would_block | Send_failed

fun send_loop :: "u8 list \<Rightarrow> send_result list \<Rightarrow> bool \<times> u8 list" where
  "send_loop [] evs = (True, [])"
| "send_loop (b # bs) [] = (True, b # bs)"
| "send_loop (b # bs) (Would_block # evs) = (True, [])"
| "send_loop (b # bs) (Send_failed # evs) = (False, [])"
| "send_loop (b # bs) (Took n # evs) =
     (if n = 0 then (False, []) else apsnd (append (take n (b # bs))) (send_loop (drop n (b # bs)) evs))"

text \<open>
  The loop over the slots from number \<open>i\<close>; \<open>env\<close> gives the results for each slot.  The new slots, and the
  bytes sent through each.
\<close>

fun broadcast_samples :: "u8 list \<Rightarrow> (nat \<Rightarrow> send_result list) \<Rightarrow> nat \<Rightarrow> nat option list \<Rightarrow> nat option list \<times> u8 list list" where
  "broadcast_samples buf env i [] = ([], [])"
| "broadcast_samples buf env i (None # slots) = (let (slots', sent) = broadcast_samples buf env (Suc i) slots in (None # slots', [] # sent))"
| "broadcast_samples buf env i (Some sock # slots) = (
     let (keep, bytes) = send_loop buf (env i); (slots', sent) = broadcast_samples buf env (Suc i) slots
     in ((if keep then Some sock else None) # slots', bytes # sent))"

text \<open>
  The whole callback: nothing but the cancellation once \<open>g_stop\<close> is set.
\<close>

definition msisdr_callback :: "'f fops \<Rightarrow> 'f dc_ops \<Rightarrow> endian \<Rightarrow> bool \<Rightarrow> u8 list \<Rightarrow> (nat \<Rightarrow> send_result list)
    \<Rightarrow> ('f \<times> 'f) \<times> nat option list \<Rightarrow> (bool \<times> (('f \<times> 'f) \<times> nat option list) \<times> u8 list list) option" where
  "msisdr_callback F C e g_stop buf env st =
     (let ((avg_i, avg_q), slots) = st in
      if g_stop then Some (True, st, map (\<lambda>_. []) slots)
      else do {
        (samples, avgs) \<leftarrow> remove_dc F C avg_i avg_q (as_int16 e buf);
        let (slots', sent) = broadcast_samples (convert_samples samples) env 0 slots;
        Some (False, (avgs, slots'), sent) })"

text \<open>The callbacks of a run in their order; the streams the slots got.\<close>

fun run_callbacks :: "'f fops \<Rightarrow> 'f dc_ops \<Rightarrow> endian \<Rightarrow> (u8 list \<times> (nat \<Rightarrow> send_result list)) list
    \<Rightarrow> ('f \<times> 'f) \<times> nat option list \<Rightarrow> ((('f \<times> 'f) \<times> nat option list) \<times> u8 list list) option" where
  "run_callbacks F C e [] st = Some (st, map (\<lambda>_. []) (snd st))"
| "run_callbacks F C e ((buf, env) # rounds) st = do {
     (cancelled, st', sent) \<leftarrow> msisdr_callback F C e False buf env st;
     (st'', sents) \<leftarrow> run_callbacks F C e rounds st';
     Some (st'', map2 (@) sent sents) }"

subsection \<open>Bytes and samples\<close>

lemma to_u8_value:
  assumes "in_i16 s"
  shows "uint (to_u8 s) = s div 256 + 128"
proof -
  have "0 \<le> s div 256 + 128" "s div 256 + 128 < 256" using assms by (auto simp: in_i16_def)
  then have "uint (word_of_int (s div 256 + 128) :: u8) = s div 256 + 128"
    unfolding uint_word_of_int_eq by (intro take_bit_int_eq_self) simp_all
  then show ?thesis unfolding to_u8_def drop_bit_eq_div by simp
qed

lemma clamp_in_i16: "in_i16 (clamp_i16 c)"
  by (auto simp: clamp_i16_def in_i16_def)

lemma as_int16_range: "list_all in_i16 (as_int16 e bs)"
  by (induction e bs rule: as_int16.induct) (auto simp: to_i16_range)

lemma remove_dc_range:
  "remove_dc F C ai aq xs = Some (ys, avgs) \<Longrightarrow> list_all in_i16 xs \<Longrightarrow> list_all in_i16 ys \<and> length ys = length xs"
proof (induction F C ai aq xs arbitrary: ys avgs rule: remove_dc.induct)
  case (1 F C ai aq si sq samples)
  then show ?case
    by (fastforce simp: dc_correct_def clamp_in_i16 Let_def split: bind_splits prod.splits)
qed auto

subsection \<open>What a client gets\<close>

lemma send_loop_prefix: "snd (send_loop bs evs) = take (length (snd (send_loop bs evs))) bs"
proof (induction bs evs rule: send_loop.induct)
  case (5 b bs n evs)
  then show ?case
    by (cases "n = 0")
      (auto simp: min_def, metis append_take_drop_id length_append length_take take_add append_eq_conv_conj)
qed auto

lemma broadcast_length: "length (fst (broadcast_samples buf env i slots)) = length slots \<and>
    length (snd (broadcast_samples buf env i slots)) = length slots"
  by (induction buf env i slots rule: broadcast_samples.induct) (auto split: prod.splits)

lemma broadcast_nth:
  assumes "k < length slots"
  shows "fst (broadcast_samples buf env i slots) ! k =
      (case slots ! k of None \<Rightarrow> None | Some s \<Rightarrow> if fst (send_loop buf (env (i + k))) then Some s else None)"
    and "snd (broadcast_samples buf env i slots) ! k =
      (case slots ! k of None \<Rightarrow> [] | Some s \<Rightarrow> snd (send_loop buf (env (i + k))))"
  using assms
  by (induction buf env i slots arbitrary: k rule: broadcast_samples.induct)
    (auto simp: less_Suc_eq_0_disj split: prod.splits option.splits)

end
