(* ===== verification/Rtltcp_Server.thy ===== *)
theory Rtltcp_Server
  imports Rtltcp_Samples Msisdr_Device
begin

text \<open>
  The rtl_tcp server, \<open>src/src/rtltcp_server.c\<close>: the settings and the commands that change them, opening
  the device, the client slots with their threads, and the shutdown.  The samples are the subject of
  \<open>Rtltcp_Samples\<close>.
\<close>

subsection \<open>Settings and commands\<close>

text \<open>\<open>device_state_t\<close> without the averages, which \<open>Rtltcp_Samples\<close> has.\<close>

record device_state =
  g_dev :: handle
  g_center_freq :: u32
  g_sample_rate :: u32
  g_gain_mode :: int
  g_gain :: int

definition DEFAULT_PORT :: int where "DEFAULT_PORT = 1234"
definition DEFAULT_DEVICE_INDEX :: int where "DEFAULT_DEVICE_INDEX = 0"
definition DEFAULT_GAIN :: int where "DEFAULT_GAIN = 40"
definition DEFAULT_SAMPLE_RATE :: u32 where "DEFAULT_SAMPLE_RATE = 2400000"
definition DEFAULT_CENTER_FREQ :: u32 where "DEFAULT_CENTER_FREQ = 100000000"
definition MAX_CLIENTS :: nat where "MAX_CLIENTS = 4"

definition default_state :: device_state where
  "default_state = \<lparr>g_dev = Null_handle, g_center_freq = DEFAULT_CENTER_FREQ, g_sample_rate = DEFAULT_SAMPLE_RATE,
     g_gain_mode = 1, g_gain = DEFAULT_GAIN\<rparr>"

text \<open>
  The options \<open>-p\<close>, \<open>-d\<close>, \<open>-g\<close>, \<open>-r\<close>, \<open>-f\<close> with the value of \<open>atoi\<close>, and \<open>-l\<close>, whose argument is the
  log file; any other ends the program.
\<close>

datatype cli_option = Opt_number char int | Opt_logfile string

record cli_settings =
  cli_port :: int
  cli_dev_idx :: int
  cli_logfile :: "string option"
  cli_state :: device_state

definition default_settings :: cli_settings where
  "default_settings = \<lparr>cli_port = DEFAULT_PORT, cli_dev_idx = DEFAULT_DEVICE_INDEX, cli_logfile = None,
     cli_state = default_state\<rparr>"

definition apply_option :: "cli_option \<Rightarrow> cli_settings \<Rightarrow> cli_settings option" where
  "apply_option opt c =
     (case opt of
        Opt_logfile path \<Rightarrow> Some (c\<lparr>cli_logfile := Some path\<rparr>)
      | Opt_number o' v \<Rightarrow>
          if o' = CHR ''p'' then Some (c\<lparr>cli_port := v\<rparr>)
          else if o' = CHR ''d'' then Some (c\<lparr>cli_dev_idx := v\<rparr>)
          else if o' = CHR ''g'' then Some (c\<lparr>cli_state := (cli_state c)\<lparr>g_gain := v\<rparr>\<rparr>)
          else if o' = CHR ''r'' then Some (c\<lparr>cli_state := (cli_state c)\<lparr>g_sample_rate := word_of_int v\<rparr>\<rparr>)
          else if o' = CHR ''f'' then Some (c\<lparr>cli_state := (cli_state c)\<lparr>g_center_freq := word_of_int v\<rparr>\<rparr>)
          else None)"

fun parse_options :: "cli_option list \<Rightarrow> cli_settings \<Rightarrow> cli_settings option" where
  "parse_options [] c = Some c"
| "parse_options (opt # opts) c = Option.bind (apply_option opt c) (parse_options opts)"

text \<open>A command is five bytes: its number and a big-endian parameter; a shorter rest ends the thread.\<close>

fun read_commands :: "u8 list \<Rightarrow> (u8 \<times> u32) list" where
  "read_commands (c # a # b # d # e # rest) = (c, of_big_bytes [a, b, d, e]) # read_commands rest"
| "read_commands rest = []"

definition clamp_rate :: "u32 \<Rightarrow> u32" where
  "clamp_rate param = (let applied = (if param < 1300000 then 1300000 else param) in if applied > 15000000 then 15000000 else applied)"

text \<open>One turn of the loop of \<open>client_cmd_thread\<close>: the new settings and the calls of the library.\<close>

definition handle_command :: "u8 \<times> u32 \<Rightarrow> device_state \<Rightarrow> device_state \<times> msisdr_call list" where
  "handle_command command s =
     (let (cmd, param) = command; dev = (g_dev s \<noteq> Null_handle) in
      if cmd = 0x01 then (s\<lparr>g_center_freq := param\<rparr>, if dev then [Ms_set_center_freq param] else [])
      else if cmd = 0x02 then
        (if param \<noteq> g_sample_rate s \<and> dev
         then (s\<lparr>g_sample_rate := clamp_rate param\<rparr>, [Ms_set_sample_rate (clamp_rate param)])
         else (s, []))
      else if cmd = 0x03 then
        (s\<lparr>g_gain_mode := sint param\<rparr>, if dev then [Ms_set_tuner_gain_mode (sint param)] else [])
      else if cmd = 0x04 then
        (let gain' = sint (param div 10) in
         (s\<lparr>g_gain := gain'\<rparr>, if dev \<and> g_gain_mode s = 1 then [Ms_set_tuner_gain gain'] else []))
      else if cmd = 0x08 then
        (let mode = (if param \<noteq> 0 then 0 else 1) in
         (s\<lparr>g_gain_mode := mode\<rparr>, if dev then [Ms_set_tuner_gain_mode mode] else []))
      else (s, []))"

fun handle_commands :: "(u8 \<times> u32) list \<Rightarrow> device_state \<Rightarrow> device_state \<times> msisdr_call list" where
  "handle_commands [] s = (s, [])"
| "handle_commands (c # cs) s = (let (s1, made) = handle_command c s; (s2, made') = handle_commands cs s1 in (s2, made @ made'))"

text \<open>The commands a client sends over one connection.\<close>

definition client_cmd_thread :: "u8 list \<Rightarrow> device_state \<Rightarrow> device_state \<times> msisdr_call list" where
  "client_cmd_thread received s = handle_commands (read_commands received) s"

subsection \<open>Opening the device\<close>

text \<open>
  Five attempts; \<open>env att\<close> is \<open>g_stop\<close> before attempt \<open>att\<close> and the code of \<open>msisdr_open\<close> in it.
\<close>

fun open_attempts :: "nat \<Rightarrow> nat \<Rightarrow> (nat \<Rightarrow> bool \<times> int) \<Rightarrow> handle \<Rightarrow> handle" where
  "open_attempts 0 att env dev = dev"
| "open_attempts (Suc left) att env dev =
     (if fst (env att) then dev
      else if snd (env att) = 0 then Open_handle else open_attempts left (att + 1) env Null_handle)"

definition configure_calls :: "device_state \<Rightarrow> msisdr_call list" where
  "configure_calls s =
     [Ms_rsp1a_gpio_init, Ms_set_hw_flavour, Ms_set_sample_format, Ms_set_if_freq 0, Ms_set_bandwidth 8000000,
      Ms_set_sample_rate (g_sample_rate s), Ms_set_center_freq (g_center_freq s),
      Ms_set_tuner_gain_mode (g_gain_mode s), Ms_set_tuner_gain (g_gain s), Ms_reset_buffer]"

definition device_open_and_configure :: "(nat \<Rightarrow> bool \<times> int) \<Rightarrow> device_state \<Rightarrow> (int \<times> device_state) \<times> msisdr_call list" where
  "device_open_and_configure env s =
     (let dev = open_attempts 5 0 env (g_dev s); s' = s\<lparr>g_dev := dev\<rparr> in
      if dev = Null_handle then ((- 1, s'), []) else ((0, s'), configure_calls s'))"

text \<open>
  The reopening loop of \<open>usb_stream_thread\<close> after the stream has stopped: the device is closed, then ten
  rounds of attempts; \<open>env wait\<close> is \<open>g_stop\<close> before the round and the attempts of the round.
\<close>

fun reopen_rounds :: "nat \<Rightarrow> nat \<Rightarrow> (nat \<Rightarrow> bool \<times> (nat \<Rightarrow> bool \<times> int)) \<Rightarrow> device_state \<Rightarrow> device_state \<times> msisdr_call list" where
  "reopen_rounds 0 wait env s = (s, [])"
| "reopen_rounds (Suc left) wait env s =
     (if fst (env wait) then (s, [])
      else let ((code, s'), made) = device_open_and_configure (snd (env wait)) s
           in if code = 0 then (s', made) else reopen_rounds left (wait + 1) env (s'\<lparr>g_dev := Null_handle\<rparr>))"

definition reopen_device :: "(nat \<Rightarrow> bool \<times> (nat \<Rightarrow> bool \<times> int)) \<Rightarrow> device_state \<Rightarrow> device_state \<times> msisdr_call list" where
  "reopen_device env s = reopen_rounds 10 1 env (s\<lparr>g_dev := Null_handle\<rparr>)"

subsection \<open>Slots and threads\<close>

text \<open>
  \<open>slots\<close> holds \<open>sock\<close> of \<open>g_clients\<close>, \<open>None\<close> for \<open>-1\<close>; \<open>g_client_fds\<close> is always equal to it.  \<open>tids\<close> holds the
  thread handles, \<open>None\<close> for 0.  \<open>commanders\<close> are the command threads that run, each with its slot and its
  socket, \<open>sockets\<close> the client sockets that are open.
\<close>

record rtltcp_server =
  slots :: "nat option list"
  tids :: "nat option list"
  commanders :: "(nat \<times> nat \<times> nat) set"
  sockets :: "nat set"
  next_tid :: nat

definition empty_server :: rtltcp_server where
  "empty_server = \<lparr>slots = replicate MAX_CLIENTS None, tids = replicate MAX_CLIENTS None, commanders = {},
     sockets = {}, next_tid = 1\<rparr>"

fun find_free :: "nat \<Rightarrow> nat option list \<Rightarrow> nat option" where
  "find_free i [] = None"
| "find_free i (None # rest) = Some i"
| "find_free i (Some sock # rest) = find_free (Suc i) rest"

text \<open>
  A connection: closed again when no slot is free or the header cannot be written; otherwise it takes
  the first free slot and gets a thread.
\<close>

definition accept_client :: "nat \<Rightarrow> bool \<Rightarrow> rtltcp_server \<Rightarrow> rtltcp_server" where
  "accept_client csock header_ok s =
     (case find_free 0 (slots s) of
        None \<Rightarrow> s
      | Some slot \<Rightarrow>
          if \<not> header_ok then s
          else s\<lparr>slots := (slots s)[slot := Some csock], tids := (tids s)[slot := Some (next_tid s)],
            commanders := insert (next_tid s, slot, csock) (commanders s), sockets := insert csock (sockets s),
            next_tid := next_tid s + 1\<rparr>)"

text \<open>The end of a command thread: its socket is closed and its slot emptied.\<close>

definition client_left :: "nat \<times> nat \<times> nat \<Rightarrow> rtltcp_server \<Rightarrow> rtltcp_server" where
  "client_left t s = (case t of (tid, slot, sock) \<Rightarrow>
     s\<lparr>slots := (slots s)[slot := None], commanders := commanders s - {t}, sockets := sockets s - {sock}\<rparr>)"

definition broadcast_round :: "u8 list \<Rightarrow> (nat \<Rightarrow> send_result list) \<Rightarrow> rtltcp_server \<Rightarrow> rtltcp_server" where
  "broadcast_round buf env s = s\<lparr>slots := fst (broadcast_samples buf env 0 (slots s))\<rparr>"

inductive rstep :: "rtltcp_server \<Rightarrow> rtltcp_server \<Rightarrow> bool" where
  r_accept: "csock \<notin> sockets s \<Longrightarrow> rstep s (accept_client csock header_ok s)"
| r_broadcast: "rstep s (broadcast_round buf env s)"
| r_left: "t \<in> commanders s \<Longrightarrow> rstep s (client_left t s)"

text \<open>The steps of a run in which no \<open>send\<close> fails; a client that cannot follow loses data but stays.\<close>

inductive quiet_step :: "rtltcp_server \<Rightarrow> rtltcp_server \<Rightarrow> bool" where
  q_accept: "csock \<notin> sockets s \<Longrightarrow> quiet_step s (accept_client csock header_ok s)"
| q_broadcast: "(\<And>k. fst (send_loop buf (env k))) \<Longrightarrow> quiet_step s (broadcast_round buf env s)"
| q_left: "t \<in> commanders s \<Longrightarrow> quiet_step s (client_left t s)"

inductive_cases quiet_stepE: "quiet_step s s'"

subsection \<open>Shutdown\<close>

text \<open>The sockets \<open>on_signal\<close> shuts down, and the threads \<open>main\<close> joins before it returns.\<close>

definition on_signal :: "rtltcp_server \<Rightarrow> nat list" where
  "on_signal s = map the (filter (\<lambda>x. x \<noteq> None) (slots s))"

definition joined_threads :: "rtltcp_server \<Rightarrow> nat list" where
  "joined_threads s = map the (filter (\<lambda>x. x \<noteq> None) (tids s))"

text \<open>
  The shutdown ends when every joined thread ends, and a command thread ends when its socket was shut
  down.
\<close>

definition shutdown_returns :: "rtltcp_server \<Rightarrow> bool" where
  "shutdown_returns s \<longleftrightarrow>
     (\<forall>(tid, slot, sock) \<in> commanders s. tid \<in> set (joined_threads s) \<longrightarrow> sock \<in> set (on_signal s))"

end
