(* ===== verification/Device_Races.thy ===== *)
theory Device_Races
  imports Rtlsdr_Device Rtltcp_Server
begin

text \<open>
  A device that is closed by one thread while another uses it: \<open>rtlsdr_device_stop_rx\<close> against the reading
  thread in \<open>src/src/sdr/rtlsdr_device.c\<close>, and the reopening in \<open>usb_stream_thread\<close> against the commands of
  the clients in \<open>src/src/rtltcp_server.c\<close>.  The close functions of the libraries free the device, so that
  using it during or after the call is undefined, \<open>None\<close>.
\<close>

subsection \<open>The RTL driver\<close>

text \<open>
  \<open>rr_reading\<close>: the thread is inside \<open>rtlsdr_read_sync\<close>.  The pointer is \<open>Stale_handle\<close> between the close and
  the assignment that follows; a call with \<open>NULL\<close> fails and ends the loop.
\<close>

record rtl_race =
  rr_running :: bool
  rr_dev :: handle
  rr_reading :: bool
  rr_thread_ended :: bool

datatype rtl_event =
    Thread_starts
  | Thread_reads
  | Read_returns int
  | Stop_clears
  | Stop_closes
  | Stop_forgets

definition rtl_race_start :: rtl_race where
  "rtl_race_start = \<lparr>rr_running = False, rr_dev = Open_handle, rr_reading = False, rr_thread_ended = False\<rparr>"

fun rtl_race_step :: "rtl_event \<Rightarrow> rtl_race \<Rightarrow> rtl_race option" where
  "rtl_race_step Thread_starts s = Some (s\<lparr>rr_running := True\<rparr>)"
| "rtl_race_step Thread_reads s =
     (if rr_thread_ended s \<or> rr_reading s then Some s
      else if \<not> rr_running s then Some (s\<lparr>rr_thread_ended := True\<rparr>)
      else case rr_dev s of
        Null_handle \<Rightarrow> Some (s\<lparr>rr_thread_ended := True\<rparr>)
      | Stale_handle \<Rightarrow> None
      | Open_handle \<Rightarrow> Some (s\<lparr>rr_reading := True\<rparr>))"
| "rtl_race_step (Read_returns code) s =
     (if rr_reading s then Some (s\<lparr>rr_reading := False, rr_thread_ended := (code \<noteq> 0)\<rparr>) else Some s)"
| "rtl_race_step Stop_clears s = Some (s\<lparr>rr_running := False\<rparr>)"
| "rtl_race_step Stop_closes s =
     (if rr_reading s then None
      else case rr_dev s of Null_handle \<Rightarrow> Some s | Stale_handle \<Rightarrow> None | Open_handle \<Rightarrow> Some (s\<lparr>rr_dev := Stale_handle\<rparr>))"
| "rtl_race_step Stop_forgets s = Some (s\<lparr>rr_dev := Null_handle\<rparr>)"

fun rtl_race_run :: "rtl_event list \<Rightarrow> rtl_race \<Rightarrow> rtl_race option" where
  "rtl_race_run [] s = Some s"
| "rtl_race_run (e # es) s = Option.bind (rtl_race_step e s) (rtl_race_run es)"

text \<open>
  A stop while the thread waits for samples, the usual case, closes the device under the call.  A stop
  before the thread has run leaves \<open>running\<close> set, as the thread sets it itself: only the failing read of
  the closed device ends the loop.
\<close>

lemma rtl_stop_closes_under_read:
  "rtl_race_run [Thread_starts, Thread_reads, Stop_clears, Stop_closes] rtl_race_start = None"
  by (simp add: rtl_race_start_def)

lemma rtl_early_stop_undone:
  "\<exists>s. rtl_race_run [Stop_clears, Stop_closes, Stop_forgets, Thread_starts] rtl_race_start = Some s \<and>
    rr_running s \<and> \<not> rr_thread_ended s \<and> (\<exists>s'. rtl_race_step Thread_reads s = Some s' \<and> rr_thread_ended s')"
  by (simp add: rtl_race_start_def)

text \<open>When the read has returned before the close, and no other begins, the stop is defined.\<close>

lemma rtl_stop_between_reads:
  "rr_reading s = False \<Longrightarrow> rr_dev s \<noteq> Stale_handle \<Longrightarrow>
    \<exists>s'. rtl_race_run [Stop_clears, Stop_closes, Stop_forgets, Thread_reads] s = Some s' \<and> rr_thread_ended s' \<and> rr_dev s' = Null_handle"
  by (cases "rr_dev s") auto

subsection \<open>The rtl_tcp server\<close>

text \<open>
  The stream thread closes, forgets and reopens; a command tests \<open>g_dev.dev\<close> and reads it again for the
  call.  The second component tells that the test has succeeded.
\<close>

datatype g_dev_event = Reopen_closes | Reopen_forgets | Reopen_opens bool | Command_tests | Command_calls

fun g_dev_step :: "g_dev_event \<Rightarrow> device_state \<times> bool \<Rightarrow> (device_state \<times> bool) option" where
  "g_dev_step Reopen_closes (s, t) =
     (case g_dev s of Null_handle \<Rightarrow> Some (s, t) | Stale_handle \<Rightarrow> None | Open_handle \<Rightarrow> Some (s\<lparr>g_dev := Stale_handle\<rparr>, t))"
| "g_dev_step Reopen_forgets (s, t) = Some (s\<lparr>g_dev := Null_handle\<rparr>, t)"
| "g_dev_step (Reopen_opens ok) (s, t) = Some (s\<lparr>g_dev := if ok then Open_handle else Null_handle\<rparr>, t)"
| "g_dev_step Command_tests (s, t) = Some (s, g_dev s \<noteq> Null_handle)"
| "g_dev_step Command_calls (s, t) = (if t \<and> g_dev s = Stale_handle then None else Some (s, False))"

fun g_dev_run :: "g_dev_event list \<Rightarrow> device_state \<times> bool \<Rightarrow> (device_state \<times> bool) option" where
  "g_dev_run [] s = Some s"
| "g_dev_run (e # es) s = Option.bind (g_dev_step e s) (g_dev_run es)"

text \<open>
  While the device is being closed the test of a command succeeds on the pointer of the freed device;
  and a device that is forgotten between test and call makes the call with \<open>NULL\<close>.
\<close>

lemma command_uses_freed_device:
  "g_dev s = Open_handle \<Longrightarrow> g_dev_run [Reopen_closes, Command_tests, Command_calls] (s, False) = None"
  by simp

text \<open>With the close and the assignment as one step no command meets a freed device.\<close>

lemma command_defined_when_atomic:
  assumes "g_dev s \<noteq> Stale_handle" "Reopen_closes \<notin> set es"
  shows "g_dev_run es (s, t) \<noteq> None"
  using assms
proof (induction es arbitrary: s t)
  case (Cons e es)
  then show ?case by (cases e) auto
qed simp

end
