(* ===== verification/Rtltcp_Properties.thy ===== *)
theory Rtltcp_Properties
  imports Rtltcp_Server
begin

text \<open>
  The settings of the rtl_tcp server follow the commands, the clients that are connected are those that
  get samples, and the shutdown waits for threads that can end; what a failing \<open>send\<close> does to the last two.
\<close>

subsection \<open>What the device was told\<close>

record hardware =
  h_freq :: u32
  h_rate :: u32
  h_mode :: int
  h_gain :: int

fun apply_call :: "msisdr_call \<Rightarrow> hardware \<Rightarrow> hardware" where
  "apply_call (Ms_set_center_freq f) h = h\<lparr>h_freq := f\<rparr>"
| "apply_call (Ms_set_sample_rate r) h = h\<lparr>h_rate := r\<rparr>"
| "apply_call (Ms_set_tuner_gain_mode m) h = h\<lparr>h_mode := m\<rparr>"
| "apply_call (Ms_set_tuner_gain g) h = h\<lparr>h_gain := g\<rparr>"
| "apply_call c h = h"

definition hardware_after :: "msisdr_call list \<Rightarrow> hardware \<Rightarrow> hardware" where
  "hardware_after made h = fold apply_call made h"

lemma hardware_after_simps [simp]:
  "hardware_after [] h = h" "hardware_after (c # made) h = hardware_after made (apply_call c h)"
  "hardware_after (made @ made') h = hardware_after made' (hardware_after made h)"
  by (simp_all add: hardware_after_def)

datatype control_event = Command "u8 \<times> u32" | Reopen "nat \<Rightarrow> bool \<times> (nat \<Rightarrow> bool \<times> int)"

fun control_step :: "control_event \<Rightarrow> device_state \<Rightarrow> device_state \<times> msisdr_call list" where
  "control_step (Command c) s = handle_command c s"
| "control_step (Reopen env) s = reopen_device env s"

fun run_control :: "control_event list \<Rightarrow> device_state \<Rightarrow> device_state \<times> msisdr_call list" where
  "run_control [] s = (s, [])"
| "run_control (e # es) s = (let (s1, made) = control_step e s; (s2, made') = run_control es s1 in (s2, made @ made'))"

definition in_step :: "u32 \<Rightarrow> device_state \<Rightarrow> hardware \<Rightarrow> bool" where
  "in_step rate0 s h \<longleftrightarrow>
     (g_dev s \<noteq> Null_handle \<longrightarrow> h_freq h = g_center_freq s \<and> h_rate h = g_sample_rate s \<and> h_mode h = g_gain_mode s) \<and>
     (g_sample_rate s = rate0 \<or> 1300000 \<le> g_sample_rate s \<and> g_sample_rate s \<le> 15000000)"

lemma clamp_rate_bounds: "1300000 \<le> clamp_rate p \<and> clamp_rate p \<le> 15000000"
  by (auto simp: clamp_rate_def Let_def not_less)

lemma configured:
  obtains dev where "device_open_and_configure env s = ((0, s\<lparr>g_dev := dev\<rparr>), configure_calls s)" "dev \<noteq> Null_handle"
    | "device_open_and_configure env s = ((- 1, s\<lparr>g_dev := Null_handle\<rparr>), [])"
proof (cases "open_attempts 5 0 env (g_dev s) = Null_handle")
  case True
  then show ?thesis using that(2) by (simp add: device_open_and_configure_def)
next
  case False
  then show ?thesis using that(1) by (simp add: device_open_and_configure_def configure_calls_def Let_def)
qed

lemma configure_hardware:
  "hardware_after (configure_calls s) h =
    \<lparr>h_freq = g_center_freq s, h_rate = g_sample_rate s, h_mode = g_gain_mode s, h_gain = g_gain s\<rparr>"
  by (simp add: configure_calls_def)

lemma in_step_command:
  assumes "in_step r s h" "handle_command c s = (s', made)"
  shows "in_step r s' (hardware_after made h)"
  using assms clamp_rate_bounds [of "snd c"]
  by (cases c) (auto simp: handle_command_def in_step_def Let_def split: if_splits)

lemma in_step_reopen_rounds:
  assumes "in_step r s h" "g_dev s = Null_handle" "reopen_rounds n wait env s = (s', made)"
  shows "in_step r s' (hardware_after made h)"
  using assms
proof (induction n wait env s arbitrary: s' made rule: reopen_rounds.induct)
  case (2 left wait env s)
  show ?case
  proof (cases "fst (env wait)")
    case True
    with 2 show ?thesis by simp
  next
    case False
    show ?thesis
    proof (rule configured [of "snd (env wait)" s])
      fix dev assume "device_open_and_configure (snd (env wait)) s = ((0, s\<lparr>g_dev := dev\<rparr>), configure_calls s)"
      with False 2 show ?thesis by (auto simp: configure_hardware in_step_def)
    next
      assume o': "device_open_and_configure (snd (env wait)) s = ((- 1, s\<lparr>g_dev := Null_handle\<rparr>), [])"
      have "in_step r (s\<lparr>g_dev := Null_handle\<rparr>) h" using 2(2) by (simp add: in_step_def)
      with 2(1) [OF False o' [symmetric] refl] False 2(4) o' show ?thesis by simp
    qed
  qed
qed simp

lemma in_step_reopen:
  assumes "in_step r s h" "reopen_device env s = (s', made)"
  shows "in_step r s' (hardware_after made h)"
  using assms in_step_reopen_rounds [of r "s\<lparr>g_dev := Null_handle\<rparr>" h] by (simp add: reopen_device_def in_step_def)

lemma in_step_run:
  "in_step r s h \<Longrightarrow> run_control es s = (s', made) \<Longrightarrow> in_step r s' (hardware_after made h)"
proof (induction es arbitrary: s h made)
  case (Cons e es)
  obtain s1 made1 where "control_step e s = (s1, made1)" by (metis surj_pair)
  moreover obtain s2 made2 where "run_control es s1 = (s2, made2)" by (metis surj_pair)
  moreover have "in_step r s1 (hardware_after made1 h)"
    using calculation(1) Cons.prems(1) by (cases e) (auto intro: in_step_command in_step_reopen)
  ultimately show ?case using Cons by auto
qed simp

subsection \<open>Clients and threads\<close>

text \<open>
  Every running thread is the one of its slot, every filled slot has a thread, no slot and no socket
  has two.
\<close>

definition slot_inv :: "rtltcp_server \<Rightarrow> bool" where
  "slot_inv s \<longleftrightarrow> length (slots s) = MAX_CLIENTS \<and> length (tids s) = MAX_CLIENTS \<and>
     (\<forall>t i k. (t, i, k) \<in> commanders s \<longrightarrow> i < MAX_CLIENTS \<and> slots s ! i = Some k \<and> tids s ! i = Some t \<and> t < next_tid s) \<and>
     (\<forall>i k. i < MAX_CLIENTS \<longrightarrow> slots s ! i = Some k \<longrightarrow> (\<exists>t. (t, i, k) \<in> commanders s)) \<and>
     (\<forall>t i k t' i'. (t, i, k) \<in> commanders s \<longrightarrow> (t', i', k) \<in> commanders s \<longrightarrow> i = i') \<and>
     sockets s = (snd \<circ> snd) ` commanders s"

lemma slot_invI:
  assumes "length (slots s) = MAX_CLIENTS" "length (tids s) = MAX_CLIENTS"
    and "\<And>t i k. (t, i, k) \<in> commanders s \<Longrightarrow> i < MAX_CLIENTS \<and> slots s ! i = Some k \<and> tids s ! i = Some t \<and> t < next_tid s"
    and "\<And>i k. i < MAX_CLIENTS \<Longrightarrow> slots s ! i = Some k \<Longrightarrow> \<exists>t. (t, i, k) \<in> commanders s"
    and "\<And>t i k t' i'. (t, i, k) \<in> commanders s \<Longrightarrow> (t', i', k) \<in> commanders s \<Longrightarrow> i = i'"
    and "sockets s = (snd \<circ> snd) ` commanders s"
  shows "slot_inv s"
  using assms unfolding slot_inv_def by blast

lemma slot_invD:
  assumes "slot_inv s"
  shows "length (slots s) = MAX_CLIENTS" "length (tids s) = MAX_CLIENTS"
    and "\<And>t i k. (t, i, k) \<in> commanders s \<Longrightarrow> i < MAX_CLIENTS \<and> slots s ! i = Some k \<and> tids s ! i = Some t \<and> t < next_tid s"
    and "\<And>i k. i < MAX_CLIENTS \<Longrightarrow> slots s ! i = Some k \<Longrightarrow> \<exists>t. (t, i, k) \<in> commanders s"
    and "\<And>t i k t' i'. (t, i, k) \<in> commanders s \<Longrightarrow> (t', i', k) \<in> commanders s \<Longrightarrow> i = i'"
    and "sockets s = (snd \<circ> snd) ` commanders s"
  using assms unfolding slot_inv_def by blast+

lemma empty_slots [simp]: "replicate MAX_CLIENTS x = [x, x, x, x]"
  by (simp add: MAX_CLIENTS_def numeral_eq_Suc)

lemma empty_inv: "slot_inv empty_server"
  by (rule slot_invI) (simp_all add: empty_server_def MAX_CLIENTS_def)

lemma find_free_some: "find_free j xs = Some i \<Longrightarrow> j \<le> i \<and> i - j < length xs \<and> xs ! (i - j) = None"
proof (induction j xs rule: find_free.induct)
  case (3 j k rest)
  then have "Suc j \<le> i" "i - Suc j < length rest" "rest ! (i - Suc j) = None" by auto
  moreover from this have "i - j = Suc (i - Suc j)" by simp
  ultimately show ?case by simp
qed auto

lemma accept_inv:
  assumes inv: "slot_inv s" and fresh: "csock \<notin> sockets s"
  shows "slot_inv (accept_client csock header_ok s)"
proof (cases "find_free 0 (slots s) = None \<or> \<not> header_ok")
  case True
  then show ?thesis using inv by (auto simp: accept_client_def split: option.splits)
next
  case False
  then obtain slot where f: "find_free 0 (slots s) = Some slot" and header_ok by auto
  note D = slot_invD [OF inv]
  have slot: "slot < MAX_CLIENTS" "slots s ! slot = None" using find_free_some [OF f] D(1) by auto
  have new: "i \<noteq> slot" "k \<noteq> csock" if "(t, i, k) \<in> commanders s" for t i k
    using D(3) [OF that] slot fresh that D(6) by force+
  have a: "accept_client csock header_ok s = s\<lparr>slots := (slots s)[slot := Some csock],
      tids := (tids s)[slot := Some (next_tid s)], commanders := insert (next_tid s, slot, csock) (commanders s),
      sockets := insert csock (sockets s), next_tid := next_tid s + 1\<rparr>"
    using f \<open>header_ok\<close> by (simp add: accept_client_def)
  show ?thesis unfolding a
  proof (rule slot_invI, goal_cases)
    case (3 t i k)
    then show ?case using D(1,2) D(3) [of t i k] slot new(1) [of t i k] by auto
  next
    case (4 i k)
    then show ?case using D(1,4) slot by (cases "i = slot") auto
  next
    case (5 t i k t' i')
    then show ?case using D(5) [of t i k t' i'] new(2) [of t i] new(2) [of t' i'] by auto
  next
    case 6
    then show ?case using D(6) by simp
  qed (use D(1,2) in simp_all)
qed

lemma quiet_broadcast:
  assumes "\<And>k. fst (send_loop buf (env k))"
  shows "fst (broadcast_samples buf env i xs) = xs"
  by (rule nth_equalityI) (use assms in \<open>auto simp: broadcast_length broadcast_nth split: option.splits\<close>)

lemma left_inv:
  assumes inv: "slot_inv s" and t: "t \<in> commanders s"
  shows "slot_inv (client_left t s)"
proof -
  obtain tid slot sock where t_eq: "t = (tid, slot, sock)" by (cases t)
  note D = slot_invD [OF inv]
  have mine: "slot < MAX_CLIENTS" "slots s ! slot = Some sock" "tids s ! slot = Some tid"
    using D(3) t t_eq by auto
  have uniq: "(t', slot, k) = t" if "(t', slot, k) \<in> commanders s" for t' k
    using D(3) [OF that] mine t_eq by simp
  have uniq': "(t', i, sock) = t" if "(t', i, sock) \<in> commanders s" for t' i
    using D(5) [OF that, of tid slot] D(3) [OF that] t t_eq mine by simp
  show ?thesis
  proof (rule slot_invI, goal_cases)
    case (3 t' i k)
    then show ?case using D(1) D(3) [of t' i k] uniq [of t' k]
      by (cases "i = slot") (auto simp: client_left_def t_eq)
  next
    case (4 i k)
    then show ?case using D(1) D(4) [of i k] mine(1) by (cases "i = slot") (auto simp: client_left_def t_eq)
  next
    case (5 t' i k t'' i')
    then show ?case using D(5) by (auto simp: client_left_def t_eq)
  next
    case 6
    have "(snd \<circ> snd) ` (commanders s - {t}) = (snd \<circ> snd) ` commanders s - {sock}"
      using uniq' by (force simp: t_eq)
    then show ?case using D(6) by (simp add: client_left_def t_eq)
  qed (use D(1,2) in \<open>simp_all add: client_left_def t_eq\<close>)
qed

lemma quiet_step_inv: "quiet_step s s' \<Longrightarrow> slot_inv s \<Longrightarrow> slot_inv s'"
  by (erule quiet_stepE) (auto simp: accept_inv left_inv broadcast_round_def quiet_broadcast)

lemma quiet_inv: "quiet_step\<^sup>*\<^sup>* empty_server s \<Longrightarrow> slot_inv s"
  by (induction rule: rtranclp_induct) (auto intro: empty_inv quiet_step_inv)

lemma on_signal_slots: "k \<in> set (on_signal s) \<longleftrightarrow> Some k \<in> set (slots s)"
  by (force simp: on_signal_def)

lemma joined_threads_tids: "t \<in> set (joined_threads s) \<longleftrightarrow> Some t \<in> set (tids s)"
  by (force simp: joined_threads_def)

lemma slots_bounded:
  assumes "slot_inv s"
  shows "card (commanders s) \<le> MAX_CLIENTS"
proof -
  note D = slot_invD [OF assms]
  have "inj_on (fst \<circ> snd) (commanders s)"
  proof (rule inj_onI, clarsimp)
    fix t i k t' k' assume "(t, i, k) \<in> commanders s" "(t', i, k') \<in> commanders s"
    with D(3) [of t i k] D(3) [of t' i k'] show "t = t' \<and> k = k'" by simp
  qed
  then have "card (commanders s) \<le> card {..<MAX_CLIENTS}"
    by (rule card_inj_on_le) (use D(3) in force)+
  then show ?thesis by simp
qed

text \<open>The shutdown joins the thread of every client, and every one of them can end.\<close>

lemma slots_joined:
  assumes "slot_inv s"
  shows "fst ` commanders s \<subseteq> set (joined_threads s) \<and> shutdown_returns s"
proof -
  note D = slot_invD [OF assms]
  have "Some t \<in> set (tids s) \<and> Some k \<in> set (slots s)" if "(t, i, k) \<in> commanders s" for t i k
    using D(1,2) D(3) [OF that] by (metis nth_mem)
  then show ?thesis by (auto simp: shutdown_returns_def on_signal_slots joined_threads_tids)
qed

subsection \<open>Properties\<close>



text \<open>A gain set in automatic mode is lost.  When a client sets the gain while the gain mode is
  automatic and then switches to manual, the server has the new gain but the device was only told the
  modes: it keeps the gain it had.\<close>

theorem gain_in_auto_mode_is_lost:
  assumes "g_dev s \<noteq> Null_handle"
  shows "handle_commands [(0x08, 1), (0x04, p), (0x08, 0)] s =
      (s\<lparr>g_gain_mode := 1, g_gain := sint (p div 10)\<rparr>, [Ms_set_tuner_gain_mode 0, Ms_set_tuner_gain_mode 1]) \<and>
    h_gain (hardware_after (snd (handle_commands [(0x08, 1), (0x04, p), (0x08, 0)] s)) h) = h_gain h"
  using assms by (simp add: handle_command_def)

theorem gain_in_auto_mode_is_lost_witness:
  "g_gain (fst (handle_commands [(0x08, 1), (0x04, 250), (0x08, 0)] (default_state\<lparr>g_dev := Open_handle\<rparr>))) = 25 \<and>
    h_gain (hardware_after (snd (handle_commands [(0x08, 1), (0x04, 250), (0x08, 0)] (default_state\<lparr>g_dev := Open_handle\<rparr>)))
      (\<lparr>h_freq = 0, h_rate = 0, h_mode = 0, h_gain = 40\<rparr>)) = 40"
  using gain_in_auto_mode_is_lost [of "default_state\<lparr>g_dev := Open_handle\<rparr>" 250] by simp





end
