(* ===== verification/Rtltcp_Main.thy ===== *)
theory Rtltcp_Main
  imports Rtltcp_Properties
begin

text \<open>
  The threads of the rtl_tcp server as wholes: \<open>usb_stream_thread\<close>, the signal handler and \<open>main\<close> of
  \<open>src/src/rtltcp_server.c\<close>, with the start of the listening socket, the accept loop and the end.
\<close>

subsection \<open>The stream thread\<close>

text \<open>
  A turn of the loop: \<open>g_stop\<close> before it, \<open>g_stop\<close> when \<open>msisdr_read_async\<close> has returned, and the
  environment of the reopening.  Both averages are reset before the read; the result counts the resets.
\<close>

fun usb_stream_thread :: "(bool \<times> bool \<times> (nat \<Rightarrow> bool \<times> (nat \<Rightarrow> bool \<times> int))) list \<Rightarrow> device_state
    \<Rightarrow> (nat \<times> device_state) \<times> msisdr_call list" where
  "usb_stream_thread [] s = ((0, s), [])"
| "usb_stream_thread ((stop_before, stop_after, env) # turns) s =
     (if stop_before then ((0, s), [])
      else if stop_after then ((1, s), [])
      else
        let (s1, made) = reopen_device env s; ((resets, s2), made') = usb_stream_thread turns s1
        in ((Suc resets, s2), made @ made'))"

subsection \<open>The signal handler\<close>

datatype signal_action = Set_stop | Cancel_async | Shutdown_fd nat | Close_listener nat

text \<open>The actions in their order, and the new value of \<open>g_lsock_for_signal\<close>.\<close>

definition signal_actions :: "handle \<Rightarrow> rtltcp_server \<Rightarrow> nat option \<Rightarrow> signal_action list \<times> nat option" where
  "signal_actions dev s lsock =
     ([Set_stop] @ (if dev \<noteq> Null_handle then [Cancel_async] else []) @ map Shutdown_fd (on_signal s) @
        (case lsock of None \<Rightarrow> [] | Some l \<Rightarrow> [Close_listener l]), None)"

text \<open>However many signals come, the listening socket is closed once.\<close>

lemma listener_closed_once:
  assumes "signal_actions dev s (Some l) = (acts, lsock')" "signal_actions dev' s' lsock' = (acts', lsock'')"
  shows "Close_listener l \<in> set acts \<and> (\<forall>k. Close_listener k \<notin> set acts')"
  using assms by (auto simp: signal_actions_def)

subsection \<open>The start of \<open>main\<close>\<close>

record rtltcp_start_env =
  rs_socket :: int
  rs_bind :: "u16 \<Rightarrow> int"
  rs_listen :: int
  rs_open :: "nat \<Rightarrow> bool \<times> int"

text \<open>
  The listening socket on the low 16 bits of the port: the exit status or the socket, and the descriptors
  that are open then.
\<close>

definition open_listener :: "int \<Rightarrow> rtltcp_start_env \<Rightarrow> (int + int) \<times> int set" where
  "open_listener port_option env =
     (if rs_socket env < 0 then (Inl 1, {})
      else if rs_bind env (word_of_int port_option) < 0 then (Inl 1, {rs_socket env})
      else if rs_listen env < 0 then (Inl 1, {rs_socket env})
      else (Inr (rs_socket env), {rs_socket env}))"

text \<open>The device is opened after it; when that fails the socket is closed.  The calls of the device are recorded.\<close>

definition open_first_time :: "int \<Rightarrow> rtltcp_start_env \<Rightarrow> device_state \<Rightarrow> ((int + int \<times> device_state) \<times> int set) \<times> msisdr_call list" where
  "open_first_time lsock env s =
     (let ((code, s'), made) = device_open_and_configure (rs_open env) s in
      if code < 0 then ((Inl 1, {}), made) else ((Inr (lsock, s'), {lsock}), made))"

definition rtltcp_start :: "cli_option list \<Rightarrow> rtltcp_start_env \<Rightarrow> ((int + int \<times> device_state) \<times> int set) \<times> msisdr_call list" where
  "rtltcp_start opts env =
     (case parse_options opts default_settings of
        None \<Rightarrow> ((Inl 1, {}), [])
      | Some c \<Rightarrow>
          (case open_listener (cli_port c) env of
             (Inl code, left) \<Rightarrow> ((Inl code, left), [])
           | (Inr lsock, left) \<Rightarrow> open_first_time lsock env (cli_state c)))"

text \<open>The server starts with a listening socket and a configured device, or ends with status 1.\<close>

lemma rtltcp_start_outcome:
  assumes "rtltcp_start opts env = ((r, left), made)"
  shows "(\<exists>l s. r = Inr (l, s) \<and> left = {l} \<and> 0 \<le> l \<and> g_dev s \<noteq> Null_handle \<and> made = configure_calls s) \<or> r = Inl 1"
proof -
  have first: "(\<exists>l' s'. x = Inr (l', s') \<and> y = {l'} \<and> l' = l \<and> g_dev s' \<noteq> Null_handle \<and> z = configure_calls s') \<or> x = Inl 1"
    if "open_first_time l env s = ((x, y), z)" for l s x y z
    by (rule configured [of "rs_open env" s]) (use that in \<open>auto simp: open_first_time_def configure_calls_def\<close>)
  show ?thesis
    using assms by (auto simp: rtltcp_start_def open_listener_def split: option.splits sum.splits prod.splits if_splits dest!: first)
qed

subsection \<open>The accept loop\<close>

definition EBADF :: int where "EBADF = 9"
definition EINVAL :: int where "EINVAL = 22"

datatype accept_result = Accepted nat bool | Accept_failed int

text \<open>
  A turn: \<open>g_stop\<close> before it, the result of \<open>accept\<close>, and \<open>g_stop\<close> when it has returned.  The result tells
  whether the loop was left.
\<close>

fun accept_loop :: "(bool \<times> accept_result \<times> bool) list \<Rightarrow> rtltcp_server \<Rightarrow> bool \<times> rtltcp_server" where
  "accept_loop [] s = (False, s)"
| "accept_loop ((stop_before, result, stop_after) # turns) s =
     (if stop_before then (True, s)
      else case result of
        Accept_failed errno \<Rightarrow>
          (if stop_after \<or> errno = EINTR \<or> errno = EBADF \<or> errno = EINVAL then (True, s) else accept_loop turns s)
      | Accepted csock header_ok \<Rightarrow> accept_loop turns (accept_client csock header_ok s))"

text \<open>The sockets a turn brings; the kernel gives descriptors that are not open.\<close>

definition new_sockets :: "(bool \<times> accept_result \<times> bool) list \<Rightarrow> nat list" where
  "new_sockets turns = concat (map (\<lambda>(_, result, _). case result of Accepted k _ \<Rightarrow> [k] | Accept_failed _ \<Rightarrow> []) turns)"

lemma new_sockets_simps [simp]:
  "new_sockets [] = []"
  "new_sockets ((b, Accepted k h, e) # turns) = k # new_sockets turns"
  "new_sockets ((b, Accept_failed n, e) # turns) = new_sockets turns"
  by (simp_all add: new_sockets_def)

lemma accept_client_sockets: "sockets (accept_client k h s) \<subseteq> insert k (sockets s)"
  by (auto simp: accept_client_def split: option.splits)

text \<open>The loop is a run of accepting steps, so that the invariants of the slots apply to it.\<close>

lemma accept_loop_quiet:
  assumes "distinct (new_sockets turns)" "set (new_sockets turns) \<inter> sockets s = {}" "accept_loop turns s = (left, s')"
  shows "quiet_step\<^sup>*\<^sup>* s s'"
  using assms
proof (induction turns s arbitrary: s' rule: accept_loop.induct)
  case (2 stop_before result stop_after turns s)
  show ?case
  proof (cases "stop_before")
    case True
    with 2 show ?thesis by simp
  next
    case False
    show ?thesis
    proof (cases result)
      case (Accepted k h)
      with 2 have "k \<notin> sockets s" by auto
      then have step: "quiet_step s (accept_client k h s)" by (rule q_accept)
      have "quiet_step\<^sup>*\<^sup>* (accept_client k h s) s'"
        using 2(1) [OF False Accepted] 2(3-5) False Accepted accept_client_sockets [of k h s] by auto
      with step show ?thesis by (rule converse_rtranclp_into_rtranclp)
    next
      case (Accept_failed errno)
      with 2 False show ?thesis by (auto split: if_splits)
    qed
  qed
qed simp

text \<open>The loop ends with the first turn whose \<open>accept\<close> fails after a signal, whatever came before.\<close>

lemma accept_loop_ends: "fst (accept_loop (turns @ [(stop, Accept_failed EBADF, stop')]) s)"
  by (induction turns s rule: accept_loop.induct) (auto split: accept_result.splits)

subsection \<open>What a signal and a departure miss\<close>

text \<open>
  The handler reads the table of the slots.  A signal between the return of \<open>accept\<close> and the entry of
  the socket shuts down the other clients only: the thread of the new one is joined and waits for its peer.
\<close>

lemma signal_misses_accepted_client:
  "let s = accept_client 6 True (accept_client 5 True empty_server);
       acts = fst (signal_actions Open_handle (accept_client 5 True empty_server) (Some 3))
   in (\<exists>t. (t, 1, 6) \<in> commanders s \<and> t \<in> set (joined_threads s)) \<and> Shutdown_fd 5 \<in> set acts \<and> Shutdown_fd 6 \<notin> set acts"
  by (simp add: accept_client_def empty_server_def signal_actions_def on_signal_slots joined_threads_tids image_iff)

text \<open>
  The thread of a client that has left is joined only at the end and only while its slot is not taken
  again: the handle is lost with the next client of the slot.
\<close>

lemma departed_thread_is_lost:
  "let s = client_left (1, 0, 5) (accept_client 5 True empty_server)
   in commanders s = {} \<and> 1 \<in> set (joined_threads s) \<and> 1 \<notin> set (joined_threads (accept_client 6 True s))"
  by (simp add: accept_client_def client_left_def empty_server_def joined_threads_tids)

subsection \<open>From the start to the end\<close>



end
