(* ===== verification/Rtltcp_Stream.thy ===== *)
theory Rtltcp_Stream
  imports Rtltcp_Samples Lpf_Properties
begin

text \<open>
  The stream of an rtl_tcp client over many callbacks: a client that keeps up gets every corrected
  sample; what a partial \<open>send\<close> does to the pairs; how fast the constant component goes away.
\<close>

subsection \<open>Blocks\<close>

lemma remove_dc_append:
  "even (length xs) \<Longrightarrow> remove_dc F C ai aq (xs @ ys) = do {
     (xs', ai', aq') \<leftarrow> remove_dc F C ai aq xs;
     (ys', avgs) \<leftarrow> remove_dc F C ai' aq' ys;
     Some (xs' @ ys', avgs) }"
proof (induction F C ai aq xs rule: remove_dc.induct)
  case (1 F C ai aq si sq samples)
  then show ?case
    by (cases "dc_correct F C (dc_average F C ai si) si"; cases "dc_correct F C (dc_average F C aq sq) sq")
      (auto simp: Let_def split: bind_splits)
qed auto

lemma length_as_int16: "length (as_int16 e bs) = length bs div 2"
  by (induction e bs rule: as_int16.induct) auto

lemma remove_dc_length: "remove_dc F C ai aq xs = Some (ys, avgs) \<Longrightarrow> length ys = length xs"
proof (induction F C ai aq xs arbitrary: ys avgs rule: remove_dc.induct)
  case (1 F C ai aq si sq samples)
  then show ?case by (auto simp: Let_def split: bind_splits)
qed auto

definition keeps_up :: "send_result list \<Rightarrow> bool" where
  "keeps_up evs = list_all (\<lambda>r. case r of Took n \<Rightarrow> 0 < n | _ \<Rightarrow> False) evs"

lemma keeps_up_all: "keeps_up evs \<Longrightarrow> send_loop bs evs = (True, bs)"
  by (induction bs evs rule: send_loop.induct) (auto simp: keeps_up_def)

definition whole_block :: "u8 list \<Rightarrow> bool" where
  "whole_block buf \<longleftrightarrow> length buf mod 4 = 0 \<and> length buf \<le> 2 * U8BUF_MAX"

lemma whole_block_samples:
  assumes "whole_block buf"
  shows "even (length (as_int16 e buf))" "length (as_int16 e buf) \<le> U8BUF_MAX"
  using assms unfolding whole_block_def length_as_int16 by presburger+

lemma callback_defined:
  assumes "remove_dc F C (fst avgs) (snd avgs) (as_int16 e buf) = Some (samples, avgs')"
  shows "msisdr_callback F C e False buf env (avgs, xs) = Some (False,
    (avgs', fst (broadcast_samples (convert_samples samples) env 0 xs)), snd (broadcast_samples (convert_samples samples) env 0 xs))"
  using assms by (cases avgs) (simp add: msisdr_callback_def split: prod.splits)

lemma callback_undefined:
  assumes "remove_dc F C (fst avgs) (snd avgs) (as_int16 e buf) = None"
  shows "msisdr_callback F C e False buf env (avgs, xs) = None"
  using assms by (cases avgs) (simp add: msisdr_callback_def)

lemma callback_slot:
  assumes "msisdr_callback F C e False buf env (avgs, xs) = Some (cancelled, (avgs', xs'), sent)"
  shows "\<exists>samples. remove_dc F C (fst avgs) (snd avgs) (as_int16 e buf) = Some (samples, avgs') \<and>
    xs' = fst (broadcast_samples (convert_samples samples) env 0 xs) \<and> sent = snd (broadcast_samples (convert_samples samples) env 0 xs)"
proof (cases "remove_dc F C (fst avgs) (snd avgs) (as_int16 e buf)")
  case None
  with callback_undefined [OF None] assms show ?thesis by simp
next
  case (Some r)
  then obtain samples avgs1 where "remove_dc F C (fst avgs) (snd avgs) (as_int16 e buf) = Some (samples, avgs1)" by (cases r) auto
  with callback_defined [OF this] assms show ?thesis by simp
qed

lemma run_callbacks_length:
  "run_callbacks F C e rounds (avgs, xs) = Some ((avgs', xs'), sents) \<Longrightarrow> length xs' = length xs \<and> length sents = length xs"
proof (induction rounds arbitrary: avgs xs sents)
  case (Cons r rounds)
  obtain buf env where r: "r = (buf, env)" by (cases r)
  with Cons.prems obtain c avgs1 xs1 sent sents' where
    c: "msisdr_callback F C e False buf env (avgs, xs) = Some (c, (avgs1, xs1), sent)" and
    rest: "run_callbacks F C e rounds (avgs1, xs1) = Some ((avgs', xs'), sents')" "sents = map2 (@) sent sents'"
    by (auto split: bind_splits)
  from callback_slot [OF c] have "length xs1 = length xs" "length sent = length xs" by (auto simp: broadcast_length)
  with Cons.IH [OF rest(1)] rest(2) show ?case by simp
qed auto

subsection \<open>A client that keeps up\<close>

lemma demo_samples: "to_i16 256 = 256" "to_i16 512 = 512"
  by (rule to_i16_id, simp add: in_i16_def)+


subsection \<open>Exact arithmetic\<close>

text \<open>The conversion of a real number truncates towards zero.\<close>

definition truncated :: "real \<Rightarrow> int" where
  "truncated x = (if 0 \<le> x then \<lfloor>x\<rfloor> else \<lceil>x\<rceil>)"

definition real_dc :: "real dc_ops" where
  "real_dc = \<lparr>dc_keep = 998 / 1000, dc_new = 2 / 1000,
     dc_to_i32 = \<lambda>x. if - 2147483648 \<le> x \<and> x \<le> 2147483647 then Some (truncated x) else None\<rparr>"

lemma truncated_bounds: "- 32768 \<le> x \<Longrightarrow> x \<le> 32767 \<Longrightarrow> - 32768 \<le> truncated x \<and> truncated x \<le> 32767"
  unfolding truncated_def by (cases "0 \<le> x"; simp; linarith)

lemma truncated_small: "\<bar>x\<bar> < 1 \<Longrightarrow> truncated x = 0"
  unfolding truncated_def by (cases "0 \<le> x"; simp; linarith)

lemma shrunk:
  fixes c a :: real
  assumes "- 32768 \<le> c" "c \<le> 32767" "0 \<le> a" "a \<le> 1"
  shows "- 32768 \<le> c * a" "c * a \<le> 32767"
proof -
  have "\<bar>c * a\<bar> \<le> \<bar>c\<bar>" using assms(3,4) by (simp add: abs_mult mult_left_le)
  moreover have "0 \<le> c \<Longrightarrow> 0 \<le> c * a" "c \<le> 0 \<Longrightarrow> c * a \<le> 0"
    using assms(3) by (simp_all add: mult_nonpos_nonneg)
  ultimately show "- 32768 \<le> c * a" "c * a \<le> 32767" using assms(1,2) by linarith+
qed

text \<open>The factor \<open>0.998\<close>, kept folded in the proofs.\<close>

definition decay :: real where "decay = 998 / 1000"

lemma decay_bounds: "0 < decay" "decay < 1"
  by (simp_all add: decay_def)

lemma real_dc_simps: "dc_keep real_dc = decay" "dc_new real_dc = 1 - decay"
  "dc_to_i32 real_dc x = (if - 2147483648 \<le> x \<and> x \<le> 2147483647 then Some (truncated x) else None)"
  by (simp_all add: real_dc_def decay_def)

lemma constant_step:
  fixes a :: real
  assumes "in_i16 c" "0 \<le> a" "a \<le> 1"
  shows "dc_average real_fops real_dc (c * (1 - a)) c = c * (1 - decay * a)"
    and "dc_correct real_fops real_dc (c * (1 - decay * a)) c = Some (truncated (c * (decay * a)))"
proof -
  show "dc_average real_fops real_dc (c * (1 - a)) c = c * (1 - decay * a)"
    by (simp add: dc_average_def real_fops_def real_dc_simps algebra_simps)
  have diff: "of_int c - c * (1 - decay * a) = c * (decay * a)" by (simp add: algebra_simps)
  have "0 \<le> decay * a" "decay * a \<le> 1" using assms(2,3) decay_bounds by (auto intro: mult_le_one)
  then have b: "- 32768 \<le> c * (decay * a)" "c * (decay * a) \<le> 32767"
    using assms(1) shrunk [of "of_int c" "decay * a"] by (simp_all add: in_i16_def)
  then show "dc_correct real_fops real_dc (c * (1 - decay * a)) c = Some (truncated (c * (decay * a)))"
    using truncated_bounds [OF b] unfolding dc_correct_def real_fops_def fops.simps diff
    by (simp add: clamp_i16_def real_dc_simps)
qed

definition constant_pairs :: "nat \<Rightarrow> int \<Rightarrow> int \<Rightarrow> int list" where
  "constant_pairs n si sq = concat (replicate n [si, sq])"

definition decayed_pair :: "int \<Rightarrow> int \<Rightarrow> real \<Rightarrow> int list" where
  "decayed_pair si sq a = [truncated (si * a), truncated (sq * a)]"

lemma constant_run:
  fixes a :: real
  assumes "in_i16 si" "in_i16 sq"
  shows "0 \<le> a \<Longrightarrow> a \<le> 1 \<Longrightarrow> \<exists>avgs. remove_dc real_fops real_dc (si * (1 - a)) (sq * (1 - a)) (constant_pairs n si sq) =
    Some (concat (map (\<lambda>k. decayed_pair si sq (decay ^ Suc k * a)) [0..<n]), avgs)"
proof (induction n arbitrary: a)
  case 0
  then show ?case by (simp add: constant_pairs_def)
next
  case (Suc n)
  note step = constant_step [OF assms(1) Suc.prems] constant_step [OF assms(2) Suc.prems]
  have "0 \<le> decay * a" "decay * a \<le> 1" using Suc.prems decay_bounds by (auto intro: mult_le_one)
  from Suc.IH [OF this] obtain avgs where
    rest: "remove_dc real_fops real_dc (si * (1 - decay * a)) (sq * (1 - decay * a)) (constant_pairs n si sq) =
      Some (concat (map (\<lambda>k. decayed_pair si sq (decay ^ Suc k * (decay * a))) [0..<n]), avgs)" by blast
  have pairs: "constant_pairs (Suc n) si sq = si # sq # constant_pairs n si sq" by (simp add: constant_pairs_def)
  have "map (\<lambda>k. decayed_pair si sq (decay ^ Suc k * a)) [0..<Suc n] =
      decayed_pair si sq (decay * a) # map (\<lambda>k. decayed_pair si sq (decay ^ Suc k * (decay * a))) [0..<n]"
    by (simp add: upt_conv_Cons map_Suc_upt [symmetric] comp_def mult.assoc mult.left_commute del: upt_Suc)
  then show ?case
    unfolding pairs remove_dc.simps Let_def step rest by (simp add: decayed_pair_def)
qed

text \<open>A sample of the largest amplitude is below one after 6000 pairs.\<close>

lemma decay_exp: "decay ^ n \<le> exp (real n * - (2 / 1000))"
proof -
  have "decay \<le> exp (- (2 / 1000))" using exp_ge_add_one_self [of "- (2 / 1000)"] by (simp add: decay_def)
  then have "decay ^ n \<le> exp (- (2 / 1000)) ^ n" by (rule power_mono) (use decay_bounds in simp)
  then show ?thesis by (simp only: exp_of_nat_mult)
qed

lemma exp_twelve: "(32768 :: real) < exp 12"
proof -
  have "(5 / 2) ^ 12 \<le> exp (1 :: real) ^ 12"
    using exp_lower_Taylor_quadratic [of 1] by (intro power_mono) auto
  also have "\<dots> = exp (real 12 * 1)" by (simp only: exp_of_nat_mult)
  finally show ?thesis by (simp add: power_divide)
qed

lemma decayed:
  assumes "6000 \<le> n"
  shows "decay ^ n * 32768 < 1"
proof -
  have "real n * - (2 / 1000) \<le> - 12" using assms by simp
  with decay_exp [of n] have "decay ^ n \<le> exp (- 12)" by (meson exp_le_cancel_iff order_trans)
  then have "decay ^ n * 32768 \<le> exp (- 12) * 32768" by simp
  also have "\<dots> < 1" using exp_twelve by (simp add: exp_minus field_simps)
  finally show ?thesis .
qed


text \<open>A partial \<open>send\<close> swaps the pairs.  When a socket takes an odd number of bytes of a block and then
  blocks, the rest of the block is dropped; in the stream of that client the first component of every pair
  of the next block is then at an odd position, where the client expects the second one.\<close>

theorem odd_partial_send_swaps_pairs:
  assumes "msisdr_callback F C e False b1 env1 (avgs, xs) = Some (c1, (avgs1, xs1), sent1)"
    and "msisdr_callback F C e False b2 env2 (avgs1, xs1) = Some (c2, (avgs2, xs2), sent2)"
    and "j < length xs" "xs ! j = Some sock" "env1 j = [Took m, Would_block]" "env2 j = []"
    and "odd m" "m < length b1 div 2" "m < U8BUF_MAX"
  shows "\<exists>samples. remove_dc F C (fst avgs1) (snd avgs1) (as_int16 e b2) = Some (samples, avgs2) \<and> xs2 ! j = Some sock \<and>
    (\<forall>p. 2 * p < length samples \<longrightarrow> 2 * p < U8BUF_MAX \<longrightarrow>
      (sent1 ! j @ sent2 ! j) ! (m + 2 * p) = to_u8 (samples ! (2 * p)) \<and> odd (m + 2 * p))"
proof -
  from callback_slot [OF assms(1)] obtain s1 where
    s1: "remove_dc F C (fst avgs) (snd avgs) (as_int16 e b1) = Some (s1, avgs1)"
      "xs1 = fst (broadcast_samples (convert_samples s1) env1 0 xs)" "sent1 = snd (broadcast_samples (convert_samples s1) env1 0 xs)" by blast
  from callback_slot [OF assms(2)] obtain s2 where
    s2: "remove_dc F C (fst avgs1) (snd avgs1) (as_int16 e b2) = Some (s2, avgs2)"
      "xs2 = fst (broadcast_samples (convert_samples s2) env2 0 xs1)" "sent2 = snd (broadcast_samples (convert_samples s2) env2 0 xs1)" by blast
  have "m < length (convert_samples s1)"
    using remove_dc_length [OF s1(1)] assms(8,9) by (simp add: convert_samples_def length_as_int16)
  moreover have "m \<noteq> 0" using assms(7) by (cases m) auto
  ultimately have partial: "send_loop (convert_samples s1) [Took m, Would_block] = (True, take m (convert_samples s1))"
    by (cases "convert_samples s1"; cases "drop m (convert_samples s1)") auto
  have all: "send_loop (convert_samples s2) [] = (True, convert_samples s2)" by (cases "convert_samples s2") simp_all
  have n1: "xs1 ! j = Some sock" "sent1 ! j = take m (convert_samples s1)"
    using assms(3-5) partial by (simp_all add: s1 broadcast_nth)
  have "j < length xs1" using assms(3) by (simp add: s1 broadcast_length)
  then have n2: "xs2 ! j = Some sock" "sent2 ! j = convert_samples s2"
    using n1(1) assms(6) all by (simp_all add: s2 broadcast_nth)
  show ?thesis
    using s2(1) n1 n2 \<open>m < length (convert_samples s1)\<close> assms(7) by (auto simp: nth_append convert_samples_def)
qed

theorem odd_partial_send_swaps_pairs_witness:
  "\<exists>st1 st2 c1 c2 sent1 sent2. msisdr_callback real_fops real_dc Little False [0, 1, 0, 2] (\<lambda>_. [Took 1, Would_block]) ((0, 0), [Some 5]) =
      Some (c1, st1, sent1) \<and>
    msisdr_callback real_fops real_dc Little False [0, 1, 0, 2] (\<lambda>_. []) st1 = Some (c2, st2, sent2) \<and>
    snd st2 ! 0 = Some 5 \<and>
    (\<exists>samples. length samples = 2 \<and> (sent1 ! 0 @ sent2 ! 0) ! 1 = to_u8 (samples ! 0))"
proof -
  have samples: "as_int16 Little [0, 1, 0, 2] = [256, 512]" by (simp add: demo_samples)
  have i: "in_i16 256" "in_i16 512" by (simp_all add: in_i16_def)
  have d1: "remove_dc real_fops real_dc (fst (0, 0)) (snd (0, 0)) (as_int16 Little [0, 1, 0, 2]) =
      Some ([truncated (256 * decay), truncated (512 * decay)], 256 * (1 - decay), 512 * (1 - decay))"
    using constant_step [OF i(1), of 1] constant_step [OF i(2), of 1] by (simp add: demo_samples Let_def)
  have d2: "remove_dc real_fops real_dc (fst (256 * (1 - decay), 512 * (1 - decay))) (snd (256 * (1 - decay), 512 * (1 - decay)))
      (as_int16 Little [0, 1, 0, 2]) = Some ([truncated (256 * (decay * decay)), truncated (512 * (decay * decay))],
        256 * (1 - decay * decay), 512 * (1 - decay * decay))"
    using constant_step [OF i(1), of decay] constant_step [OF i(2), of decay] decay_bounds by (simp add: demo_samples Let_def)
  let ?env = "\<lambda>_. [Took 1, Would_block]"
  obtain st1 sent1 where c1: "msisdr_callback real_fops real_dc Little False [0, 1, 0, 2] ?env ((0, 0), [Some 5]) = Some (False, st1, sent1)"
    "fst st1 = (256 * (1 - decay), 512 * (1 - decay))"
    using callback_defined [OF d1, of ?env "[Some 5]"] by simp
  obtain xs1 where st1: "st1 = ((256 * (1 - decay), 512 * (1 - decay)), xs1)" using c1(2) by (cases st1) auto
  obtain st2 sent2 where c2: "msisdr_callback real_fops real_dc Little False [0, 1, 0, 2] (\<lambda>_. []) st1 = Some (False, st2, sent2)"
    using callback_defined [OF d2, of "\<lambda>_. []" xs1] st1 by simp
  obtain avgs2 xs2 where st2: "st2 = (avgs2, xs2)" by (cases st2)
  from odd_partial_send_swaps_pairs [OF c1(1) [unfolded st1] c2 [unfolded st1 st2], of 0 5 1] obtain s where
    s: "remove_dc real_fops real_dc (fst (256 * (1 - decay), 512 * (1 - decay))) (snd (256 * (1 - decay), 512 * (1 - decay)))
        (as_int16 Little [0, 1, 0, 2]) = Some (s, avgs2)" "xs2 ! 0 = Some 5"
      "\<forall>p. 2 * p < length s \<longrightarrow> 2 * p < U8BUF_MAX \<longrightarrow> (sent1 ! 0 @ sent2 ! 0) ! (1 + 2 * p) = to_u8 (s ! (2 * p)) \<and> odd (1 + 2 * p)"
    by (auto simp: U8BUF_MAX_def)
  have "length s = 2" using s(1) d2 by simp
  moreover from this s(3) have "(sent1 ! 0 @ sent2 ! 0) ! 1 = to_u8 (s ! 0)" by (auto simp: U8BUF_MAX_def dest: spec [of _ 0])
  ultimately show ?thesis using c1(1) c2 s(2) st2 by fastforce
qed

text \<open>C36.  The constant component goes away.  In exact arithmetic a constant input leaves a remainder that
  shrinks by 0.998 with every pair: pair \<open>k\<close> of the output is the input times \<open>0.998 ^ (k + 1)\<close>, truncated;
  nothing is clamped, and from pair 6000 on the output is 0, which is sent as 128.\<close>

theorem constant_component_vanishes:
  assumes "in_i16 si" "in_i16 sq"
  shows "\<exists>ys avgs. remove_dc real_fops real_dc 0 0 (concat (replicate n [si, sq])) = Some (ys, avgs) \<and>
    ys = concat (map (\<lambda>k. [truncated (si * (998 / 1000) ^ Suc k), truncated (sq * (998 / 1000) ^ Suc k)]) [0..<n]) \<and>
    (\<forall>k. 6000 \<le> k \<longrightarrow> truncated (si * (998 / 1000) ^ Suc k) = 0 \<and> truncated (sq * (998 / 1000) ^ Suc k) = 0) \<and> to_u8 0 = 128"
proof -
  have small: "truncated (c * decay ^ Suc k) = 0" if "in_i16 c" "6000 \<le> k" for c :: int and k
  proof (rule truncated_small)
    have "\<bar>real_of_int c\<bar> \<le> 32768" using that(1) unfolding in_i16_def by linarith
    then have "\<bar>c * decay ^ Suc k\<bar> \<le> 32768 * decay ^ Suc k"
      using decay_bounds by (simp add: abs_mult del: power_Suc) 
    also have "\<dots> < 1" using decayed [of "Suc k"] that(2) by (simp add: mult.commute)
    finally show "\<bar>c * decay ^ Suc k\<bar> < 1" .
  qed
  from constant_run [OF assms, of 1 n] obtain avgs where
    "remove_dc real_fops real_dc 0 0 (constant_pairs n si sq) = Some (concat (map (\<lambda>k. decayed_pair si sq (decay ^ Suc k)) [0..<n]), avgs)"
    by auto
  with small assms show ?thesis by (auto simp: constant_pairs_def decayed_pair_def decay_def to_u8_def simp del: power_Suc)
qed

theorem constant_component_vanishes_witness:
  "\<exists>ys avgs. remove_dc real_fops real_dc 0 0 (concat (replicate 2 [1000, - 500])) = Some (ys, avgs) \<and> length ys = 4"
  using constant_component_vanishes [of 1000 "- 500" 2] by (auto simp: in_i16_def eval_nat_numeral)

end
