(* ===== verification/Client.thy ===== *)
theory Client
  imports Request
begin

text \<open>
  The command line client: \<open>create_client\<close> and \<open>destroy_client\<close> of \<open>src/src/client/tcp_client.c\<close> and
  \<open>src/src/client/tcp_client_main.c\<close>, which sends one request and copies the stream to its output.
\<close>

subsection \<open>The connection\<close>

text \<open>The allocation, the result of \<open>socket\<close> and the code of \<open>connect\<close>; the sockets left open.\<close>

definition create_client :: "bool \<Rightarrow> int \<Rightarrow> int \<Rightarrow> (int \<times> int option) \<times> int set" where
  "create_client mem_ok fd code =
     (if \<not> mem_ok then ((- ENOMEM, None), {})
      else if fd = - 1 then ((- 1, None), {})
      else if code \<noteq> 0 then ((- 1, None), {fd})
      else ((0, Some fd), {fd}))"

definition destroy_client :: "int option \<Rightarrow> int set \<Rightarrow> int set" where
  "destroy_client tcp_client opened = (case tcp_client of None \<Rightarrow> opened | Some s \<Rightarrow> opened - {s})"

subsection \<open>Arguments\<close>

text \<open>The options with their converted arguments; \<open>Arg_other\<close> is any other one \<open>getopt\<close> returns.\<close>

datatype cli_arg = Arg_help | Arg_host string | Arg_band u32 | Arg_rate u32 | Arg_port int | Arg_freq u32 | Arg_other

record cli_request =
  cr_hostname :: string
  cr_port :: int
  cr_center_freq :: u32
  cr_band_freq :: u32
  cr_sampling_rate :: u32

definition EXIT_SUCCESS :: int where "EXIT_SUCCESS = 0"
definition EXIT_FAILURE :: int where "EXIT_FAILURE = 1"

definition default_request :: cli_request where
  "default_request = \<lparr>cr_hostname = ''127.0.0.1'', cr_port = 8090, cr_center_freq = 0, cr_band_freq = 0,
     cr_sampling_rate = 48000\<rparr>"

text \<open>\<open>Inl\<close> is the code the program ends with.\<close>

fun parse_args :: "cli_arg list \<Rightarrow> cli_request \<Rightarrow> int + cli_request" where
  "parse_args [] r = Inr r"
| "parse_args (Arg_help # as) r = Inl EXIT_SUCCESS"
| "parse_args (Arg_host h # as) r = parse_args as (r\<lparr>cr_hostname := h\<rparr>)"
| "parse_args (Arg_band f # as) r = parse_args as (r\<lparr>cr_band_freq := f\<rparr>)"
| "parse_args (Arg_rate f # as) r = parse_args as (r\<lparr>cr_sampling_rate := f\<rparr>)"
| "parse_args (Arg_port p # as) r = parse_args as (r\<lparr>cr_port := p\<rparr>)"
| "parse_args (Arg_freq f # as) r = parse_args as (r\<lparr>cr_center_freq := f\<rparr>)"
| "parse_args (Arg_other # as) r = Inl EXIT_FAILURE"

text \<open>The center frequency and the file name are required; the band defaults to the center.\<close>

definition read_args :: "cli_arg list \<Rightarrow> string option \<Rightarrow> int + cli_request \<times> string" where
  "read_args as filename =
     (case parse_args as default_request of
        Inl code \<Rightarrow> Inl code
      | Inr r \<Rightarrow> (case filename of
            None \<Rightarrow> Inl EXIT_SUCCESS
          | Some name \<Rightarrow>
              if cr_center_freq r = 0 then Inl EXIT_SUCCESS
              else Inr (if cr_band_freq r = 0 then r\<lparr>cr_band_freq := cr_center_freq r\<rparr> else r, name)))"

subsection \<open>Copying the stream\<close>

definition buffer_length :: nat where "buffer_length = 262144"

text \<open>
  The loop around \<open>fwrite\<close>; the numbers are its results, 0 is a failure, and without a further one it
  writes everything.
\<close>

fun write_block :: "u8 list \<Rightarrow> nat list \<Rightarrow> (bool \<times> u8 list) \<times> nat list" where
  "write_block bs [] = ((True, bs), [])"
| "write_block bs (n # ns) =
     (if bs = [] then ((True, []), n # ns)
      else if n = 0 then ((False, []), ns)
      else apfst (apsnd (append (take n bs))) (write_block (drop n bs) ns))"

text \<open>
  The outer loop with fuel; \<open>do_exit k\<close> is the flag of the signal handler before turn \<open>k\<close>.  The exit status
  and what was written.
\<close>

fun relay :: "nat \<Rightarrow> nat \<Rightarrow> (nat \<Rightarrow> bool) \<Rightarrow> recv_event list \<Rightarrow> nat list \<Rightarrow> (int \<times> u8 list) option" where
  "relay 0 k do_exit evs ns = None"
| "relay (Suc fuel) k do_exit evs ns =
     (if do_exit k then Some (EXIT_SUCCESS, [])
      else case read_data buffer_length evs of ((code, bs), evs') \<Rightarrow>
        if code \<noteq> 0 then Some (EXIT_FAILURE, [])
        else case write_block bs ns of ((ok, out), ns') \<Rightarrow>
          if \<not> ok then Some (EXIT_FAILURE, out)
          else map_option (apsnd (append out)) (relay fuel (Suc k) do_exit evs' ns'))"

subsection \<open>The program\<close>

text \<open>What the environment decides: the calls of the connection, the allocations, opening the output.\<close>

record command_env =
  ce_mem :: bool
  ce_socket :: int
  ce_connect :: int
  ce_request_mem :: bool
  ce_header_mem :: bool
  ce_response_mem :: bool
  ce_open :: bool
  ce_buffer_mem :: bool
  ce_exit :: "nat \<Rightarrow> bool"

text \<open>
  The part behind the arguments.  The status, the bytes sent and the output file, \<open>None\<close> when it was not
  opened.
\<close>

definition run_client :: "endian \<Rightarrow> command_env \<Rightarrow> nat \<Rightarrow> cli_request \<Rightarrow> write_event list \<Rightarrow> recv_event list \<Rightarrow> nat list
    \<Rightarrow> ((int \<times> u8 list) \<times> u8 list option) option" where
  "run_client e env fuel r wevs revs ns =
     (case fst (create_client (ce_mem env) (ce_socket env) (ce_connect env)) of
        (code, None) \<Rightarrow> Some ((code, []), None)
      | (_, Some sock) \<Rightarrow>
          (case fst (send_message e (ce_request_mem env) PROTOCOL_VERSION TYPE_REQUEST (cr_center_freq r) (cr_sampling_rate r)
              (cr_band_freq r) REQUEST_DESTINATION_SOCKET wevs) of (code, sent) \<Rightarrow>
             if code \<noteq> 0 then Some ((code, sent), None)
             else case read_response e (ce_header_mem env) (ce_response_mem env) revs of
               (Inl code, _) \<Rightarrow> Some ((code, sent), None)
             | (Inr (header, resp), revs') \<Rightarrow>
                 if msg_type header \<noteq> TYPE_RESPONSE then Some ((EXIT_FAILURE, sent), None)
                 else if rs_status resp \<noteq> RESPONSE_STATUS_SUCCESS then Some ((EXIT_FAILURE, sent), None)
                 else if \<not> ce_open env then Some ((EXIT_FAILURE, sent), None)
                 else if \<not> ce_buffer_mem env then Some ((- ENOMEM, sent), Some [])
                 else map_option (\<lambda>(status, out). ((status, sent), Some out)) (relay fuel 0 (ce_exit env) revs' ns)))"

definition client_main :: "endian \<Rightarrow> command_env \<Rightarrow> nat \<Rightarrow> cli_arg list \<Rightarrow> string option \<Rightarrow> write_event list \<Rightarrow> recv_event list
    \<Rightarrow> nat list \<Rightarrow> ((int \<times> u8 list) \<times> u8 list option) option" where
  "client_main e env fuel as filename wevs revs ns =
     (case read_args as filename of
        Inl code \<Rightarrow> Some ((code, []), None)
      | Inr (r, name) \<Rightarrow> run_client e env fuel r wevs revs ns)"

subsection \<open>What the copy contains\<close>

lemma write_block_all: "0 \<notin> set ns \<Longrightarrow> \<exists>ns'. write_block bs ns = ((True, bs), ns') \<and> 0 \<notin> set ns'"
proof (induction bs ns rule: write_block.induct)
  case (2 bs n ns)
  then show ?case by (cases "bs = []") auto
qed simp

lemma buffer_length_pos: "0 < buffer_length"
  by (simp add: buffer_length_def)

text \<open>Whole blocks are copied, the rest is lost; one turn more than there are blocks is enough fuel.\<close>

lemma relay_blocks:
  assumes "length (pending evs) div buffer_length < fuel" "0 \<notin> set ns" "\<And>k. \<not> do_exit k"
  shows "relay fuel k do_exit evs ns =
    Some (EXIT_FAILURE, take (buffer_length * (length (pending evs) div buffer_length)) (pending evs))"
  using assms
proof (induction fuel arbitrary: k evs ns)
  case (Suc fuel)
  show ?case
  proof (cases "buffer_length \<le> length (pending evs)")
    case False
    with read_struct_short [of evs buffer_length] stop_code_negative [of evs] Suc.prems(3) show ?thesis
      by (cases "read_struct buffer_length evs") (auto simp: read_data_def)
  next
    case True
    then obtain evs' where r: "read_struct buffer_length evs = ((0, take buffer_length (pending evs)), evs')"
      "pending evs' = drop buffer_length (pending evs)" using read_struct_enough by blast
    obtain ns' where w: "write_block (take buffer_length (pending evs)) ns = ((True, take buffer_length (pending evs)), ns')"
      "0 \<notin> set ns'" using write_block_all Suc.prems(2) by blast
    let ?n = "length (pending evs) div buffer_length"
    have n: "length (pending evs') div buffer_length = ?n - 1" "0 < ?n"
      using True buffer_length_pos by (simp_all add: r le_div_geq)
    have "length (pending evs') div buffer_length < fuel" using Suc.prems(1) n by linarith
    note IH = Suc.IH [OF this w(2) Suc.prems(3), of "Suc k", unfolded n(1), unfolded r(2)]
    have "buffer_length * ?n = buffer_length + buffer_length * (?n - 1)"
      using n(2) by (cases ?n) simp_all
    then show ?thesis using Suc.prems(3) r w IH by (simp add: read_data_def take_add ac_simps)
  qed
qed simp

subsection \<open>Properties\<close>

text \<open>C11.  From the server's answer to the file.  When the server accepts the request and then sends a
  stream that ends, the client has sent exactly one well-formed request with the parameters of the command
  line, however the kernel splits writes and reads; it ends with a failure status, and its file holds the
  whole blocks of 262144 bytes of the stream.  What comes behind the last whole block is lost.  One turn
  more than there are blocks ends the loop.\<close>

theorem client_saves_whole_blocks:
  assumes "read_args as filename = Inr (r, name)"
    and "ce_mem env" "ce_socket env \<noteq> - 1" "ce_connect env = 0" "ce_request_mem env" "ce_header_mem env" "ce_response_mem env"
      "ce_open env" "ce_buffer_mem env" "\<forall>k. \<not> ce_exit env k"
    and "\<forall>errno. Write_error errno \<notin> set wevs" "0 \<notin> set ns"
    and "fst (write_message es RESPONSE_STATUS_SUCCESS details swevs) = (0, answer)"
    and "pending revs = answer @ stream" "length stream div buffer_length < fuel"
  shows "client_main e env fuel as filename wevs revs ns =
    Some ((EXIT_FAILURE, [PROTOCOL_VERSION, TYPE_REQUEST] @ big_bytes (cr_center_freq r) @ big_bytes (cr_sampling_rate r) @
        big_bytes (cr_band_freq r) @ [REQUEST_DESTINATION_SOCKET]),
      Some (take (buffer_length * (length stream div buffer_length)) stream))"
proof -
  have sent: "fst (send_message e True PROTOCOL_VERSION TYPE_REQUEST (cr_center_freq r) (cr_sampling_rate r) (cr_band_freq r)
      REQUEST_DESTINATION_SOCKET wevs) = (0, [PROTOCOL_VERSION, TYPE_REQUEST] @ big_bytes (cr_center_freq r) @
        big_bytes (cr_sampling_rate r) @ big_bytes (cr_band_freq r) @ [REQUEST_DESTINATION_SOCKET])"
    using write_loop_ok [of wevs] assms(11)
    by (simp add: send_message_def write_request_def write_data_def header_bytes_def request_bytes_def)
  obtain revs' where resp: "read_response e True True revs =
      (Inr (\<lparr>protocol_version = PROTOCOL_VERSION, msg_type = TYPE_RESPONSE\<rparr>,
        \<lparr>rs_status = RESPONSE_STATUS_SUCCESS, rs_details = details\<rparr>), revs')" "pending revs' = stream"
    using response_roundtrip [OF assms(13,14), of e] by blast
  have "relay fuel 0 (ce_exit env) revs' ns =
      Some (EXIT_FAILURE, take (buffer_length * (length stream div buffer_length)) stream)"
    using relay_blocks [of revs' fuel ns "ce_exit env" 0] resp(2) assms(10,12,15) by simp
  then show ?thesis
    using assms(1-9) sent resp(1) by (simp add: client_main_def run_client_def create_client_def)
qed

theorem client_saves_whole_blocks_witness:
  "client_main Little (\<lparr>ce_mem = True, ce_socket = 3, ce_connect = 0, ce_request_mem = True, ce_header_mem = True,
      ce_response_mem = True, ce_open = True, ce_buffer_mem = True, ce_exit = \<lambda>_. False\<rparr>) 1
    [Arg_freq 100, Arg_rate 7] (Some ''out'') [Accept 4] [Arrive [0, 2], Arrive [0, 0, 0, 0, 0, 9, 9]] [] =
    Some ((1, [0, 0, 0, 0, 0, 100, 0, 0, 0, 7, 0, 0, 0, 100, 1]), Some [])"
proof -
  have "read_args [Arg_freq 100, Arg_rate 7] (Some ''out'') =
      Inr (\<lparr>cr_hostname = ''127.0.0.1'', cr_port = 8090, cr_center_freq = 100, cr_band_freq = 100, cr_sampling_rate = 7\<rparr>, ''out'')"
    by (simp add: read_args_def default_request_def)
  from client_saves_whole_blocks [OF this, of "\<lparr>ce_mem = True, ce_socket = 3, ce_connect = 0, ce_request_mem = True, ce_header_mem = True,
      ce_response_mem = True, ce_open = True, ce_buffer_mem = True, ce_exit = \<lambda>_. False\<rparr>" "[Accept 4]" "[]" Big 0 "[]"
      "[0, 2, 0, 0, 0, 0, 0]" "[Arrive [0, 2], Arrive [0, 0, 0, 0, 0, 9, 9]]" "[9, 9]" 1 Little]
  show ?thesis
    by (simp add: write_message_def header_bytes_def response_bytes_def big_bytes_def api_defs buffer_length_def EXIT_FAILURE_def)
qed

end
