(* ===== verification/Logger.thy ===== *)
theory Logger
  imports Prelude
begin

text \<open>
  The logger of the rtl_tcp server, \<open>src/src/logger.c\<close>: every entry goes to the system log and, when one is
  open, to a file that is renamed to \<open><path>.old\<close> and started anew when it has grown too large.  The mutex
  makes an entry one step.
\<close>

subsection \<open>State\<close>

text \<open>\<open>s_file\<close> is the name of the open file; \<open>disk\<close> the files, \<open>syslog\<close> what the system log got.\<close>

record logger =
  s_path :: string
  s_file :: "string option"
  s_max_bytes :: nat
  s_written :: nat
  disk :: "string \<Rightarrow> string option"
  syslog :: "(int \<times> string) list"

definition LOG_ERR :: int where "LOG_ERR = 3"
definition LOG_WARNING :: int where "LOG_WARNING = 4"
definition LOG_INFO :: int where "LOG_INFO = 6"
definition LOG_MAX_BYTES_DEFAULT :: nat where "LOG_MAX_BYTES_DEFAULT = 5 * 1024 * 1024"

text \<open>The calls that can fail: opening, renaming, and the two \<open>fprintf\<close> and the \<open>fputc\<close> of an entry.\<close>

record log_env =
  le_open :: bool
  le_rename :: bool
  le_print :: bool
  le_message :: bool
  le_newline :: bool

definition all_ok :: log_env where
  "all_ok = \<lparr>le_open = True, le_rename = True, le_print = True, le_message = True, le_newline = True\<rparr>"

subsection \<open>Operations\<close>

definition log_init :: "log_env \<Rightarrow> string option \<Rightarrow> nat \<Rightarrow> logger \<Rightarrow> logger" where
  "log_init env path max_bytes s =
     (let s1 = s\<lparr>s_max_bytes := (if max_bytes \<noteq> 0 then max_bytes else LOG_MAX_BYTES_DEFAULT), s_written := 0, s_path := ''''\<rparr>
      in case path of
        None \<Rightarrow> s1
      | Some p \<Rightarrow>
          let s2 = s1\<lparr>s_path := take 511 p\<rparr>
          in if le_open env
             then s2\<lparr>s_file := Some p, disk := (disk s)(p := Some (case disk s p of None \<Rightarrow> '''' | Some t \<Rightarrow> t))\<rparr>
             else s2\<lparr>s_file := None, syslog := syslog s @ [(LOG_WARNING, p)]\<rparr>)"

definition log_close :: "logger \<Rightarrow> logger" where
  "log_close s = s\<lparr>s_file := None\<rparr>"

definition old_name :: "string \<Rightarrow> string" where
  "old_name path = path @ ''.old''"

definition maybe_rotate :: "log_env \<Rightarrow> logger \<Rightarrow> logger" where
  "maybe_rotate env s =
     (if s_file s = None \<or> s_written s < s_max_bytes s then s
      else
        let disk1 = (if le_rename env \<and> disk s (s_path s) \<noteq> None
              then (disk s)(old_name (s_path s) := disk s (s_path s), s_path s := None) else disk s)
        in if le_open env
           then s\<lparr>disk := disk1(s_path s := Some ''''), s_file := Some (s_path s), s_written := 0\<rparr>
           else s\<lparr>disk := disk1, s_file := None, s_written := 0, syslog := syslog s @ [(LOG_WARNING, s_path s)]\<rparr>)"

text \<open>Appending to the open file, and counting what was written.\<close>

definition append_file :: "bool \<Rightarrow> string \<Rightarrow> logger \<Rightarrow> logger" where
  "append_file ok text s =
     (case s_file s of
        None \<Rightarrow> s
      | Some f \<Rightarrow> if ok then s\<lparr>disk := (disk s)(f := map_option (\<lambda>t. t @ text) (disk s f)), s_written := s_written s + length text\<rparr>
          else s)"

definition entry_prefix :: "int \<Rightarrow> string \<Rightarrow> string" where
  "entry_prefix priority ts = ''['' @ ts @ ''] '' @ (if priority \<le> LOG_ERR then ''ERR '' else ''INFO'') @ ''  ''"

text \<open>The new line is counted also when it could not be written.\<close>

definition write_entry :: "log_env \<Rightarrow> int \<Rightarrow> string \<Rightarrow> string \<Rightarrow> logger \<Rightarrow> logger" where
  "write_entry env priority ts message s =
     (let s1 = s\<lparr>syslog := syslog s @ [(priority, message)]\<rparr>
      in if s_file s = None then s1
         else
           let s2 = append_file (le_print env) (entry_prefix priority ts) s1;
               s3 = append_file (le_message env) message s2;
               s4 = (if le_newline env then append_file True [CHR 0x0A] s3 else s3\<lparr>s_written := s_written s3 + 1\<rparr>)
           in maybe_rotate env s4)"

definition log_info :: "log_env \<Rightarrow> string \<Rightarrow> string \<Rightarrow> logger \<Rightarrow> logger" where
  "log_info env ts message s = write_entry env LOG_INFO ts message s"

definition log_err :: "log_env \<Rightarrow> string \<Rightarrow> string \<Rightarrow> logger \<Rightarrow> logger" where
  "log_err env ts message s = write_entry env LOG_ERR ts message s"

text \<open>An entry: its priority, time stamp and message; a run of entries without failures.\<close>

fun log_entries :: "(int \<times> string \<times> string) list \<Rightarrow> logger \<Rightarrow> logger" where
  "log_entries [] s = s"
| "log_entries ((priority, ts, message) # es) s = log_entries es (write_entry all_ok priority ts message s)"

definition entry_text :: "int \<times> string \<times> string \<Rightarrow> string" where
  "entry_text en = (case en of (priority, ts, message) \<Rightarrow> entry_prefix priority ts @ message @ [CHR 0x0A])"

subsection \<open>The files\<close>

text \<open>
  \<open>written\<close> is everything written so far: the current file, behind it the previous generation, which had
  reached the limit, by less than one entry of at most \<open>bound\<close> characters.
\<close>

definition log_inv :: "string \<Rightarrow> nat \<Rightarrow> string \<Rightarrow> logger \<Rightarrow> bool" where
  "log_inv p bound written s \<longleftrightarrow> s_path s = p \<and> s_file s = Some p \<and> 0 < s_max_bytes s \<and>
     (\<exists>cur. disk s p = Some cur \<and> s_written s = length cur \<and> length cur < s_max_bytes s \<and>
       (case disk s (old_name p) of
          None \<Rightarrow> written = cur
        | Some previous \<Rightarrow> s_max_bytes s \<le> length previous \<and> length previous < s_max_bytes s + bound \<and>
            (\<exists>gone. written = gone @ previous @ cur)))"

lemma all_ok_simps [simp]: "le_open all_ok" "le_rename all_ok" "le_print all_ok" "le_message all_ok" "le_newline all_ok"
  by (simp_all add: all_ok_def)

lemma old_name_other: "old_name p \<noteq> p"
  by (simp add: old_name_def)

lemma write_entry_ok:
  assumes "s_path s = p" "s_file s = Some p" "disk s p = Some cur"
  shows "write_entry all_ok priority ts message s =
    maybe_rotate all_ok (s\<lparr>syslog := syslog s @ [(priority, message)], disk := (disk s)(p := Some (cur @ entry_text (priority, ts, message))),
      s_written := s_written s + length (entry_text (priority, ts, message))\<rparr>)"
  using assms by (simp add: write_entry_def append_file_def entry_text_def add.assoc)

lemma log_inv_entry:
  assumes inv: "log_inv p bound written s" and bound: "length (entry_text en) \<le> bound"
    and en: "en = (priority, ts, message)"
  shows "log_inv p bound (written @ entry_text en) (write_entry all_ok priority ts message s)"
    "s_max_bytes (write_entry all_ok priority ts message s) = s_max_bytes s"
proof -
  from inv obtain cur where cur: "s_path s = p" "s_file s = Some p" "disk s p = Some cur" "s_written s = length cur"
    "length cur < s_max_bytes s" "case disk s (old_name p) of None \<Rightarrow> written = cur
      | Some previous \<Rightarrow> s_max_bytes s \<le> length previous \<and> length previous < s_max_bytes s + bound \<and>
            (\<exists>gone. written = gone @ previous @ cur)"
    by (auto simp: log_inv_def)
  let ?t = "entry_text en"
  note w = write_entry_ok [OF cur(1-3), of priority ts message, folded en]
  show "s_max_bytes (write_entry all_ok priority ts message s) = s_max_bytes s"
    unfolding w by (simp add: maybe_rotate_def Let_def)
  show "log_inv p bound (written @ ?t) (write_entry all_ok priority ts message s)"
  proof (cases "length cur + length ?t < s_max_bytes s")
    case True
    then show ?thesis using cur old_name_other [of p]
      by (auto simp: w maybe_rotate_def log_inv_def split: option.splits)
  next
    case False
    have "written @ ?t = (written @ ?t) @ []" by simp
    moreover obtain gone where "written = gone @ cur" using cur(6) by (auto split: option.splits)
    ultimately show ?thesis using False cur bound old_name_other [of p]
      by (auto simp: w maybe_rotate_def log_inv_def)
  qed
qed

lemma log_inv_entries:
  "log_inv p bound written s \<Longrightarrow> list_all (\<lambda>en. length (entry_text en) \<le> bound) es \<Longrightarrow>
    log_inv p bound (written @ concat (map entry_text es)) (log_entries es s) \<and> s_max_bytes (log_entries es s) = s_max_bytes s"
proof (induction es arbitrary: s written)
  case (Cons en es)
  obtain priority ts message where en: "en = (priority, ts, message)" by (cases en)
  from Cons.prems(2) have "length (entry_text en) \<le> bound" by simp
  note step = log_inv_entry [OF Cons.prems(1) this en]
  from Cons.IH [OF step(1)] Cons.prems(2) step(2) en show ?case by simp
qed simp

subsection \<open>Properties\<close>

text \<open>C27.  Two generations of bounded size.  With a fresh log file and calls that succeed, after any
  entries the file is shorter than the limit, the previous generation is longer than it by less than one
  entry, and together they are the end of everything that was logged: rotation loses only the generation
  before the previous one.\<close>

theorem log_rotation_keeps_two_generations:
  assumes "length p \<le> 511" "disk s p = None" "disk s (old_name p) = None"
    and "list_all (\<lambda>en. length (entry_text en) \<le> bound) es"
    and "s' = log_entries es (log_init all_ok (Some p) max_bytes s)"
    and "limit = (if max_bytes \<noteq> 0 then max_bytes else LOG_MAX_BYTES_DEFAULT)"
  shows "\<exists>cur. disk s' p = Some cur \<and> length cur < limit \<and>
    (case disk s' (old_name p) of
       None \<Rightarrow> cur = concat (map entry_text es)
     | Some previous \<Rightarrow> limit \<le> length previous \<and> length previous < limit + bound \<and>
         (\<exists>gone. concat (map entry_text es) = gone @ previous @ cur))"
proof -
  let ?s = "log_init all_ok (Some p) max_bytes s"
  have max: "s_max_bytes ?s = limit" by (simp add: log_init_def assms(6))
  have "log_inv p bound [] ?s"
    using assms(1-3) old_name_other [of p] by (auto simp: log_init_def log_inv_def LOG_MAX_BYTES_DEFAULT_def)
  from log_inv_entries [OF this assms(4)] max show ?thesis
    unfolding assms(5) log_inv_def append_Nil by (auto split: option.splits)
qed

definition no_logger :: logger where
  "no_logger = \<lparr>s_path = '''', s_file = None, s_max_bytes = 0, s_written = 0, disk = \<lambda>_. None, syslog = []\<rparr>"

theorem log_rotation_keeps_two_generations_witness:
  "let s' = log_entries [(6, ''t'', ''one''), (3, ''t'', ''two''), (6, ''u'', ''x'')] (log_init all_ok (Some ''f'') 20 no_logger)
   in \<exists>cur. disk s' ''f'' = Some cur \<and> length cur < 20"
proof -
  let ?es = "[(6, ''t'', ''one''), (3, ''t'', ''two''), (6, ''u'', ''x'')] :: (int \<times> string \<times> string) list"
  have "list_all (\<lambda>en. length (entry_text en) \<le> 40) ?es" by (simp add: entry_text_def entry_prefix_def)
  from log_rotation_keeps_two_generations [of "''f''" no_logger, OF _ _ _ this refl refl, of 20] show ?thesis
    unfolding Let_def by (auto simp: no_logger_def)
qed

text \<open>
  The count starts at 0 also when the file exists: the limit is on what one run adds, not on the file.
\<close>

lemma existing_log_exceeds_limit:
  assumes "length p \<le> 511" "disk s p = Some before" "0 < max_bytes" "length (entry_text (priority, ts, message)) < max_bytes"
  shows "disk (write_entry all_ok priority ts message (log_init all_ok (Some p) max_bytes s)) p =
    Some (before @ entry_text (priority, ts, message))"
proof -
  let ?s = "log_init all_ok (Some p) max_bytes s"
  have "s_path ?s = p" "s_file ?s = Some p" "disk ?s p = Some before" "s_written ?s = 0" "s_max_bytes ?s = max_bytes"
    using assms(1-3) by (simp_all add: log_init_def)
  with assms(4) show ?thesis by (simp add: write_entry_ok maybe_rotate_def)
qed

end
